(* ===== verification/Prelude.thy ===== *)
theory Prelude
  imports
    Main
    "HOL-Library.Word"
    "HOL-Library.Char_ord"
    "HOL-Library.List_Lexorder"
    "HOL-Library.State_Monad"
begin

text \<open>
  Shared vocabulary of the development.

  \<^item> Go's fixed-width integers are \<^typ>\<open>int\<close> values kept in range by the wrap functions
    \<open>i8\<close>, \<open>i16\<close>, \<open>i32\<close>, \<open>i64\<close> (two's complement) and \<open>u16\<close>, \<open>u32\<close>, \<open>u64\<close>; a conversion
    such as \<open>int32(x)\<close> and every arithmetic operation whose overflow matters is written with
    them. Go's \<open>int\<close> (64 bit) is \<^typ>\<open>int\<close> or \<^typ>\<open>nat\<close> where it only measures slices held in
    memory, whose length is far below \<open>2 ^ 63\<close>.
  \<^item> A byte is an \<open>8 word\<close>, a \<open>[]byte\<close> a list of them; \<open>nil\<close> is told apart from an empty
    slice by \<open>option\<close> where the code tells them apart. A Go string is a HOL \<^typ>\<open>string\<close>:
    both are sequences of bytes, compared bytewise.
  \<^item> A function that may panic returns \<open>'a go\<close>; errors that the code returns as values are
    constructors of \<open>goerror\<close>.
\<close>

section \<open>Collections of facts\<close>

named_theorems wrap_simps \<open>wrap functions on values in range\<close>
named_theorems codec_simps \<open>running a decoder on encoded bytes\<close>
named_theorems len_simps \<open>lengths of encodings\<close>

section \<open>Machine integers\<close>

type_synonym byte = "8 word"
type_synonym bytes = "byte list"

definition i8 :: "int \<Rightarrow> int" where
  "i8 x = (x + 2 ^ 7) mod 2 ^ 8 - 2 ^ 7"

definition i16 :: "int \<Rightarrow> int" where
  "i16 x = (x + 2 ^ 15) mod 2 ^ 16 - 2 ^ 15"

definition i32 :: "int \<Rightarrow> int" where
  "i32 x = (x + 2 ^ 31) mod 2 ^ 32 - 2 ^ 31"

definition i64 :: "int \<Rightarrow> int" where
  "i64 x = (x + 2 ^ 63) mod 2 ^ 64 - 2 ^ 63"

definition u16 :: "int \<Rightarrow> int" where
  "u16 x = x mod 2 ^ 16"

definition u32 :: "int \<Rightarrow> int" where
  "u32 x = x mod 2 ^ 32"

definition u64 :: "int \<Rightarrow> int" where
  "u64 x = x mod 2 ^ 64"

definition in_i8 :: "int \<Rightarrow> bool" where
  "in_i8 x \<longleftrightarrow> - (2 ^ 7) \<le> x \<and> x < 2 ^ 7"

definition in_i16 :: "int \<Rightarrow> bool" where
  "in_i16 x \<longleftrightarrow> - (2 ^ 15) \<le> x \<and> x < 2 ^ 15"

definition in_i32 :: "int \<Rightarrow> bool" where
  "in_i32 x \<longleftrightarrow> - (2 ^ 31) \<le> x \<and> x < 2 ^ 31"

definition in_i64 :: "int \<Rightarrow> bool" where
  "in_i64 x \<longleftrightarrow> - (2 ^ 63) \<le> x \<and> x < 2 ^ 63"

lemmas wrap_defs = i8_def i16_def i32_def i64_def u16_def u32_def u64_def
lemmas in_range_defs = in_i8_def in_i16_def in_i32_def in_i64_def

lemma i8_id [wrap_simps]: "in_i8 x \<Longrightarrow> i8 x = x"
  by (simp add: i8_def in_i8_def)

lemma i16_id [wrap_simps]: "in_i16 x \<Longrightarrow> i16 x = x"
  by (simp add: i16_def in_i16_def)

lemma i32_id [wrap_simps]: "in_i32 x \<Longrightarrow> i32 x = x"
  by (simp add: i32_def in_i32_def)

lemma i64_id [wrap_simps]: "in_i64 x \<Longrightarrow> i64 x = x"
  by (simp add: i64_def in_i64_def)

lemma i8_in [simp, intro]: "in_i8 (i8 x)"
  by (simp add: i8_def in_i8_def pos_mod_bound pos_mod_sign)

lemma i16_in [simp, intro]: "in_i16 (i16 x)"
  by (simp add: i16_def in_i16_def)

lemma i32_in [simp, intro]: "in_i32 (i32 x)"
  by (simp add: i32_def in_i32_def)

lemma i64_in [simp, intro]: "in_i64 (i64 x)"
  by (simp add: i64_def in_i64_def)

lemma i8_mod [simp]: "i8 (x mod 2 ^ 8) = i8 x" "i8 (x mod 256) = i8 x"
  by (simp_all add: i8_def mod_add_left_eq)

lemma i16_mod [simp]: "i16 (x mod 2 ^ 16) = i16 x" "i16 (x mod 65536) = i16 x"
  by (simp_all add: i16_def mod_add_left_eq)

lemma i32_mod [simp]: "i32 (x mod 2 ^ 32) = i32 x" "i32 (x mod 4294967296) = i32 x"
  by (simp_all add: i32_def mod_add_left_eq)

lemma i64_mod [simp]: "i64 (x mod 2 ^ 64) = i64 x" "i64 (x mod 18446744073709551616) = i64 x"
  by (simp_all add: i64_def mod_add_left_eq)

section \<open>Big-endian byte strings\<close>

text \<open>\<open>be_bytes n v\<close> is what \<open>binary.BigEndian.PutUint\<close> writes for an \<open>n\<close>-byte integer, \<open>be_uint\<close>
  what \<open>binary.BigEndian.Uint\<close> reads.\<close>

fun be_bytes :: "nat \<Rightarrow> int \<Rightarrow> bytes" where
  "be_bytes 0 v = []"
| "be_bytes (Suc n) v = word_of_int (v div 256 ^ n) # be_bytes n v"

fun be_uint :: "bytes \<Rightarrow> int" where
  "be_uint [] = 0"
| "be_uint (b # bs) = uint b * 256 ^ length bs + be_uint bs"

lemma length_be_bytes [simp, len_simps]: "length (be_bytes n v) = n"
  by (induction n) auto

lemma uint_byte_of_int [simp]: "uint (word_of_int x :: byte) = x mod 256"
  by (simp add: uint_word_of_int)

lemma be_uint_be_bytes [simp]: "be_uint (be_bytes n v) = v mod 256 ^ n"
proof (induction n)
  case 0
  then show ?case by simp
next
  case (Suc n)
  have "v mod (256 ^ n * 256) = 256 ^ n * (v div 256 ^ n mod 256) + v mod 256 ^ n"
    by (rule zmod_zmult2_eq) simp
  with Suc show ?case by (simp add: mult.commute)
qed

lemma be_uint_bounds: "0 \<le> be_uint bs" "be_uint bs < 256 ^ length bs"
proof (induction bs)
  case (Cons b bs)
  {
    case 1
    show ?case using Cons by simp
  next
    case 2
    have "uint b + 1 \<le> 256" using uint_lt2p [of b] by simp
    then have "(uint b + 1) * 256 ^ length bs \<le> 256 * 256 ^ length bs"
      by (rule mult_right_mono) simp
    then have "uint b * 256 ^ length bs + 256 ^ length bs \<le> 256 ^ length (b # bs)"
      by (simp only: distrib_right mult_1 length_Cons power_Suc)
    with Cons(2) show ?case by (simp only: be_uint.simps)
  }
qed simp_all

lemma be_bytes_mod: "be_bytes n (v mod 256 ^ n) = be_bytes n v"
proof -
  have "be_bytes n (v mod 256 ^ m) = be_bytes n v" if "n \<le> m" for m
    using that
  proof (induction n)
    case (Suc n)
    have "(256::int) ^ m = 256 ^ n * 256 ^ (m - n)"
      using Suc.prems by (simp flip: power_add)
    then have "v mod 256 ^ m div 256 ^ n = v div 256 ^ n mod 256 ^ (m - n)"
      by (simp add: zmod_zmult2_eq)
    moreover have "(256::int) dvd 256 ^ (m - n)"
      using Suc.prems by simp
    ultimately have "(v mod 256 ^ m div 256 ^ n) mod 256 = (v div 256 ^ n) mod 256"
      by (simp add: mod_mod_cancel)
    then have "(word_of_int (v mod 256 ^ m div 256 ^ n) :: byte) = word_of_int (v div 256 ^ n)"
      by (metis uint_byte_of_int word_uint_eqI)
    with Suc show ?case by simp
  qed simp
  then show ?thesis by simp
qed

lemma be_bytes_be_uint: "be_bytes (length bs) (be_uint bs) = bs"
proof (induction bs)
  case (Cons b bs)
  have "(uint b * 256 ^ length bs + be_uint bs) div 256 ^ length bs = uint b"
    using be_uint_bounds [of bs] by simp
  moreover have "be_bytes (length bs) (uint b * 256 ^ length bs + be_uint bs) = bs"
    using be_bytes_mod [of "length bs" "uint b * 256 ^ length bs + be_uint bs"]
      be_bytes_mod [of "length bs" "be_uint bs"] Cons
    by simp
  ultimately show ?case by simp
qed simp

section \<open>Panics and errors\<close>

datatype 'a go = Ret 'a | Panic

fun go_bind :: "'a go \<Rightarrow> ('a \<Rightarrow> 'b go) \<Rightarrow> 'b go" where
  "go_bind (Ret x) f = f x"
| "go_bind Panic f = Panic"

lemma go_bind_Ret_iff: "go_bind m f = Ret y \<longleftrightarrow> (\<exists>x. m = Ret x \<and> f x = Ret y)"
  by (cases m) auto

text \<open>The error values of the program, one constructor per \<open>errors.New\<close> or \<open>fmt.Errorf\<close> site
  (grouped where the code never tells them apart).\<close>

datatype goerror =
    ErrShort
  | ErrTooShort
  | ErrBadMagic
  | ErrOffsetOutOfRange
  | EOF
  | ErrNegativeOffset
  | ErrNotExist
  | ErrReplicaGap int int
  | ErrSyntax
  | ErrClampStop
  | ErrTopicExists string
  | ErrUnknownTopic string
  | ErrNoPartition string int
  | ErrNilRef string int
  | ErrUnknownCommand int
  | ErrNotLeader
  | ErrUnknownPartition
  | ErrTopicDoesNotExist string
  | ErrAlreadyHasPartitions string int
  | ErrBadSpec string
  | ErrWalPayload
  | ErrStore
  | ErrClosed
  | ErrForwardUnavailable
  | ErrNoForwardAddr int
  | ErrRaft
  | ErrFrameSize int
  | ErrUnexpectedEOF
  | ErrBadConfig string
  | ErrFetchCode int
  | ErrCorrelation int int
  | ErrDecode

section \<open>Lists\<close>

text \<open>\<open>put_at xs pos ys\<close> overwrites \<open>xs\<close> from \<open>pos\<close> on: \<open>copy(xs[pos:], ys)\<close> where \<open>ys\<close> fits.\<close>

definition put_at :: "'a list \<Rightarrow> nat \<Rightarrow> 'a list \<Rightarrow> 'a list" where
  "put_at xs pos ys = take pos xs @ ys @ drop (pos + length ys) xs"

lemma length_put_at [simp]:
  "pos + length ys \<le> length xs \<Longrightarrow> length (put_at xs pos ys) = length xs"
  by (simp add: put_at_def)

lemma take_put_at [simp]: "n \<le> pos \<Longrightarrow> pos \<le> length xs \<Longrightarrow> take n (put_at xs pos ys) = take n xs"
  by (simp add: put_at_def min_def)

lemma drop_put_at:
  "pos + length ys \<le> n \<Longrightarrow> pos \<le> length xs \<Longrightarrow> drop n (put_at xs pos ys) = drop n xs"
  by (simp add: put_at_def min_def add.commute)

lemma slice_put_at_same:
  "pos \<le> length xs \<Longrightarrow> take (length ys) (drop pos (put_at xs pos ys)) = ys"
  by (simp add: put_at_def min_def)

lemma slice_put_at_after:
  assumes "pos + length ys \<le> n" and "pos \<le> length xs"
  shows "take k (drop n (put_at xs pos ys)) = take k (drop n xs)"
  using assms by (simp add: drop_put_at)

lemma slice_put_at_before:
  assumes "n + k \<le> pos" and "pos \<le> length xs"
  shows "take k (drop n (put_at xs pos ys)) = take k (drop n xs)"
proof -
  have "take k (drop n zs) = drop n (take (n + k) zs)" for zs :: "'a list"
    by (simp add: drop_take)
  with assms show ?thesis by simp
qed

lemma append_eq_take_drop: "take n (xs @ ys) = xs \<and> drop n (xs @ ys) = ys" if "n = length xs"
  using that by simp

lemma sorted_wrt_less_nth:
  "sorted_wrt (<) xs \<Longrightarrow> i < j \<Longrightarrow> j < length xs \<Longrightarrow> xs ! i < (xs ! j :: 'a :: linorder)"
  by (rule sorted_wrt_nth_less)

lemma concat_map_single:
  assumes "distinct xs" and "x \<in> set xs" and "\<And>y. y \<in> set xs \<Longrightarrow> y \<noteq> x \<Longrightarrow> f y = []"
  shows "concat (map f xs) = f x"
proof -
  obtain us vs where xs: "xs = us @ x # vs" using assms(2) by (meson split_list)
  with assms(1) have "x \<notin> set us" "x \<notin> set vs" by auto
  then have uv: "concat (map f us) = []" "concat (map f vs) = []" using assms(3) xs by auto
  show ?thesis by (simp add: xs uv)
qed

lemma map_filter_concat: "List.map_filter f xs = concat (map (\<lambda>x. case f x of None \<Rightarrow> [] | Some y \<Rightarrow> [y]) xs)"
  by (induction xs) (auto simp: List.map_filter_simps split: option.splits)

lemma map_filter_eq: "(\<And>x. x \<in> set xs \<Longrightarrow> f x = g x) \<Longrightarrow> List.map_filter f xs = List.map_filter g xs"
  by (induction xs) (auto simp: List.map_filter_simps split: option.split)

lemma set_map_filter_iff: "y \<in> set (List.map_filter f xs) \<longleftrightarrow> (\<exists>x \<in> set xs. f x = Some y)"
  by (induction xs) (auto simp: List.map_filter_simps split: option.split)

lemma filter_singleE:
  assumes "filter P xs = [x]"
  obtains us vs where "xs = us @ x # vs" "filter P us = []" "filter P vs = []"
proof -
  from filter_eq_ConsD [OF assms] obtain us vs where "xs = us @ x # vs" "\<forall>u\<in>set us. \<not> P u" "P x" "[] = filter P vs"
    by blast
  then show thesis by (intro that [of us vs]) (simp_all add: filter_empty_conv)
qed

lemma filter_concat: "filter P (concat xss) = concat (map (filter P) xss)"
  by (induction xss) auto

lemma find_SomeD: "find P xs = Some x \<Longrightarrow> x \<in> set xs \<and> P x"
  by (auto simp: find_Some_iff)

lemma in_butlast_or_last: "x \<in> set xs \<Longrightarrow> x \<in> set (butlast xs) \<or> x = last xs"
  by (cases xs rule: rev_cases) auto

section \<open>Strings as bytes\<close>

definition byte_of_char :: "char \<Rightarrow> byte" where
  "byte_of_char c = of_char c"

definition char_of_byte :: "byte \<Rightarrow> char" where
  "char_of_byte b = char_of (unat b)"

abbreviation bytes_of_string :: "string \<Rightarrow> bytes" where
  "bytes_of_string s \<equiv> map byte_of_char s"

abbreviation string_of_bytes :: "bytes \<Rightarrow> string" where
  "string_of_bytes b \<equiv> map char_of_byte b"

lemma char_of_byte_of_char [simp]: "char_of_byte (byte_of_char c) = c"
proof -
  have "(of_char c :: byte) = word_of_nat (of_char c)"
    by (simp add: of_nat_of_char)
  then have "unat (of_char c :: byte) = take_bit 8 (of_char c)"
    by (simp add: unat_of_nat take_bit_eq_mod)
  also have "\<dots> = of_char c"
    by (simp add: take_bit_eq_mod)
  finally show ?thesis by (simp add: char_of_byte_def byte_of_char_def)
qed

lemma byte_of_char_of_byte [simp]: "byte_of_char (char_of_byte b) = b"
proof -
  have "(of_char (char_of (unat b)) :: nat) = unat b mod 256"
    by (rule of_char_of)
  also have "unat b mod 256 = unat b"
    using unsigned_less [of b, where ?'a = nat] by simp
  finally have "(of_nat (of_char (char_of (unat b))) :: byte) = of_nat (unat b)"
    by (rule arg_cong)
  then show ?thesis
    unfolding char_of_byte_def byte_of_char_def by (simp add: of_nat_of_char del: of_char_of)
qed

lemma char_byte_comp [simp]: "char_of_byte \<circ> byte_of_char = id" "byte_of_char \<circ> char_of_byte = id"
  by (simp_all add: fun_eq_iff)

lemma string_of_bytes_of_string [simp]: "string_of_bytes (bytes_of_string s) = s"
  by simp

lemma bytes_of_string_of_bytes [simp]: "bytes_of_string (string_of_bytes b) = b"
  by simp

end
