(* ===== verification/Gostd.thy ===== *)
theory Gostd
  imports Prelude
begin

text \<open>
  The parts of Go's standard library that the program computes with: binary search
  (\<open>sort.Search\<close>), decimal printing and parsing (\<open>strconv\<close>, \<open>fmt\<close>'s \<open>%020d\<close>), searching in
  strings (\<open>strings\<close>), CRC32-C (\<open>hash/crc32\<close>) and FNV-1a (\<open>hash/fnv\<close>). They are defined from
  their documented behaviour and come with the laws the components use: search finds the
  boundary of a monotone predicate, printing and parsing an integer are inverse, printed
  offsets are distinct.
\<close>

section \<open>Binary search\<close>

function search_loop :: "(nat \<Rightarrow> bool) \<Rightarrow> nat \<Rightarrow> nat \<Rightarrow> nat" where
  "search_loop f i j =
     (if i < j then
        let h = (i + j) div 2 in
        if \<not> f h then search_loop f (h + 1) j else search_loop f i h
      else i)"
  by pat_completeness auto
termination
  by (relation "measure (\<lambda>(f, i, j). j - i)") (auto simp: Let_def)

declare search_loop.simps [simp del]

definition go_search :: "nat \<Rightarrow> (nat \<Rightarrow> bool) \<Rightarrow> nat" where
  "go_search n f = search_loop f 0 n"

definition mono_pred :: "nat \<Rightarrow> (nat \<Rightarrow> bool) \<Rightarrow> bool" where
  "mono_pred n f \<longleftrightarrow> (\<forall>i j. i \<le> j \<longrightarrow> j < n \<longrightarrow> f i \<longrightarrow> f j)"

lemma mono_predD: "mono_pred n f \<Longrightarrow> f i \<Longrightarrow> i \<le> j \<Longrightarrow> j < n \<Longrightarrow> f j"
  by (simp add: mono_pred_def)

definition search_post :: "nat \<Rightarrow> (nat \<Rightarrow> bool) \<Rightarrow> nat \<Rightarrow> bool" where
  "search_post n f r \<longleftrightarrow> r \<le> n \<and> (\<forall>k<r. \<not> f k) \<and> (\<forall>k. r \<le> k \<longrightarrow> k < n \<longrightarrow> f k)"

lemma search_loop_spec:
  assumes "mono_pred n f" and "i \<le> j" and "j \<le> n"
    and "\<forall>k<i. \<not> f k" and "\<forall>k. j \<le> k \<longrightarrow> k < n \<longrightarrow> f k"
  shows "search_post n f (search_loop f i j)"
  using assms
proof (induction f i j rule: search_loop.induct)
  case (1 f i j)
  define h where "h = (i + j) div 2"
  show ?case
  proof (cases "i < j")
    case True
    then have h: "i \<le> h" "h < j" by (auto simp: h_def)
    have step: "search_loop f i j = (if f h then search_loop f i h else search_loop f (h + 1) j)"
      using True by (simp add: search_loop.simps [of f i j] h_def Let_def)
    show ?thesis
    proof (cases "f h")
      case fh: True
      have "\<forall>k. h \<le> k \<longrightarrow> k < n \<longrightarrow> f k"
        using mono_predD [OF "1.prems"(1) fh] by simp
      then have "search_post n f (search_loop f i h)"
        using "1.IH"(2) [OF True h_def] fh h "1.prems" by simp
      then show ?thesis using fh step by simp
    next
      case fh: False
      have "\<not> f k" if "k < h + 1" for k
        using mono_predD [OF "1.prems"(1), of k h] fh that h "1.prems"(3) by auto
      then have "search_post n f (search_loop f (h + 1) j)"
        using "1.IH"(1) [OF True h_def] fh h "1.prems" by simp
      then show ?thesis using fh step by simp
    qed
  next
    case False
    then have "search_loop f i j = i"
      by (simp add: search_loop.simps [of f i j])
    moreover have "i = j" using False "1.prems"(2) by simp
    ultimately have "search_loop f i j = i" "i = j" by auto
    then show ?thesis using "1.prems" by (simp add: search_post_def)
  qed
qed

lemma go_search_spec:
  assumes "mono_pred n f"
  shows "go_search n f \<le> n"
    and "k < go_search n f \<Longrightarrow> \<not> f k"
    and "go_search n f \<le> k \<Longrightarrow> k < n \<Longrightarrow> f k"
  using search_loop_spec [OF assms, of 0 n] by (auto simp: go_search_def search_post_def)

section \<open>Decimal numbers\<close>

definition digit_char :: "nat \<Rightarrow> char" where
  "digit_char d = char_of (48 + d)"

definition char_digit :: "char \<Rightarrow> nat option" where
  "char_digit c = (let n = (of_char c :: nat) in
     if 48 \<le> n \<and> n \<le> 57 then Some (n - 48) else None)"

fun show_nat :: "nat \<Rightarrow> string" where
  "show_nat n = (if n < 10 then [digit_char n] else show_nat (n div 10) @ [digit_char (n mod 10)])"

declare show_nat.simps [simp del]

text \<open>\<open>strconv.Itoa\<close> and \<open>strconv.FormatInt\<close> in base 10.\<close>

definition itoa :: "int \<Rightarrow> string" where
  "itoa x = (if x < 0 then ''-'' @ show_nat (nat (- x)) else show_nat (nat x))"

text \<open>\<open>fmt.Sprintf("%020d", x)\<close>: zero padding to width 20, the sign first.\<close>

definition fmt_020d :: "int \<Rightarrow> string" where
  "fmt_020d x =
     (let ds = show_nat (nat \<bar>x\<bar>) in
      if x < 0 then ''-'' @ replicate (19 - length ds) (CHR ''0'') @ ds
      else replicate (20 - length ds) (CHR ''0'') @ ds)"

fun parse_digits :: "nat \<Rightarrow> string \<Rightarrow> nat option" where
  "parse_digits acc [] = Some acc"
| "parse_digits acc (c # cs) =
     (case char_digit c of None \<Rightarrow> None | Some d \<Rightarrow> parse_digits (acc * 10 + d) cs)"

text \<open>\<open>strconv.ParseInt(s, 10, 64)\<close> and \<open>strconv.Atoi\<close>: an optional sign, at least one digit,
  in the range of a signed 64-bit integer; \<open>None\<close> is the error (syntax or range).\<close>

definition parse_int :: "string \<Rightarrow> int option" where
  "parse_int s =
     (let neg = (s \<noteq> [] \<and> hd s = CHR ''-'');
          body = (if s \<noteq> [] \<and> (hd s = CHR ''-'' \<or> hd s = CHR ''+'') then tl s else s)
      in if body = [] then None
         else case parse_digits 0 body of
           None \<Rightarrow> None
         | Some n \<Rightarrow>
             if neg then (if int n \<le> 2 ^ 63 then Some (- int n) else None)
             else (if int n < 2 ^ 63 then Some (int n) else None))"

lemma char_digit_digit_char [simp]: "d < 10 \<Longrightarrow> char_digit (digit_char d) = Some d"
  by (simp add: char_digit_def digit_char_def Let_def)

lemma char_digit_zero [simp]: "char_digit (CHR ''0'') = Some 0"
  by (simp add: char_digit_def)

lemma digit_char_not_sign [simp]:
  "d < 10 \<Longrightarrow> digit_char d \<noteq> CHR ''-''" "d < 10 \<Longrightarrow> digit_char d \<noteq> CHR ''+''"
proof -
  have "char_digit (CHR ''-'') = None" "char_digit (CHR ''+'') = None"
    by (simp_all add: char_digit_def)
  then show "d < 10 \<Longrightarrow> digit_char d \<noteq> CHR ''-''" "d < 10 \<Longrightarrow> digit_char d \<noteq> CHR ''+''"
    by (metis char_digit_digit_char option.distinct(1))+
qed

lemma parse_digits_append:
  "parse_digits acc (xs @ ys) =
     (case parse_digits acc xs of None \<Rightarrow> None | Some n \<Rightarrow> parse_digits n ys)"
  by (induction xs arbitrary: acc) (auto split: option.splits)

lemma parse_digits_zeros [simp]: "parse_digits 0 (replicate k (CHR ''0'') @ ys) = parse_digits 0 ys"
  by (induction k) auto

lemma parse_show_nat [simp]: "parse_digits 0 (show_nat n) = Some n"
proof (induction n rule: show_nat.induct)
  case (1 n)
  show ?case
    by (subst show_nat.simps) (use 1 in \<open>auto simp: parse_digits_append\<close>)
qed

lemma show_nat_digits: "c \<in> set (show_nat n) \<Longrightarrow> \<exists>d<10. c = digit_char d"
proof (induction n rule: show_nat.induct)
  case (1 n)
  have "\<exists>d<10. digit_char (n mod 10) = digit_char d"
    by (rule exI [of _ "n mod 10"]) simp
  with 1 show ?case
    by (subst (asm) show_nat.simps) (auto split: if_splits)
qed

lemma show_nat_no_sign [simp]: "CHR ''-'' \<notin> set (show_nat n)" "CHR ''+'' \<notin> set (show_nat n)"
  by (auto dest!: show_nat_digits) (metis digit_char_not_sign)+

lemma show_nat_nonempty [simp]: "show_nat n \<noteq> []"
  by (subst show_nat.simps) simp

lemma padded_show_nat:
  assumes "ds = replicate k (CHR ''0'') @ show_nat n"
  shows "ds \<noteq> []" "parse_digits 0 ds = Some n" "hd ds \<noteq> CHR ''-''" "hd ds \<noteq> CHR ''+''"
proof -
  show "ds \<noteq> []" "parse_digits 0 ds = Some n" using assms by auto
  have "CHR ''-'' \<notin> set ds" "CHR ''+'' \<notin> set ds" using assms by auto
  with \<open>ds \<noteq> []\<close> show "hd ds \<noteq> CHR ''-''" "hd ds \<noteq> CHR ''+''"
    by (metis list.set_sel(1))+
qed

lemma parse_int_padded:
  assumes "in_i64 x" and "ds = replicate k (CHR ''0'') @ show_nat (nat \<bar>x\<bar>)"
  shows "parse_int (if x < 0 then ''-'' @ ds else ds) = Some x"
  using padded_show_nat [OF assms(2)] assms(1)
  by (auto simp: parse_int_def Let_def in_i64_def)

lemma parse_int_fmt_020d: "in_i64 x \<Longrightarrow> parse_int (fmt_020d x) = Some x"
  using parse_int_padded [of x _ "20 - length (show_nat (nat \<bar>x\<bar>))"]
    parse_int_padded [of x _ "19 - length (show_nat (nat \<bar>x\<bar>))"]
  by (cases "x < 0") (simp_all add: fmt_020d_def Let_def)

lemma parse_int_itoa: "in_i64 x \<Longrightarrow> parse_int (itoa x) = Some x"
  using parse_int_padded [of x "show_nat (nat \<bar>x\<bar>)" 0]
  by (cases "x < 0") (simp_all add: itoa_def)

lemma fmt_020d_inj: "in_i64 x \<Longrightarrow> in_i64 y \<Longrightarrow> fmt_020d x = fmt_020d y \<Longrightarrow> x = y"
  by (metis option.inject parse_int_fmt_020d)

lemma itoa_inj: "in_i64 x \<Longrightarrow> in_i64 y \<Longrightarrow> itoa x = itoa y \<Longrightarrow> x = y"
  by (metis option.inject parse_int_itoa)

lemma itoa_no_minus: "0 \<le> x \<Longrightarrow> CHR ''-'' \<notin> set (itoa x)"
  by (simp add: itoa_def)

section \<open>Strings\<close>

definition has_prefix :: "string \<Rightarrow> string \<Rightarrow> bool" where
  "has_prefix s p \<longleftrightarrow> take (length p) s = p"

definition has_suffix :: "string \<Rightarrow> string \<Rightarrow> bool" where
  "has_suffix s p \<longleftrightarrow> length p \<le> length s \<and> drop (length s - length p) s = p"

definition trim_suffix :: "string \<Rightarrow> string \<Rightarrow> string" where
  "trim_suffix s p = (if has_suffix s p then take (length s - length p) s else s)"

lemma has_suffix_append [simp]: "has_suffix (s @ p) p"
  by (simp add: has_suffix_def)

lemma has_suffix_iff: "has_suffix s p \<longleftrightarrow> (\<exists>q. s = q @ p)"
  unfolding has_suffix_def by (metis append_take_drop_id has_suffix_append has_suffix_def)

lemma trim_suffix_append [simp]: "trim_suffix (s @ p) p = s"
  by (simp add: trim_suffix_def)

text \<open>\<open>strings.Index\<close> and \<open>strings.LastIndex\<close> of a one-byte separator; \<open>None\<close> is \<open>-1\<close>.\<close>

fun index_char :: "char \<Rightarrow> string \<Rightarrow> nat option" where
  "index_char c [] = None"
| "index_char c (x # xs) = (if x = c then Some 0 else map_option Suc (index_char c xs))"

fun last_index_char :: "char \<Rightarrow> string \<Rightarrow> nat option" where
  "last_index_char c [] = None"
| "last_index_char c (x # xs) =
     (case last_index_char c xs of
        Some i \<Rightarrow> Some (Suc i)
      | None \<Rightarrow> if x = c then Some 0 else None)"

lemma last_index_char_None [simp]: "last_index_char c xs = None \<longleftrightarrow> c \<notin> set xs"
  by (induction xs) (auto split: option.splits)

lemma last_index_char_split:
  "c \<notin> set ys \<Longrightarrow> last_index_char c (xs @ c # ys) = Some (length xs)"
  by (induction xs) (auto split: option.splits)

text \<open>\<open>strings.Split(s, sep)\<close> for a one-byte separator: never empty.\<close>

fun split_char :: "char \<Rightarrow> string \<Rightarrow> string list" where
  "split_char c [] = [[]]"
| "split_char c (x # xs) =
     (case split_char c xs of
        [] \<Rightarrow> [[x]]
      | p # ps \<Rightarrow> if x = c then [] # p # ps else (x # p) # ps)"

text \<open>\<open>strings.TrimSpace\<close> on ASCII text.\<close>

definition is_space :: "char \<Rightarrow> bool" where
  "is_space c \<longleftrightarrow> (of_char c :: nat) \<in> {9, 10, 11, 12, 13, 32}"

definition trim_space :: "string \<Rightarrow> string" where
  "trim_space s = rev (dropWhile is_space (rev (dropWhile is_space s)))"

section \<open>Checksums and hashes\<close>

unbundle bit_operations_syntax

text \<open>\<open>crc32.Checksum(data, Castagnoli)\<close>: the reflected CRC-32 with polynomial 0x82F63B78,
  initial value and final xor \<open>2 ^ 32 - 1\<close>; a \<open>uint32\<close> is an \<^typ>\<open>int\<close> below \<open>2 ^ 32\<close>.\<close>

definition crc_bit :: "int \<Rightarrow> int" where
  "crc_bit c = (if odd c then (c div 2) XOR 0x82F63B78 else c div 2)"

definition crc_byte :: "int \<Rightarrow> byte \<Rightarrow> int" where
  "crc_byte c b = (crc_bit ^^ 8) (c XOR uint b)"

definition crc32c :: "bytes \<Rightarrow> int" where
  "crc32c bs = foldl crc_byte 0xFFFFFFFF bs XOR 0xFFFFFFFF"

lemma crc_byte_unfold:
  "crc_byte c b = crc_bit (crc_bit (crc_bit (crc_bit (crc_bit (crc_bit (crc_bit (crc_bit
     (c XOR uint b))))))))"
  by (simp add: crc_byte_def numeral_eq_Suc)

text \<open>\<open>fnv.New32a\<close>: offset basis 2166136261, prime 16777619, multiplication modulo \<open>2 ^ 32\<close>.\<close>

definition fnv32a :: "bytes \<Rightarrow> int" where
  "fnv32a bs = foldl (\<lambda>h b. u32 ((h XOR uint b) * 16777619)) 2166136261 bs"

lemma fnv32a_range: "0 \<le> fnv32a bs \<and> fnv32a bs < 2 ^ 32"
  by (cases bs rule: rev_cases) (auto simp: fnv32a_def u32_def)

lemma xor_range:
  fixes x y :: int
  assumes "0 \<le> x" "x < 2 ^ n" "0 \<le> y" "y < 2 ^ n"
  shows "0 \<le> x XOR y \<and> x XOR y < 2 ^ n"
  using XOR_upper [of x n y] assms by simp

lemma crc_bit_range:
  assumes "0 \<le> c \<and> c < 2 ^ 32"
  shows "0 \<le> crc_bit c \<and> crc_bit c < 2 ^ 32"
proof -
  have "0 \<le> c div 2" "c div 2 < 2 ^ 32" using assms by auto
  then show ?thesis using xor_range [of "c div 2" 32 "0x82F63B78"] by (simp add: crc_bit_def)
qed

lemma crc_byte_range:
  assumes "0 \<le> c \<and> c < 2 ^ 32"
  shows "0 \<le> crc_byte c b \<and> crc_byte c b < 2 ^ 32"
proof -
  have "uint b < 2 ^ 32" using uint_lt2p [of b] by simp
  then have "0 \<le> c XOR uint b \<and> c XOR uint b < 2 ^ 32" using xor_range [of c 32 "uint b"] assms by simp
  then show ?thesis unfolding crc_byte_unfold by (intro crc_bit_range)
qed

lemma crc32c_range: "0 \<le> crc32c bs \<and> crc32c bs < 2 ^ 32"
proof -
  have "0 \<le> foldl crc_byte c bs \<and> foldl crc_byte c bs < 2 ^ 32" if "0 \<le> c \<and> c < 2 ^ 32" for c
    using that
  proof (induction bs arbitrary: c)
    case (Cons b bs)
    from Cons.IH [OF crc_byte_range [OF Cons.prems]] show ?case by simp
  qed simp
  from this [of "0xFFFFFFFF"] show ?thesis using xor_range [of "foldl crc_byte 0xFFFFFFFF bs" 32 "0xFFFFFFFF"]
    by (simp add: crc32c_def)
qed

text \<open>The published check values.\<close>

lemma crc32c_check: "crc32c (bytes_of_string ''123456789'') = 0xE3069283"
  by (simp add: crc32c_def crc_byte_unfold crc_bit_def byte_of_char_def)

lemma fnv32a_check: "fnv32a (bytes_of_string ''a'') = 0xE40C292C"
  by (simp add: fnv32a_def u32_def byte_of_char_def)

section \<open>Reading a stream\<close>

text \<open>\<open>io.ReadFull\<close> of \<open>n\<close> bytes from a stream that ends after the given bytes, with what is left of it.\<close>

definition read_full :: "nat \<Rightarrow> bytes \<Rightarrow> (goerror + bytes) \<times> bytes" where
  "read_full n stream =
     (if n \<le> length stream then (Inr (take n stream), drop n stream)
      else (Inl (if stream = [] then EOF else ErrUnexpectedEOF), []))"

lemma read_full_append [simp]: "n = length xs \<Longrightarrow> read_full n (xs @ ys) = (Inr xs, ys)"
  by (simp add: read_full_def)

lemma read_full_short: "length stream < n \<Longrightarrow> \<exists>e. read_full n stream = (Inl e, [])"
  by (simp add: read_full_def)

end
