(* ===== verification/Files.thy ===== *)
theory Files
  imports Gostd "HOL-Library.AList"
begin

text \<open>
  The part of package \<open>os\<close> the storage code uses: a directory is an association list from file
  names to contents, read and written at positions. Failures of the operating system itself
  (permissions, a full disk) are not modelled; reads past the end of a file and negative
  positions are errors as in Go.
\<close>

type_synonym dir = "(string \<times> bytes) list"

abbreviation fget :: "dir \<Rightarrow> string \<Rightarrow> bytes option" where
  "fget d name \<equiv> map_of d name"

abbreviation fput :: "dir \<Rightarrow> string \<Rightarrow> bytes \<Rightarrow> dir" where
  "fput d name c \<equiv> AList.update name c d"

abbreviation fdel :: "dir \<Rightarrow> string \<Rightarrow> dir" where
  "fdel d name \<equiv> AList.delete name d"

text \<open>The contents an open handle sees; a handle is only ever used while its file exists.\<close>

definition fcontent :: "dir \<Rightarrow> string \<Rightarrow> bytes" where
  "fcontent d name = (case fget d name of None \<Rightarrow> [] | Some c \<Rightarrow> c)"

text \<open>\<open>File.ReadAt\<close> with a buffer of \<open>n\<close> bytes: all of them or an error.\<close>

definition read_at :: "bytes \<Rightarrow> int \<Rightarrow> nat \<Rightarrow> goerror + bytes" where
  "read_at f p n =
     (if p < 0 then Inl ErrNegativeOffset
      else if n = 0 then Inr []
      else if nat p + n \<le> length f then Inr (take n (drop (nat p) f))
      else Inl EOF)"

text \<open>The contents after \<open>WriteAt\<close> at a position inside or past the end (the gap reads as zeros).\<close>

definition write_at :: "bytes \<Rightarrow> nat \<Rightarrow> bytes \<Rightarrow> bytes" where
  "write_at f p bs =
     (if bs = [] then f else take p (f @ replicate (p - length f) 0) @ bs @ drop (p + length bs) f)"

lemma fget_fput: "fget (fput d n c) n' = (if n' = n then Some c else fget d n')"
  by (simp add: update_conv')

lemma fget_fput_same [simp]: "fget (fput d n c) n = Some c"
  by (simp add: fget_fput)

lemma fget_fput_other [simp]: "n' \<noteq> n \<Longrightarrow> fget (fput d n c) n' = fget d n'"
  by (simp add: fget_fput)

lemma fget_fdel: "fget (fdel d n) n' = (if n' = n then None else fget d n')"
  by (simp add: delete_conv')

lemma fget_fdel_other [simp]: "n' \<noteq> n \<Longrightarrow> fget (fdel d n) n' = fget d n'"
  by (simp add: fget_fdel)

lemma fcontent_Some [simp]: "fget d n = Some c \<Longrightarrow> fcontent d n = c"
  by (simp add: fcontent_def)

lemma fcontent_fput: "fcontent (fput d n c) n' = (if n' = n then c else fcontent d n')"
  by (simp add: fcontent_def fget_fput)

lemma write_at_end [simp]: "write_at f (length f) bs = f @ bs"
  by (simp add: write_at_def)

lemma read_at_slice:
  assumes "p = int (length pre)" and "n \<le> length rest"
  shows "read_at (pre @ rest) p n = Inr (take n rest)"
  using assms by (auto simp: read_at_def)

lemma read_at_batch:
  assumes "p = int (length pre)" and "n = length b"
  shows "read_at (pre @ b @ post) p n = Inr b"
  using read_at_slice [OF assms(1), of n "b @ post"] assms(2) by simp

end
