(* ===== verification/Sparse_Index.thy ===== *)
theory Sparse_Index
  imports Gostd
begin

text \<open>
  \<open>internal/storage/index.go\<close>: the sparse index of a log segment, its on-disk form and the binary
  search over it. The search is proved equal to a linear reference on sorted indexes, and the
  on-disk form is decoded to what was encoded.
\<close>

record indexEntry =
  relOffset :: int
  position :: int

definition indexEntrySize :: nat where
  "indexEntrySize = 8"

definition encodeIndexEntry :: "indexEntry \<Rightarrow> bytes" where
  "encodeIndexEntry e = be_bytes 4 (relOffset e) @ be_bytes 4 (position e)"

definition decodeIndexEntries :: "bytes \<Rightarrow> indexEntry list" where
  "decodeIndexEntries b =
     map (\<lambda>i. let off = i * indexEntrySize in
            \<lparr>relOffset = i32 (be_uint (take 4 (drop off b))),
             position = i32 (be_uint (take 4 (drop (off + 4) b)))\<rparr>)
       [0 ..< length b div indexEntrySize]"

function floor_loop :: "indexEntry list \<Rightarrow> int \<Rightarrow> int \<Rightarrow> int \<Rightarrow> int \<Rightarrow> int" where
  "floor_loop index targetRel lo hi p =
     (if lo \<le> hi then
        let mid = (lo + hi) div 2 in
        if relOffset (index ! nat mid) \<le> targetRel
        then floor_loop index targetRel (mid + 1) hi (position (index ! nat mid))
        else floor_loop index targetRel lo (mid - 1) p
      else p)"
  by pat_completeness auto
termination
  by (relation "measure (\<lambda>(index, targetRel, lo, hi, p). nat (hi - lo + 1))") (auto simp: Let_def)

declare floor_loop.simps [simp del]

definition floorPosition :: "indexEntry list \<Rightarrow> int \<Rightarrow> int" where
  "floorPosition index targetRel = floor_loop index targetRel 0 (int (length index) - 1) 0"

section \<open>Encoding\<close>

definition entry_ok :: "indexEntry \<Rightarrow> bool" where
  "entry_ok e \<longleftrightarrow> in_i32 (relOffset e) \<and> in_i32 (position e)"

lemma length_encodeIndexEntry [simp]: "length (encodeIndexEntry e) = 8"
  by (simp add: encodeIndexEntry_def)

lemma length_encode_entries [simp]: "length (concat (map encodeIndexEntry es)) = 8 * length es"
  by (induction es) auto

lemma drop_encode_entries:
  "i < length es \<Longrightarrow> drop (8 * i) (concat (map encodeIndexEntry es) @ t) =
     encodeIndexEntry (es ! i) @ concat (map encodeIndexEntry (drop (Suc i) es)) @ t"
proof (induction i arbitrary: es)
  case 0
  then show ?case by (cases es) auto
next
  case (Suc i)
  then show ?case by (cases es) auto
qed

lemma decode_encode_entries:
  assumes "list_all entry_ok es" and "length t < indexEntrySize"
  shows "decodeIndexEntries (concat (map encodeIndexEntry es) @ t) = es"
proof (rule nth_equalityI)
  show len: "length (decodeIndexEntries (concat (map encodeIndexEntry es) @ t)) = length es"
    using assms(2) by (simp add: decodeIndexEntries_def indexEntrySize_def)
  fix i
  assume "i < length (decodeIndexEntries (concat (map encodeIndexEntry es) @ t))"
  with len have i: "i < length es" by simp
  let ?b = "concat (map encodeIndexEntry es) @ t"
  have d: "drop (i * 8) ?b = be_bytes 4 (relOffset (es ! i)) @ be_bytes 4 (position (es ! i))
      @ concat (map encodeIndexEntry (drop (Suc i) es)) @ t"
    using drop_encode_entries [OF i, of t] by (simp add: mult.commute encodeIndexEntry_def)
  have "drop (i * 8 + 4) ?b = drop 4 (drop (i * 8) ?b)"
    by (simp only: drop_drop add.commute)
  then have d4: "drop (i * 8 + 4) ?b = be_bytes 4 (position (es ! i))
      @ concat (map encodeIndexEntry (drop (Suc i) es)) @ t"
    unfolding d by simp
  from assms(1) i have "entry_ok (es ! i)" by (simp add: list_all_length)
  with i len show "decodeIndexEntries ?b ! i = es ! i"
    by (simp add: decodeIndexEntries_def indexEntrySize_def Let_def d d4 entry_ok_def i32_id
        del: drop_append)
qed

text \<open>Reading an index file back yields the entries that were written, and a torn last entry
  (fewer than 8 trailing bytes) is ignored.\<close>

theorem index_file_roundtrip:
  assumes "list_all entry_ok es" and "length t < indexEntrySize"
  shows "decodeIndexEntries (concat (map encodeIndexEntry es) @ t) = es"
  using assms by (rule decode_encode_entries)

theorem index_file_roundtrip_witness:
  "list_all entry_ok [\<lparr>relOffset = 0, position = 0\<rparr>, \<lparr>relOffset = 7, position = 4200\<rparr>]
   \<and> length ([1, 2, 3] :: bytes) < indexEntrySize
   \<and> decodeIndexEntries (concat (map encodeIndexEntry
       [\<lparr>relOffset = 0, position = 0\<rparr>, \<lparr>relOffset = 7, position = 4200\<rparr>]) @ [1, 2, 3]) =
     [\<lparr>relOffset = 0, position = 0\<rparr>, \<lparr>relOffset = 7, position = 4200\<rparr>]"
proof -
  have 1: "list_all entry_ok [\<lparr>relOffset = 0, position = 0\<rparr>, \<lparr>relOffset = 7, position = 4200\<rparr>]"
    by (simp add: entry_ok_def in_i32_def)
  have 2: "length ([1, 2, 3] :: bytes) < indexEntrySize" by (simp add: indexEntrySize_def)
  show ?thesis using 1 2 index_file_roundtrip [OF 1 2] by simp
qed

section \<open>Search\<close>

text \<open>The reference: the position of the last entry at or below the target, 0 if there is none.\<close>

definition floor_spec :: "indexEntry list \<Rightarrow> int \<Rightarrow> int" where
  "floor_spec index t =
     (case filter (\<lambda>e. relOffset e \<le> t) index of [] \<Rightarrow> 0 | es \<Rightarrow> position (last es))"

lemma floor_spec_prefix:
  assumes "k \<le> length index" and "\<forall>i<k. relOffset (index ! i) \<le> t"
    and "\<forall>i. k \<le> i \<longrightarrow> i < length index \<longrightarrow> t < relOffset (index ! i)"
  shows "floor_spec index t = (if k = 0 then 0 else position (index ! (k - 1)))"
proof -
  have "filter (\<lambda>e. relOffset e \<le> t) (take k index) = take k index"
    using assms(1,2) by (auto simp: filter_id_conv in_set_conv_nth)
  moreover have "filter (\<lambda>e. relOffset e \<le> t) (drop k index) = []"
    using assms(3) by (auto simp: filter_empty_conv in_set_conv_nth not_le)
  ultimately have "filter (\<lambda>e. relOffset e \<le> t) index = take k index"
    by (metis append_Nil2 append_take_drop_id filter_append)
  moreover have "last (take k index) = index ! (k - 1)" if "0 < k"
    using that assms(1) by (cases k) (auto simp: take_Suc_conv_app_nth)
  ultimately show ?thesis
    using assms(1) by (cases "take k index") (auto simp: floor_spec_def)
qed

lemma floor_loop_spec:
  assumes "sorted (map relOffset index)"
    and "0 \<le> lo" "lo \<le> hi + 1" "hi < int (length index)"
    and "\<forall>i < nat lo. relOffset (index ! i) \<le> t"
    and "\<forall>i. nat (hi + 1) \<le> i \<longrightarrow> i < length index \<longrightarrow> t < relOffset (index ! i)"
    and "p = (if lo = 0 then 0 else position (index ! nat (lo - 1)))"
  shows "floor_loop index t lo hi p = floor_spec index t"
  using assms
proof (induction index t lo hi p rule: floor_loop.induct)
  case (1 index t lo hi p)
  define mid where "mid = (lo + hi) div 2"
  show ?case
  proof (cases "lo \<le> hi")
    case True
    have mid: "lo \<le> mid" "mid \<le> hi" "0 \<le> mid" "mid < int (length index)"
      using True "1.prems" by (auto simp: mid_def)
    have ord: "relOffset (index ! i) \<le> relOffset (index ! j)" if "i \<le> j" "j < length index" for i j
      using sorted_nth_mono [OF "1.prems"(1), of i j] that by simp
    have step: "floor_loop index t lo hi p =
        (if relOffset (index ! nat mid) \<le> t
         then floor_loop index t (mid + 1) hi (position (index ! nat mid))
         else floor_loop index t lo (mid - 1) p)"
      using True by (simp add: floor_loop.simps [of index t lo hi p] mid_def Let_def)
    show ?thesis
    proof (cases "relOffset (index ! nat mid) \<le> t")
      case le: True
      have "\<forall>i < nat (mid + 1). relOffset (index ! i) \<le> t"
        using ord [of _ "nat mid"] le mid by (metis dual_order.trans int_nat_eq less_Suc_eq_le
            nat_less_iff Suc_nat_eq_nat_zadd1 add.commute)
      then have "floor_loop index t (mid + 1) hi (position (index ! nat mid)) = floor_spec index t"
        using "1.IH"(1) [OF True mid_def le] "1.prems" mid by simp
      with step le show ?thesis by simp
    next
      case gt: False
      have "\<forall>i. nat (mid - 1 + 1) \<le> i \<longrightarrow> i < length index \<longrightarrow> t < relOffset (index ! i)"
        using ord [of "nat mid"] gt by force
      then have "floor_loop index t lo (mid - 1) p = floor_spec index t"
        using "1.IH"(2) [OF True mid_def gt] "1.prems" mid by simp
      with step gt show ?thesis by simp
    qed
  next
    case False
    then have "floor_loop index t lo hi p = p" by (simp add: floor_loop.simps [of index t lo hi p])
    moreover have "floor_spec index t = (if nat lo = 0 then 0 else position (index ! (nat lo - 1)))"
      using "1.prems" False by (intro floor_spec_prefix) auto
    moreover have "nat (lo - 1) = nat lo - 1" "(nat lo = 0) = (lo = 0)"
      using "1.prems"(2) by auto
    ultimately show ?thesis using "1.prems"(7) by simp
  qed
qed

lemma floorPosition_eq: "sorted (map relOffset index) \<Longrightarrow> floorPosition index t = floor_spec index t"
  unfolding floorPosition_def by (rule floor_loop_spec) auto

text \<open>C26: on an index sorted by relative offset, the binary search \<open>floorPosition\<close> returns what a
  linear scan returns: the byte position of the last entry at or below the target, and 0 (the
  start of the segment) when there is none.\<close>

theorem floorPosition_correct:
  assumes "sorted (map relOffset index)"
  shows "floorPosition index targetRel = floor_spec index targetRel"
  using assms by (rule floorPosition_eq)

theorem floorPosition_correct_witness:
  "sorted (map relOffset [\<lparr>relOffset = 0, position = 0\<rparr>, \<lparr>relOffset = 7, position = 4200\<rparr>,
     \<lparr>relOffset = 12, position = 8300\<rparr>])
   \<and> floorPosition [\<lparr>relOffset = 0, position = 0\<rparr>, \<lparr>relOffset = 7, position = 4200\<rparr>,
       \<lparr>relOffset = 12, position = 8300\<rparr>] 9 = 4200"
proof -
  let ?ix = "[\<lparr>relOffset = 0, position = 0\<rparr>, \<lparr>relOffset = 7, position = 4200\<rparr>,
     \<lparr>relOffset = 12, position = 8300\<rparr>]"
  have s: "sorted (map relOffset ?ix)" by simp
  have "floor_spec ?ix 9 = 4200" by (simp add: floor_spec_def)
  with s floorPosition_correct [OF s, of 9] show ?thesis by simp
qed

end
