(* ===== verification/Record_Batch.thy ===== *)
theory Record_Batch
  imports Gostd
begin

text \<open>
  \<open>internal/record/batch.go\<close>: the fixed 61-byte header of a Kafka record batch (message format
  v2), the in-place patches the broker applies to it, and the walk over concatenated batches.
  Functions that index a slice return \<open>'a go\<close>: a slice that is too short is a panic. \<open>Iterate\<close>
  is a partial function: a callback that accepts empty batches can make it run forever.
\<close>

section \<open>The header\<close>

definition HeaderSize :: nat where "HeaderSize = 61"
definition offBaseOffset :: nat where "offBaseOffset = 0"
definition offBatchLength :: nat where "offBatchLength = 8"
definition offMagic :: nat where "offMagic = 16"
definition offCRC :: nat where "offCRC = 17"
definition offAttributes :: nat where "offAttributes = 21"
definition offLastOffsetDelta :: nat where "offLastOffsetDelta = 23"
definition offFirstTimestamp :: nat where "offFirstTimestamp = 27"
definition offMaxTimestamp :: nat where "offMaxTimestamp = 35"
definition offRecordCount :: nat where "offRecordCount = 57"

lemmas off_defs = HeaderSize_def offBaseOffset_def offBatchLength_def offMagic_def offCRC_def
  offAttributes_def offLastOffsetDelta_def offFirstTimestamp_def offMaxTimestamp_def
  offRecordCount_def

record BatchHeader =
  BaseOffset :: int
  BatchLength :: int
  LastOffsetDelta :: int
  FirstTimestamp :: int
  MaxTimestamp :: int
  RecordCount :: int
  Magic :: int

definition zero_header :: BatchHeader where
  "zero_header = \<lparr>BaseOffset = 0, BatchLength = 0, LastOffsetDelta = 0, FirstTimestamp = 0,
     MaxTimestamp = 0, RecordCount = 0, Magic = 0\<rparr>"

definition TotalSize :: "BatchHeader \<Rightarrow> int" where
  "TotalSize h = 12 + BatchLength h"

definition LastOffset :: "BatchHeader \<Rightarrow> int" where
  "LastOffset h = i64 (BaseOffset h + LastOffsetDelta h)"

definition uint_at :: "bytes \<Rightarrow> nat \<Rightarrow> nat \<Rightarrow> int" where
  "uint_at b off n = be_uint (take n (drop off b))"

definition ParseHeader :: "bytes \<Rightarrow> BatchHeader \<times> goerror option" where
  "ParseHeader b =
     (if length b < HeaderSize then (zero_header, Some ErrTooShort)
      else
        let h = \<lparr>BaseOffset = i64 (uint_at b offBaseOffset 8),
                 BatchLength = i32 (uint_at b offBatchLength 4),
                 LastOffsetDelta = i32 (uint_at b offLastOffsetDelta 4),
                 FirstTimestamp = i64 (uint_at b offFirstTimestamp 8),
                 MaxTimestamp = i64 (uint_at b offMaxTimestamp 8),
                 RecordCount = i32 (uint_at b offRecordCount 4),
                 Magic = i8 (uint_at b offMagic 1)\<rparr>
        in if Magic h \<noteq> 2 then (h, Some ErrBadMagic) else (h, None))"

definition SetBaseOffset :: "bytes \<Rightarrow> int \<Rightarrow> bytes go" where
  "SetBaseOffset b off =
     (if length b < offBaseOffset + 8 then Panic else Ret (put_at b offBaseOffset (be_bytes 8 off)))"

definition RecomputeCRC :: "bytes \<Rightarrow> bytes go" where
  "RecomputeCRC b =
     (if length b < offAttributes then Panic
      else Ret (put_at b offCRC (be_bytes 4 (crc32c (drop offAttributes b)))))"

section \<open>Walking a record set\<close>

text \<open>The callback carries the state its Go closure captures. \<open>None\<close> is non-termination.\<close>

partial_function (option) Iterate_loop ::
  "(bytes \<Rightarrow> 's \<Rightarrow> (goerror option \<times> 's) go) \<Rightarrow> bytes \<Rightarrow> nat \<Rightarrow> 's \<Rightarrow> (nat \<times> goerror option \<times> 's) go option"
where
  "Iterate_loop fn rset consumed s =
     (if consumed < length rset then
        (case ParseHeader (drop consumed rset) of
           (h, Some perr) \<Rightarrow> Some (Ret (consumed, Some perr, s))
         | (h, None) \<Rightarrow>
             if int consumed + TotalSize h > int (length rset) then
               Some (Ret (consumed, Some ErrTooShort, s))
             else if TotalSize h < 0 then Some Panic
             else
               (case fn (take (nat (TotalSize h)) (drop consumed rset)) s of
                  Panic \<Rightarrow> Some Panic
                | Ret (Some e, s') \<Rightarrow> Some (Ret (consumed, Some e, s'))
                | Ret (None, s') \<Rightarrow> Iterate_loop fn rset (consumed + nat (TotalSize h)) s'))
      else Some (Ret (consumed, None, s)))"

definition Iterate :: "bytes \<Rightarrow> (bytes \<Rightarrow> 's \<Rightarrow> (goerror option \<times> 's) go) \<Rightarrow> 's \<Rightarrow> (nat \<times> goerror option \<times> 's) go option"
where
  "Iterate rset fn s = Iterate_loop fn rset 0 s"

section \<open>Parsing and patching\<close>

abbreviation header :: "bytes \<Rightarrow> BatchHeader" where
  "header b \<equiv> fst (ParseHeader b)"

text \<open>A well-formed batch: a v2 header whose length field agrees with the slice.\<close>

definition wf_batch :: "bytes \<Rightarrow> bool" where
  "wf_batch b \<longleftrightarrow> HeaderSize \<le> length b \<and> length b < 2 ^ 31 \<and> snd (ParseHeader b) = None
     \<and> TotalSize (header b) = int (length b)"

lemma uint_at_append: "off + n \<le> length b \<Longrightarrow> uint_at (b @ rest) off n = uint_at b off n"
  by (simp add: uint_at_def)

lemma ParseHeader_append: "HeaderSize \<le> length b \<Longrightarrow> ParseHeader (b @ rest) = ParseHeader b"
  by (simp add: ParseHeader_def uint_at_append off_defs)

lemma ParseHeader_take:
  assumes "HeaderSize \<le> n" and "HeaderSize \<le> length b"
  shows "ParseHeader (take n b) = ParseHeader b"
proof -
  have "ParseHeader (take n b @ drop n b) = ParseHeader (take n b)"
    using assms by (intro ParseHeader_append) simp
  then show ?thesis by simp
qed

lemma ParseHeader_error: "snd (ParseHeader b) = None \<longleftrightarrow> HeaderSize \<le> length b \<and> Magic (header b) = 2"
  by (auto simp: ParseHeader_def Let_def zero_header_def)

lemma ParseHeader_short: "length b < HeaderSize \<Longrightarrow> ParseHeader b = (zero_header, Some ErrTooShort)"
  by (simp add: ParseHeader_def)

lemma ParseHeader_None_cases:
  assumes "ParseHeader b = (h, None)"
  shows "HeaderSize \<le> length b" "h = header b" "Magic h = 2"
  using assms ParseHeader_error [of b] by auto

lemma header_ranges:
  "in_i64 (BaseOffset (header b))" "in_i32 (BatchLength (header b))"
  "in_i32 (LastOffsetDelta (header b))" "in_i64 (MaxTimestamp (header b))"
  "in_i32 (RecordCount (header b))"
  by (auto simp: ParseHeader_def Let_def zero_header_def in_i64_def [of 0] in_i32_def [of 0])

lemma header_fields:
  assumes "HeaderSize \<le> length b"
  shows "BaseOffset (header b) = i64 (uint_at b offBaseOffset 8)"
    "BatchLength (header b) = i32 (uint_at b offBatchLength 4)"
    "LastOffsetDelta (header b) = i32 (uint_at b offLastOffsetDelta 4)"
    "FirstTimestamp (header b) = i64 (uint_at b offFirstTimestamp 8)"
    "MaxTimestamp (header b) = i64 (uint_at b offMaxTimestamp 8)"
    "RecordCount (header b) = i32 (uint_at b offRecordCount 4)"
    "Magic (header b) = i8 (uint_at b offMagic 1)"
  using assms by (simp_all add: ParseHeader_def Let_def)

lemma header_eqI:
  assumes "HeaderSize \<le> length b" "HeaderSize \<le> length b'"
    and "\<And>off n. off + n \<le> HeaderSize \<Longrightarrow> 8 \<le> off \<Longrightarrow> off + n \<le> 17 \<or> 21 \<le> off \<Longrightarrow> uint_at b' off n = uint_at b off n"
  shows "header b' = (header b)\<lparr>BaseOffset := i64 (uint_at b' 0 8)\<rparr>"
  using assms(1,2) by (simp add: ParseHeader_def Let_def assms(3) off_defs)

text \<open>What \<open>Append\<close> does to a batch before writing it.\<close>

definition patch :: "bytes \<Rightarrow> int \<Rightarrow> bytes go" where
  "patch b off = go_bind (SetBaseOffset b off) RecomputeCRC"

definition patched :: "bytes \<Rightarrow> int \<Rightarrow> bytes" where
  "patched b off = put_at (put_at b offBaseOffset (be_bytes 8 off)) offCRC
     (be_bytes 4 (crc32c (drop offAttributes b)))"

lemma patch_eq: "HeaderSize \<le> length b \<Longrightarrow> patch b off = Ret (patched b off)"
  by (simp add: patch_def patched_def SetBaseOffset_def RecomputeCRC_def off_defs drop_put_at)

lemma patch_short: "length b < offAttributes \<Longrightarrow> patch b off = Panic"
  by (simp add: patch_def SetBaseOffset_def RecomputeCRC_def off_defs)

lemma length_patched [simp]: "HeaderSize \<le> length b \<Longrightarrow> length (patched b off) = length b"
  by (simp add: patched_def off_defs)

lemma uint_at_patched:
  assumes "HeaderSize \<le> length b" and "8 \<le> o'" and "o' + n \<le> 17 \<or> 21 \<le> o'"
  shows "uint_at (patched b off) o' n = uint_at b o' n"
  using assms
  by (auto simp: uint_at_def patched_def off_defs slice_put_at_before slice_put_at_after)

lemma uint_at_patched_base:
  assumes "HeaderSize \<le> length b"
  shows "uint_at (patched b off) 0 8 = off mod 2 ^ 64"
proof -
  have "take 8 (drop 0 (patched b off)) = be_bytes 8 off"
    using assms slice_put_at_same [of 0 b "be_bytes 8 off"]
    by (simp add: patched_def off_defs)
  then show ?thesis by (simp add: uint_at_def)
qed

lemma header_patched:
  assumes "HeaderSize \<le> length b"
  shows "header (patched b off) = (header b)\<lparr>BaseOffset := i64 off\<rparr>"
proof -
  have "header (patched b off) = (header b)\<lparr>BaseOffset := i64 (uint_at (patched b off) 0 8)\<rparr>"
    using assms by (intro header_eqI) (simp_all add: uint_at_patched)
  then show ?thesis
    by (simp add: uint_at_patched_base [OF assms])
qed

lemma ParseHeader_patched:
  assumes "HeaderSize \<le> length b"
  shows "ParseHeader (patched b off) = ((header b)\<lparr>BaseOffset := i64 off\<rparr>, snd (ParseHeader b))"
proof (rule prod_eqI)
  show "fst (ParseHeader (patched b off)) = fst ((header b)\<lparr>BaseOffset := i64 off\<rparr>, snd (ParseHeader b))"
    by (simp add: header_patched [OF assms])
  show "snd (ParseHeader (patched b off)) = snd ((header b)\<lparr>BaseOffset := i64 off\<rparr>, snd (ParseHeader b))"
    using assms uint_at_patched [OF assms, of offMagic 1 off]
    by (simp add: ParseHeader_def Let_def off_defs)
qed

lemma wf_batch_patched: "wf_batch b \<Longrightarrow> wf_batch (patched b off)"
  by (simp add: wf_batch_def ParseHeader_patched TotalSize_def)

lemma wf_batch_ParseHeader: "wf_batch b \<Longrightarrow> ParseHeader (b @ rest) = (header b, None)"
  by (simp add: wf_batch_def ParseHeader_append prod_eq_iff)

lemma wf_batch_TotalSize: "wf_batch b \<Longrightarrow> TotalSize (header b) = int (length b)"
  by (simp add: wf_batch_def)

lemma wf_batch_size: "wf_batch b \<Longrightarrow> HeaderSize \<le> length b" "wf_batch b \<Longrightarrow> length b < 2 ^ 31"
  by (simp_all add: wf_batch_def)

section \<open>The walk over whole batches\<close>

text \<open>What \<open>Iterate\<close> computes on a record set of whole batches: the callback on each batch in turn,
  stopping at its first error.\<close>

fun iter_batches :: "(bytes \<Rightarrow> 's \<Rightarrow> (goerror option \<times> 's) go) \<Rightarrow> bytes list \<Rightarrow> goerror option \<Rightarrow> nat \<Rightarrow> 's
  \<Rightarrow> (nat \<times> goerror option \<times> 's) go" where
  "iter_batches fn [] e c s = Ret (c, e, s)"
| "iter_batches fn (b # bs) e c s =
     (case fn b s of
        Panic \<Rightarrow> Panic
      | Ret (Some e', s') \<Rightarrow> Ret (c, Some e', s')
      | Ret (None, s') \<Rightarrow> iter_batches fn bs e (c + length b) s')"

text \<open>A tail that is no whole batch, and the error \<open>Iterate\<close> reports for it.\<close>

definition torn :: "bytes \<Rightarrow> bool" where
  "torn t \<longleftrightarrow> t = [] \<or> snd (ParseHeader t) \<noteq> None \<or> TotalSize (header t) > int (length t)"

definition torn_error :: "bytes \<Rightarrow> goerror option" where
  "torn_error t = (if t = [] then None
     else if snd (ParseHeader t) \<noteq> None then snd (ParseHeader t) else Some ErrTooShort)"

lemma torn_short: "length t < HeaderSize \<Longrightarrow> torn t"
  by (simp add: torn_def ParseHeader_short)

lemma torn_prefix:
  assumes "wf_batch b" and "n < length b"
  shows "torn (take n b)"
proof (cases "HeaderSize \<le> n")
  case True
  with assms have "ParseHeader (take n b) = ParseHeader b"
    by (intro ParseHeader_take) (simp_all add: wf_batch_size)
  with assms show ?thesis by (simp add: torn_def wf_batch_TotalSize)
next
  case False
  then show ?thesis by (intro torn_short) simp
qed

lemma Iterate_loop_torn:
  assumes "torn t"
  shows "Iterate_loop fn (pre @ t) (length pre) s = Some (Ret (length pre, torn_error t, s))"
  using assms
  by (subst Iterate_loop.simps) (auto simp: torn_def torn_error_def split: prod.splits option.splits)

lemma Iterate_loop_batches:
  assumes "list_all wf_batch bs" and "torn t"
  shows "Iterate_loop fn (pre @ concat bs @ t) (length pre) s =
    Some (iter_batches fn bs (torn_error t) (length pre) s)"
  using assms(1)
proof (induction bs arbitrary: pre s)
  case Nil
  show ?case using Iterate_loop_torn [OF assms(2)] by simp
next
  case (Cons b bs)
  then have b: "wf_batch b" by simp
  have pos: "0 < length b" using wf_batch_size(1) [OF b] unfolding HeaderSize_def by linarith
  have IH: "Iterate_loop fn (pre @ b @ concat bs @ t) (length pre + length b) s' =
      Some (iter_batches fn bs (torn_error t) (length pre + length b) s')" for s'
    using Cons.IH [of "pre @ b" s'] Cons.prems by simp
  show ?case
    using pos IH
    by (subst Iterate_loop.simps)
      (auto simp: wf_batch_ParseHeader [OF b] wf_batch_TotalSize [OF b] split: go.splits option.splits)
qed

lemma Iterate_batches:
  assumes "list_all wf_batch bs" and "torn t"
  shows "Iterate (concat bs @ t) fn s = Some (iter_batches fn bs (torn_error t) 0 s)"
  using Iterate_loop_batches [OF assms, of fn "[]"] by (simp add: Iterate_def)

text \<open>C24: \<open>Iterate\<close> over a record set made of whole batches followed by a torn tail (nothing, a
  partial header, a bad magic byte or a truncated body) is exactly the callback folded over
  those batches in order: it stops at the callback's first error with the bytes consumed before
  that batch, and otherwise reports the tail's error after the last whole batch.\<close>

theorem Iterate_refines_fold:
  assumes "list_all wf_batch bs" and "torn t"
  shows "Iterate (concat bs @ t) fn s = Some (iter_batches fn bs (torn_error t) 0 s)"
  using assms by (rule Iterate_batches)

text \<open>A batch of the shortest possible shape, used by the witnesses.\<close>

definition mk_batch :: "int \<Rightarrow> int \<Rightarrow> int \<Rightarrow> int \<Rightarrow> bytes \<Rightarrow> bytes" where
  "mk_batch base delta maxts count payload =
     be_bytes 8 base @ be_bytes 4 (49 + int (length payload)) @ be_bytes 4 0 @ be_bytes 1 2 @ be_bytes 4 0
     @ be_bytes 2 0 @ be_bytes 4 delta @ be_bytes 8 0 @ be_bytes 8 maxts @ be_bytes 14 0
     @ be_bytes 4 count @ payload"

lemma length_mk_batch [simp]: "length (mk_batch base delta maxts count payload) = 61 + length payload"
  by (simp add: mk_batch_def)

lemma uint_at_skip: "length a \<le> off \<Longrightarrow> uint_at (a @ b) off n = uint_at b (off - length a) n"
  by (simp add: uint_at_def)

lemma uint_at_here: "length a = n \<Longrightarrow> uint_at (a @ b) 0 n = be_uint a"
  by (simp add: uint_at_def)

lemma ParseHeader_mk_batch:
  assumes "in_i64 base" "in_i32 delta" "in_i64 maxts" "in_i32 count" "length payload < 2 ^ 30"
  shows "ParseHeader (mk_batch base delta maxts count payload) =
    (\<lparr>BaseOffset = base, BatchLength = 49 + int (length payload), LastOffsetDelta = delta,
      FirstTimestamp = 0, MaxTimestamp = maxts, RecordCount = count, Magic = 2\<rparr>, None)"
proof -
  have "in_i32 (49 + int (length payload))" using assms(5) by (simp add: in_i32_def)
  with assms show ?thesis
    by (simp add: ParseHeader_def Let_def off_defs mk_batch_def uint_at_skip uint_at_here
        be_uint_be_bytes [where n = "Suc 0"] del: be_bytes.simps)
      (simp add: i64_id i32_id i8_def i64_def [of 0])
qed

lemma wf_mk_batch:
  assumes "in_i64 base" "in_i32 delta" "in_i64 maxts" "in_i32 count" "length payload < 2 ^ 30"
  shows "wf_batch (mk_batch base delta maxts count payload)"
  using assms by (simp add: wf_batch_def ParseHeader_mk_batch TotalSize_def HeaderSize_def)

theorem Iterate_refines_fold_witness:
  "list_all wf_batch [mk_batch 5 1 7 2 [1, 2], mk_batch 7 0 9 1 []] \<and> torn [9, 9]
   \<and> Iterate (concat [mk_batch 5 1 7 2 [1, 2], mk_batch 7 0 9 1 []] @ [9, 9])
        (\<lambda>b n. Ret (None, n + RecordCount (header b))) (0 :: int)
      = Some (Ret (124, Some ErrTooShort, 3))"
proof -
  have wf: "list_all wf_batch [mk_batch 5 1 7 2 [1, 2], mk_batch 7 0 9 1 []]"
    by (simp add: wf_mk_batch in_range_defs)
  have torn: "torn [9, 9]" by (rule torn_short) (simp add: HeaderSize_def)
  have "torn_error [9, 9] = Some ErrTooShort"
    by (simp add: torn_error_def ParseHeader_short HeaderSize_def)
  then show ?thesis
    using wf torn Iterate_refines_fold [OF wf torn, of "\<lambda>b n. Ret (None, n + RecordCount (header b))" "0 :: int"]
    by (simp add: ParseHeader_mk_batch in_range_defs)
qed

section \<open>Termination of the walk\<close>

text \<open>The callbacks of the program reject a slice that is shorter than a header: they parse it.\<close>

definition rejects_short :: "(bytes \<Rightarrow> 's \<Rightarrow> (goerror option \<times> 's) go) \<Rightarrow> bool" where
  "rejects_short fn \<longleftrightarrow> (\<forall>b s s'. length b < HeaderSize \<longrightarrow> fn b s \<noteq> Ret (None, s'))"

lemma Iterate_loop_terminates:
  assumes "rejects_short fn"
  shows "\<exists>r. Iterate_loop fn rset consumed s = Some r"
proof (induction "length rset - consumed" arbitrary: consumed s rule: less_induct)
  case less
  obtain h e where p: "ParseHeader (drop consumed rset) = (h, e)" by fastforce
  have go: "\<exists>r. Iterate_loop fn rset (consumed + nat (TotalSize h)) s' = Some r"
    if "consumed < length rset" and "int consumed + TotalSize h \<le> int (length rset)"
      and "0 \<le> TotalSize h" and "fn (take (nat (TotalSize h)) (drop consumed rset)) s = Ret (None, s')" for s'
  proof -
    have "HeaderSize \<le> nat (TotalSize h)"
      using that(4) assms unfolding rejects_short_def
      by (metis (no_types) length_take min.strict_coboundedI2 min.commute not_le)
    then have "length rset - (consumed + nat (TotalSize h)) < length rset - consumed"
      using that(1) by (simp add: HeaderSize_def)
    then show ?thesis by (rule less)
  qed
  show ?case
    by (subst Iterate_loop.simps)
      (auto simp: p not_less not_le split: option.splits go.splits prod.splits intro!: go)
qed

text \<open>C25: \<open>Iterate\<close> terminates on every input, however malformed, as long as its callback does not
  accept a slice shorter than a batch header (each callback of the program either returns an
  error or panics on one).\<close>

theorem Iterate_terminates:
  assumes "rejects_short fn"
  shows "\<exists>r. Iterate rset fn s = Some r"
  unfolding Iterate_def using assms by (rule Iterate_loop_terminates)

theorem Iterate_terminates_witness:
  "rejects_short (\<lambda>b (n :: nat). Ret (snd (ParseHeader b), Suc n))
   \<and> (\<exists>r. Iterate [1, 2, 3] (\<lambda>b n. Ret (snd (ParseHeader b), Suc n)) (0 :: nat) = Some r)"
proof -
  have r: "rejects_short (\<lambda>b (n :: nat). Ret (snd (ParseHeader b), Suc n))"
    by (simp add: rejects_short_def ParseHeader_short)
  with Iterate_terminates [OF r, of "[1, 2, 3]" 0] show ?thesis by simp
qed

text \<open>Without that restriction it may not: a length field of -12 describes an empty batch, and a
  callback that accepts it is called on the same position forever.\<close>

definition empty_size_batch :: bytes where
  "empty_size_batch = be_bytes 8 0 @ be_bytes 4 (-12) @ be_bytes 4 0 @ be_bytes 1 2 @ be_bytes 44 0"

lemma ParseHeader_empty_size:
  "\<exists>h. ParseHeader empty_size_batch = (h, None) \<and> TotalSize h = 0 \<and> length empty_size_batch = 61"
proof -
  have "uint_at empty_size_batch offBatchLength 4 = 2 ^ 32 - 12"
    "uint_at empty_size_batch offMagic 1 = 2" "length empty_size_batch = 61"
    by (simp_all add: empty_size_batch_def off_defs uint_at_skip uint_at_here
        be_uint_be_bytes [where n = "Suc 0"] del: be_bytes.simps)
  then show ?thesis
    by (simp add: ParseHeader_def Let_def HeaderSize_def TotalSize_def i32_def i8_def)
qed

lemma Iterate_loop_empty_size:
  assumes "Iterate_loop fn rset consumed s = Some r"
  shows "fn = (\<lambda>b s. Ret (None, s)) \<longrightarrow> rset = empty_size_batch \<longrightarrow> consumed = 0 \<longrightarrow> False"
proof (rule Iterate_loop.raw_induct [OF _ assms, where
    P = "\<lambda>fn rset consumed s r. fn = (\<lambda>b s. Ret (None, s)) \<longrightarrow> rset = empty_size_batch \<longrightarrow> consumed = 0 \<longrightarrow> False"])
  fix loop :: "(bytes \<Rightarrow> 's \<Rightarrow> (goerror option \<times> 's) go) \<Rightarrow> bytes \<Rightarrow> nat \<Rightarrow> 's \<Rightarrow> (nat \<times> goerror option \<times> 's) go option"
  fix fn rset consumed s r
  assume IH: "\<And>fn rset consumed s r. loop fn rset consumed s = Some r \<Longrightarrow>
      fn = (\<lambda>b s. Ret (None, s)) \<longrightarrow> rset = empty_size_batch \<longrightarrow> consumed = 0 \<longrightarrow> False"
    and eq: "(if consumed < length rset then
        (case ParseHeader (drop consumed rset) of
           (h, None) \<Rightarrow>
             if int (length rset) < int consumed + TotalSize h then
               Some (Ret (consumed, Some ErrTooShort, s))
             else if TotalSize h < 0 then Some Panic
             else
               (case fn (take (nat (TotalSize h)) (drop consumed rset)) s of
                  Ret (None, s') \<Rightarrow> loop fn rset (consumed + nat (TotalSize h)) s'
                | Ret (Some e, s') \<Rightarrow> Some (Ret (consumed, Some e, s'))
                | Panic \<Rightarrow> Some Panic)
         | (h, Some perr) \<Rightarrow> Some (Ret (consumed, Some perr, s)))
      else Some (Ret (consumed, None, s))) = Some r"
  show "fn = (\<lambda>b s. Ret (None, s)) \<longrightarrow> rset = empty_size_batch \<longrightarrow> consumed = 0 \<longrightarrow> False"
  proof (intro impI)
    assume f: "fn = (\<lambda>b s. Ret (None, s))" and rs: "rset = empty_size_batch" and c: "consumed = 0"
    obtain h where h: "ParseHeader empty_size_batch = (h, None)" "TotalSize h = 0"
      "length empty_size_batch = 61"
      using ParseHeader_empty_size by blast
    have "loop fn rset 0 s = Some r" using eq unfolding f rs c by (simp add: h)
    then show False using IH f rs by blast
  qed
qed

lemma Iterate_empty_size_diverges: "Iterate empty_size_batch (\<lambda>b s. Ret (None, s)) s = None"
  using Iterate_loop_empty_size [of "\<lambda>b s. Ret (None, s)" empty_size_batch 0 s]
  by (cases "Iterate empty_size_batch (\<lambda>b s. Ret (None, s)) s") (auto simp: Iterate_def)

section \<open>Patching\<close>

text \<open>The checksum a batch carries, and whether it is right.\<close>

definition crc_field :: "bytes \<Rightarrow> int" where
  "crc_field b = uint_at b offCRC 4"

definition crc_ok :: "bytes \<Rightarrow> bool" where
  "crc_ok b \<longleftrightarrow> crc_field b = crc32c (drop offAttributes b) mod 2 ^ 32"

text \<open>On any batch that holds at least a header, assigning a base offset and recomputing the
  checksum (as \<open>Append\<close> does) never panics, keeps the length and every byte from the attributes
  on, yields a batch whose header is the old one with the new base offset, and leaves a correct
  checksum.\<close>

theorem patch_batch_correct:
  assumes "HeaderSize \<le> length b" and "in_i64 off"
  shows "\<exists>b'. go_bind (SetBaseOffset b off) RecomputeCRC = Ret b' \<and> length b' = length b
    \<and> ParseHeader b' = ((header b)\<lparr>BaseOffset := off\<rparr>, snd (ParseHeader b))
    \<and> drop offAttributes b' = drop offAttributes b \<and> crc_ok b'"
proof (intro exI conjI)
  have len: "21 \<le> length b" using assms(1) by (simp add: HeaderSize_def)
  show "go_bind (SetBaseOffset b off) RecomputeCRC = Ret (patched b off)"
    using patch_eq [OF assms(1)] by (simp add: patch_def)
  show "length (patched b off) = length b" using assms(1) by simp
  show "ParseHeader (patched b off) = ((header b)\<lparr>BaseOffset := off\<rparr>, snd (ParseHeader b))"
    using ParseHeader_patched [OF assms(1)] assms(2) by (simp add: i64_id)
  show body: "drop offAttributes (patched b off) = drop offAttributes b"
    using len by (simp add: patched_def off_defs drop_put_at)
  have "take 4 (drop 17 (patched b off)) = be_bytes 4 (crc32c (drop offAttributes b))"
    using len slice_put_at_same [of 17 "put_at b 0 (be_bytes 8 off)" "be_bytes 4 (crc32c (drop offAttributes b))"]
    by (simp add: patched_def off_defs)
  then show "crc_ok (patched b off)"
    by (simp add: crc_ok_def crc_field_def uint_at_def body offCRC_def)
qed

theorem patch_batch_correct_witness:
  "HeaderSize \<le> length (mk_batch 0 1 7 2 [1]) \<and> in_i64 40
   \<and> (\<exists>b'. go_bind (SetBaseOffset (mk_batch 0 1 7 2 [1]) 40) RecomputeCRC = Ret b' \<and> length b' = 62
      \<and> BaseOffset (header b') = 40 \<and> crc_ok b')"
proof -
  have 1: "HeaderSize \<le> length (mk_batch 0 1 7 2 [1])" by (simp add: HeaderSize_def)
  have 2: "in_i64 40" by (simp add: in_i64_def)
  from patch_batch_correct [OF 1 2] show ?thesis
    using 1 2 by auto
qed

text \<open>The base offset lies outside the checksummed bytes: assigning it keeps a correct checksum
  correct, and recomputing a correct checksum changes nothing.\<close>

lemma crc_ok_SetBaseOffset:
  "HeaderSize \<le> length b \<Longrightarrow> SetBaseOffset b off = Ret b' \<Longrightarrow> crc_ok b' = crc_ok b"
  by (auto simp: SetBaseOffset_def crc_ok_def crc_field_def uint_at_def off_defs drop_put_at
      split: if_splits)

lemma RecomputeCRC_id: "HeaderSize \<le> length b \<Longrightarrow> crc_ok b \<Longrightarrow> RecomputeCRC b = Ret b"
proof -
  assume len: "HeaderSize \<le> length b" and ok: "crc_ok b"
  let ?c = "take 4 (drop 17 b)"
  have "length ?c = 4" using len by (simp add: HeaderSize_def)
  then have "?c = be_bytes 4 (be_uint ?c)" using be_bytes_be_uint [of ?c] by simp
  also have "be_uint ?c = crc32c (drop offAttributes b) mod 256 ^ 4"
    using ok by (simp add: crc_ok_def crc_field_def uint_at_def offCRC_def)
  finally have "be_bytes 4 (crc32c (drop offAttributes b)) = ?c"
    by (simp only: be_bytes_mod)
  moreover have "put_at b 17 ?c = b"
  proof -
    have "put_at b 17 ?c = take 17 b @ take 4 (drop 17 b) @ drop 4 (drop 17 b)"
      using len by (simp add: put_at_def HeaderSize_def)
    then show ?thesis by (simp only: append_take_drop_id)
  qed
  ultimately show ?thesis using len by (simp add: RecomputeCRC_def off_defs)
qed

end
