(* ===== verification/Segment.thy ===== *)
theory Segment
  imports Files Sparse_Index Record_Batch "HOL-Library.Sublist"
begin

text \<open>
  \<open>internal/storage/segment.go\<close>: one segment of a partition log, a \<open>.log\<close> file of record batches
  and its sparse \<open>.index\<close>. The record holds what the Go struct holds; its two file handles are
  the names \<open>logPath\<close> and \<open>indexPath\<close> of its base offset in the partition's directory, and
  \<open>idxOff\<close> is the write position of the index handle.
\<close>

record segment =
  baseOffset :: int
  idxOff :: nat
  logSize :: int
  index :: "indexEntry list"
  bytesSinceIdx :: int
  indexInterval :: int

definition segmentName :: "int \<Rightarrow> string" where
  "segmentName base = fmt_020d base"

definition logPath :: "int \<Rightarrow> string" where
  "logPath base = segmentName base @ ''.log''"

definition indexPath :: "int \<Rightarrow> string" where
  "indexPath base = segmentName base @ ''.index''"

definition createSegment :: "dir \<Rightarrow> int \<Rightarrow> int \<Rightarrow> dir \<times> segment" where
  "createSegment d base interval =
     (fput (fput d (logPath base) []) (indexPath base) [],
      \<lparr>baseOffset = base, idxOff = 0, logSize = 0, index = [], bytesSinceIdx = 0, indexInterval = interval\<rparr>)"

definition openSegment :: "dir \<Rightarrow> int \<Rightarrow> int \<Rightarrow> goerror + (dir \<times> segment)" where
  "openSegment d base interval =
     (case fget d (logPath base) of
        None \<Rightarrow> Inl ErrNotExist
      | Some lf \<Rightarrow>
          let d' = (case fget d (indexPath base) of None \<Rightarrow> fput d (indexPath base) [] | Some _ \<Rightarrow> d)
          in Inr (d', \<lparr>baseOffset = base, idxOff = 0, logSize = i32 (int (length lf)),
                       index = decodeIndexEntries (fcontent d' (indexPath base)),
                       bytesSinceIdx = 0, indexInterval = interval\<rparr>))"

definition append_idx :: "dir \<Rightarrow> segment \<Rightarrow> indexEntry \<Rightarrow> dir \<times> segment" where
  "append_idx d s e =
     (let f = indexPath (baseOffset s) in
      (fput d f (write_at (fcontent d f) (idxOff s) (encodeIndexEntry e)),
       s\<lparr>idxOff := idxOff s + indexEntrySize, index := index s @ [e], bytesSinceIdx := 0\<rparr>))"

definition seg_append :: "dir \<Rightarrow> segment \<Rightarrow> bytes \<Rightarrow> int \<Rightarrow> goerror option \<times> dir \<times> segment" where
  "seg_append d s batch base =
     (let p = logSize s;
          (d1, s1) =
            (if length (index s) = 0 \<or> bytesSinceIdx s \<ge> indexInterval s
             then append_idx d s \<lparr>relOffset = i32 (base - baseOffset s), position = p\<rparr>
             else (d, s))
      in if p < 0 then (Some ErrNegativeOffset, d1, s1)
         else
           let f = logPath (baseOffset s1) in
           (None, fput d1 f (write_at (fcontent d1 f) (nat p) batch),
            s1\<lparr>logSize := i32 (logSize s1 + i32 (int (length batch))),
               bytesSinceIdx := i32 (bytesSinceIdx s1 + i32 (int (length batch)))\<rparr>))"

text \<open>The loop of \<open>readBatchesFrom\<close>. \<open>make\<close> with a negative length panics; \<open>None\<close> is
  non-termination, which a header of total size 0 causes.\<close>

partial_function (option) read_loop ::
  "bytes \<Rightarrow> int \<Rightarrow> int \<Rightarrow> int \<Rightarrow> int \<Rightarrow> bytes \<Rightarrow> (bytes \<times> goerror option) go option" where
  "read_loop f lsize wantOffset maxBytes p out =
     (if p < lsize then
        (case read_at f p HeaderSize of
           Inl e \<Rightarrow> Some (Ret (out, Some e))
         | Inr hdr \<Rightarrow>
             (case ParseHeader hdr of
                (h, Some e) \<Rightarrow> Some (Ret (out, Some e))
              | (h, None) \<Rightarrow>
                  let total = i32 (TotalSize h) in
                  if LastOffset h < wantOffset then
                    read_loop f lsize wantOffset maxBytes (i32 (p + total)) out
                  else if length out > 0 \<and> i32 (i32 (int (length out)) + total) > maxBytes then
                    Some (Ret (out, None))
                  else if total < 0 then Some Panic
                  else
                    (case read_at f p (nat total) of
                       Inl e \<Rightarrow> Some (Ret (out, Some e))
                     | Inr full \<Rightarrow>
                         if i32 (int (length (out @ full))) \<ge> maxBytes then Some (Ret (out @ full, None))
                         else read_loop f lsize wantOffset maxBytes (i32 (p + total)) (out @ full))))
      else Some (Ret (out, None)))"

definition readBatchesFrom :: "dir \<Rightarrow> segment \<Rightarrow> int \<Rightarrow> int \<Rightarrow> (bytes \<times> goerror option) go option" where
  "readBatchesFrom d s wantOffset maxBytes =
     read_loop (fcontent d (logPath (baseOffset s))) (logSize s) wantOffset maxBytes
       (floorPosition (index s) (i32 (wantOffset - baseOffset s))) []"

section \<open>File names\<close>

lemma logPath_inj: "in_i64 a \<Longrightarrow> in_i64 b \<Longrightarrow> logPath a = logPath b \<longleftrightarrow> a = b"
  using fmt_020d_inj by (auto simp: logPath_def segmentName_def)

lemma indexPath_inj: "in_i64 a \<Longrightarrow> in_i64 b \<Longrightarrow> indexPath a = indexPath b \<longleftrightarrow> a = b"
  using fmt_020d_inj by (auto simp: indexPath_def segmentName_def)

lemma logPath_not_indexPath [simp]: "logPath a \<noteq> indexPath b" "indexPath b \<noteq> logPath a"
proof -
  have "last (logPath a) = CHR ''g''" "last (indexPath b) = CHR ''x''"
    by (simp_all add: logPath_def indexPath_def)
  then show "logPath a \<noteq> indexPath b" "indexPath b \<noteq> logPath a" by auto
qed

section \<open>Batches of a segment\<close>

text \<open>The number of offsets a batch covers; a batch whose record count agrees with it; and a run of
  batches that covers the offsets from \<open>o\<close> to \<open>n\<close> without gaps.\<close>

definition span :: "bytes \<Rightarrow> int" where
  "span b = LastOffsetDelta (header b) + 1"

definition wf_records :: "bytes \<Rightarrow> bool" where
  "wf_records b \<longleftrightarrow> wf_batch b \<and> 1 \<le> RecordCount (header b) \<and> RecordCount (header b) = span b"

fun batch_run :: "int \<Rightarrow> bytes list \<Rightarrow> int \<Rightarrow> bool" where
  "batch_run o' [] n \<longleftrightarrow> n = o'"
| "batch_run o' (b # bs) n \<longleftrightarrow> wf_records b \<and> BaseOffset (header b) = o' \<and> batch_run (o' + span b) bs n"

lemma wf_records_batch [simp]: "wf_records b \<Longrightarrow> wf_batch b"
  by (simp add: wf_records_def)

lemma span_pos: "wf_records b \<Longrightarrow> 0 < span b"
  by (simp add: wf_records_def)

lemma batch_run_wf: "batch_run o' bs n \<Longrightarrow> list_all wf_batch bs"
  by (induction bs arbitrary: o') auto

lemma batch_run_le: "batch_run o' bs n \<Longrightarrow> o' \<le> n"
  by (induction bs arbitrary: o') (use span_pos in force)+

lemma batch_run_less: "batch_run o' bs n \<Longrightarrow> bs \<noteq> [] \<Longrightarrow> o' < n"
proof (cases bs)
  case (Cons b bs')
  assume "batch_run o' bs n"
  with Cons show ?thesis using span_pos [of b] batch_run_le [of "o' + span b" bs' n] by simp
qed simp

lemma batch_run_append:
  "batch_run o' (bs @ cs) n \<longleftrightarrow> (\<exists>m. batch_run o' bs m \<and> batch_run m cs n)"
  by (induction bs arbitrary: o') auto

lemma batch_run_sum: "batch_run o' bs n \<Longrightarrow> n = o' + (\<Sum>b\<leftarrow>bs. span b)"
proof (induction bs arbitrary: o')
  case (Cons b bs)
  from Cons.IH [of "o' + span b"] Cons.prems show ?case by simp
qed simp

lemma batch_run_start: "batch_run o1 bs n \<Longrightarrow> batch_run o2 bs n \<Longrightarrow> o1 = o2"
  using batch_run_sum [of o1 bs n] batch_run_sum [of o2 bs n] by simp

lemma LastOffset_run:
  assumes "wf_records b" and "BaseOffset (header b) = o'" and "0 \<le> o'" and "o' + span b < 2 ^ 63"
  shows "LastOffset (header b) = o' + span b - 1"
  using assms span_pos [of b] by (simp add: LastOffset_def span_def i64_id in_i64_def)

lemma batch_run_LastOffset:
  assumes "batch_run o' bs n" and "0 \<le> o'" and "n < 2 ^ 63" and "b \<in> set bs"
  shows "o' \<le> LastOffset (header b) \<and> LastOffset (header b) < n
    \<and> LastOffset (header b) = BaseOffset (header b) + span b - 1"
  using assms
proof (induction bs arbitrary: o')
  case (Cons c bs)
  from Cons.prems have c: "wf_records c" "BaseOffset (header c) = o'"
    and run: "batch_run (o' + span c) bs n" by auto
  have "o' + span c \<le> n" using run by (rule batch_run_le)
  with c Cons.prems have l: "LastOffset (header c) = o' + span c - 1"
    by (intro LastOffset_run) auto
  show ?case
  proof (cases "b = c")
    case True
    with l c span_pos [OF c(1)] \<open>o' + span c \<le> n\<close> show ?thesis by simp
  next
    case False
    with Cons.prems Cons.IH [OF run] span_pos [OF c(1)] show ?thesis by simp
  qed
qed simp

text \<open>Splitting the contents of a log file into its whole batches.\<close>

function split_batches :: "bytes \<Rightarrow> bytes list" where
  "split_batches f =
     (if snd (ParseHeader f) = None \<and> int HeaderSize \<le> TotalSize (header f)
         \<and> TotalSize (header f) \<le> int (length f)
      then take (nat (TotalSize (header f))) f # split_batches (drop (nat (TotalSize (header f))) f)
      else [])"
  by pat_completeness auto
termination
  by (relation "measure length") (auto simp: HeaderSize_def)

declare split_batches.simps [simp del]

lemma split_batches_torn: "torn t \<Longrightarrow> split_batches t = []"
  by (subst split_batches.simps) (auto simp: torn_def ParseHeader_def HeaderSize_def)

lemma split_batches_Cons: "wf_batch b \<Longrightarrow> split_batches (b @ rest) = b # split_batches rest"
  using wf_batch_size(1) [of b]
  by (subst split_batches.simps) (simp add: wf_batch_ParseHeader wf_batch_TotalSize)

lemma split_concat_torn: "list_all wf_batch bs \<Longrightarrow> torn t \<Longrightarrow> split_batches (concat bs @ t) = bs"
  by (induction bs) (simp_all add: split_batches_Cons split_batches_torn)

lemma split_concat [simp]: "list_all wf_batch bs \<Longrightarrow> split_batches (concat bs) = bs"
  using split_concat_torn [of bs "[]"] by (simp add: torn_def)

section \<open>Reading\<close>

text \<open>What the read loop collects from a run of batches, \<open>n\<close> bytes having been collected before.\<close>

fun collect :: "int \<Rightarrow> int \<Rightarrow> nat \<Rightarrow> bytes list \<Rightarrow> bytes list" where
  "collect want maxb n [] = []"
| "collect want maxb n (b # bs) =
     (if LastOffset (header b) < want then collect want maxb n bs
      else if 0 < n \<and> int (n + length b) > maxb then []
      else if int (n + length b) \<ge> maxb then [b]
      else b # collect want maxb (n + length b) bs)"

lemma read_loop_step:
  assumes b: "wf_batch b" and f: "f = pre @ b @ post" and p: "p = int (length pre)"
    and lsize: "int (length (pre @ b)) \<le> lsize" "lsize < 2 ^ 31" and out: "length out \<le> length pre"
  shows "read_loop f lsize want maxb p out =
    (if LastOffset (header b) < want then read_loop f lsize want maxb (p + int (length b)) out
     else if 0 < length out \<and> int (length out + length b) > maxb then Some (Ret (out, None))
     else if int (length out + length b) \<ge> maxb then Some (Ret (out @ b, None))
     else read_loop f lsize want maxb (p + int (length b)) (out @ b))"
proof -
  have len: "HeaderSize \<le> length b" using b by (rule wf_batch_size)
  have "read_at f p HeaderSize = Inr (take HeaderSize b)"
    using len read_at_slice [OF p, of HeaderSize "b @ post"] by (simp add: f)
  moreover have "ParseHeader (take HeaderSize b) = (header b, None)"
    using b len wf_batch_ParseHeader [OF b, of "[]"] by (simp add: ParseHeader_take)
  moreover have "i32 (TotalSize (header b)) = int (length b)"
    "i32 (p + int (length b)) = p + int (length b)"
    "i32 (int (length out)) = int (length out)" "i32 (int (length b)) = int (length b)"
    "i32 (int (length out) + int (length b)) = int (length out) + int (length b)"
    using lsize out b p by (simp_all add: i32_id in_i32_def wf_batch_TotalSize)
  moreover have "read_at f p (length b) = Inr b"
    using read_at_batch [OF p refl, of b post] by (simp add: f)
  moreover have "p < lsize" using len lsize p by (simp add: HeaderSize_def)
  ultimately show ?thesis
    by (subst read_loop.simps) (simp add: Let_def)
qed

lemma read_loop_collect:
  assumes "list_all wf_batch bs" and "f = pre @ concat bs" and "p = int (length pre)"
    and "lsize = int (length f)" and "lsize < 2 ^ 31" and "length out \<le> length pre"
  shows "read_loop f lsize want maxb p out =
    Some (Ret (out @ concat (collect want maxb (length out) bs), None))"
  using assms
proof (induction bs arbitrary: pre p out)
  case Nil
  then show ?case by (subst read_loop.simps) simp
next
  case (Cons b bs)
  have b: "wf_batch b" and f: "f = pre @ b @ concat bs" using Cons.prems by auto
  have IH: "read_loop f lsize want maxb (p + int (length b)) o' =
      Some (Ret (o' @ concat (collect want maxb (length o') bs), None))"
    if "length o' \<le> length (pre @ b)" for o'
    using Cons.prems that by (intro Cons.IH [of "pre @ b"]) auto
  have "read_loop f lsize want maxb p out =
      (if LastOffset (header b) < want then read_loop f lsize want maxb (p + int (length b)) out
       else if 0 < length out \<and> int (length out + length b) > maxb then Some (Ret (out, None))
       else if int (length out + length b) \<ge> maxb then Some (Ret (out @ b, None))
       else read_loop f lsize want maxb (p + int (length b)) (out @ b))"
    using Cons.prems f by (intro read_loop_step [OF b f]) auto
  with IH [of out] IH [of "out @ b"] Cons.prems(6) show ?case by (cases "out = []") auto
qed

lemma collect_skip:
  "\<forall>b \<in> set pre. LastOffset (header b) < want \<Longrightarrow> collect want maxb n (pre @ bs) = collect want maxb n bs"
  by (induction pre) auto

lemma collect_prefix:
  assumes "\<forall>b \<in> set bs. want \<le> LastOffset (header b)"
  shows "prefix (collect want maxb n bs) bs"
  using assms by (induction bs arbitrary: n) auto

lemma collect_bound:
  assumes "0 < n" and "\<forall>b \<in> set bs. want \<le> LastOffset (header b)" and "collect want maxb n bs \<noteq> []"
  shows "int (n + length (concat (collect want maxb n bs))) \<le> maxb"
  using assms
proof (induction bs arbitrary: n)
  case (Cons b bs)
  then show ?case
    using Cons.IH [of "n + length b"]
    by (cases "collect want maxb (n + length b) bs = []") (auto simp: add.assoc split: if_splits)
qed simp

text \<open>The batches a read returns: a contiguous run of the log that starts with the batch holding
  the wanted offset and has more than one batch only within the byte limit.\<close>

definition read_post :: "bytes list \<Rightarrow> int \<Rightarrow> int \<Rightarrow> bytes \<Rightarrow> bool" where
  "read_post bs want maxb out \<longleftrightarrow>
     (\<exists>pre b more post. bs = pre @ b # more @ post \<and> out = concat (b # more)
       \<and> BaseOffset (header b) \<le> want \<and> want \<le> LastOffset (header b)
       \<and> (more \<noteq> [] \<longrightarrow> int (length out) \<le> maxb))"

lemma run_split_at:
  assumes "batch_run o' bs n" and "0 \<le> o'" and "n < 2 ^ 63" and "o' \<le> want" and "want < n"
  shows "\<exists>pre b post. bs = pre @ b # post \<and> (\<forall>c \<in> set pre. LastOffset (header c) < want)
    \<and> BaseOffset (header b) \<le> want \<and> (\<forall>c \<in> set (b # post). want \<le> LastOffset (header c))"
  using assms
proof (induction bs arbitrary: o')
  case (Cons c bs)
  then have run: "batch_run (o' + span c) bs n" and c: "wf_records c" "BaseOffset (header c) = o'"
    by auto
  have l: "LastOffset (header c) = o' + span c - 1"
    using batch_run_LastOffset [OF Cons.prems(1-3), of c] c by simp
  show ?case
  proof (cases "want < o' + span c")
    case True
    have "\<forall>d \<in> set bs. o' + span c \<le> LastOffset (header d)"
      using batch_run_LastOffset [OF run] Cons.prems span_pos [OF c(1)] by fastforce
    with True l c Cons.prems show ?thesis
      by (intro exI [of _ "[]"] exI [of _ c] exI [of _ bs]) auto
  next
    case False
    then obtain pre b post where "bs = pre @ b # post" "\<forall>d \<in> set pre. LastOffset (header d) < want"
      "BaseOffset (header b) \<le> want" "\<forall>d \<in> set (b # post). want \<le> LastOffset (header d)"
      using Cons.IH [OF run] Cons.prems span_pos [OF c(1)] by auto
    with False l show ?thesis by (intro exI [of _ "c # pre"] exI [of _ b] exI [of _ post]) auto
  qed
qed simp

lemma collect_post:
  assumes "batch_run o' bs n" and "0 \<le> o'" and "n < 2 ^ 63" and "o' \<le> want" and "want < n"
  shows "read_post bs want maxb (concat (collect want maxb 0 bs))"
proof -
  obtain pre b post where bs: "bs = pre @ b # post"
    and pre: "\<forall>c \<in> set pre. LastOffset (header c) < want" and base: "BaseOffset (header b) \<le> want"
    and last: "\<forall>c \<in> set (b # post). want \<le> LastOffset (header c)"
    using run_split_at [OF assms] by blast
  have "wf_batch b" using batch_run_wf [OF assms(1)] bs by simp
  then have len: "0 < length b" using wf_batch_size(1) [of b] unfolding HeaderSize_def by linarith
  define more where "more = (if int (length b) \<ge> maxb then [] else collect want maxb (length b) post)"
  have c: "collect want maxb 0 bs = b # more"
    using last by (simp add: bs collect_skip [OF pre] more_def)
  have "prefix more post" using collect_prefix [of post] last by (simp add: more_def)
  then obtain rest where "post = more @ rest" by (auto simp: prefix_def)
  moreover have "int (length (concat (b # more))) \<le> maxb" if "more \<noteq> []"
    using collect_bound [OF len, of post want maxb] last that by (simp add: more_def split: if_splits)
  ultimately show ?thesis
    unfolding read_post_def c using bs base last
    by (intro exI [of _ pre] exI [of _ b] exI [of _ more] exI [of _ rest]) simp
qed

section \<open>The invariant of a segment\<close>

definition seg_batches :: "dir \<Rightarrow> segment \<Rightarrow> bytes list" where
  "seg_batches d s = split_batches (fcontent d (logPath (baseOffset s)))"

text \<open>The index entries of all batches of a segment; the sparse index is a subsequence of them.\<close>

fun starts :: "int \<Rightarrow> nat \<Rightarrow> bytes list \<Rightarrow> indexEntry list" where
  "starts sb p [] = []"
| "starts sb p (b # bs) =
     \<lparr>relOffset = BaseOffset (header b) - sb, position = int p\<rparr> # starts sb (p + length b) bs"

text \<open>\<open>seg_ok d s n\<close>: the log file holds whole batches that cover the offsets from the segment's
  base to \<open>n\<close>, its size fits the \<open>int32\<close> counters, and the index, in memory and on disk, points
  at batch starts.\<close>

definition seg_ok :: "dir \<Rightarrow> segment \<Rightarrow> int \<Rightarrow> bool" where
  "seg_ok d s n \<longleftrightarrow>
     (let bs = seg_batches d s in
      fget d (logPath (baseOffset s)) = Some (concat bs)
      \<and> logSize s = int (length (concat bs)) \<and> logSize s < 2 ^ 31
      \<and> batch_run (baseOffset s) bs n \<and> 0 \<le> baseOffset s \<and> n < 2 ^ 63 \<and> n - baseOffset s \<le> 2 ^ 31
      \<and> fget d (indexPath (baseOffset s)) = Some (concat (map encodeIndexEntry (index s)))
      \<and> subseq (index s) (starts (baseOffset s) 0 bs))"

definition idx_at_end :: "segment \<Rightarrow> bool" where
  "idx_at_end s \<longleftrightarrow> idxOff s = indexEntrySize * length (index s)"

lemma seg_okI:
  assumes "fget d (logPath (baseOffset s)) = Some (concat bs)" "logSize s = int (length (concat bs))"
    "logSize s < 2 ^ 31" "batch_run (baseOffset s) bs n" "0 \<le> baseOffset s" "n < 2 ^ 63"
    "n - baseOffset s \<le> 2 ^ 31"
    "fget d (indexPath (baseOffset s)) = Some (concat (map encodeIndexEntry (index s)))"
    "subseq (index s) (starts (baseOffset s) 0 bs)"
  shows "seg_ok d s n" and "seg_batches d s = bs"
proof -
  show "seg_batches d s = bs"
    using assms(1) batch_run_wf [OF assms(4)] by (simp add: seg_batches_def)
  with assms show "seg_ok d s n" by (simp add: seg_ok_def)
qed

lemma seg_okD:
  assumes "seg_ok d s n"
  shows "fget d (logPath (baseOffset s)) = Some (concat (seg_batches d s))"
    "logSize s = int (length (concat (seg_batches d s)))" "logSize s < 2 ^ 31"
    "batch_run (baseOffset s) (seg_batches d s) n" "0 \<le> baseOffset s" "n < 2 ^ 63"
    "n - baseOffset s \<le> 2 ^ 31"
    "fget d (indexPath (baseOffset s)) = Some (concat (map encodeIndexEntry (index s)))"
    "subseq (index s) (starts (baseOffset s) 0 (seg_batches d s))"
  using assms by (simp_all add: seg_ok_def Let_def)

lemma seg_ok_base: "seg_ok d s n \<Longrightarrow> in_i64 (baseOffset s)"
  using seg_okD(5,6) [of d s n] batch_run_le [OF seg_okD(4)] by (force simp: in_i64_def)

text \<open>A segment is untouched by writes to other files.\<close>

lemma seg_ok_frame:
  assumes "fget d' (logPath (baseOffset s)) = fget d (logPath (baseOffset s))"
    and "fget d' (indexPath (baseOffset s)) = fget d (indexPath (baseOffset s))"
  shows "seg_ok d' s n = seg_ok d s n" and "seg_batches d' s = seg_batches d s"
proof -
  show "seg_batches d' s = seg_batches d s" by (simp add: seg_batches_def fcontent_def assms(1))
  then show "seg_ok d' s n = seg_ok d s n" by (simp add: seg_ok_def assms)
qed

lemma starts_append: "starts sb p (bs @ cs) = starts sb p bs @ starts sb (p + length (concat bs)) cs"
  by (induction bs arbitrary: p) (auto simp: add.assoc)

lemma starts_mem:
  assumes "e \<in> set (starts sb p bs)"
  shows "\<exists>pre b post. bs = pre @ b # post \<and> position e = int (p + length (concat pre))
    \<and> relOffset e = BaseOffset (header b) - sb"
  using assms
proof (induction bs arbitrary: p)
  case (Cons c bs)
  show ?case
  proof (cases "e \<in> set (starts sb (p + length c) bs)")
    case True
    with Cons.IH obtain pre b post where "bs = pre @ b # post"
      "position e = int (p + length c + length (concat pre))" "relOffset e = BaseOffset (header b) - sb"
      by blast
    then show ?thesis by (intro exI [of _ "c # pre"] exI [of _ b] exI [of _ post]) simp
  next
    case False
    with Cons.prems show ?thesis by (intro exI [of _ "[]"] exI [of _ c] exI [of _ bs]) simp
  qed
qed simp

lemma starts_sorted:
  "batch_run o' bs n \<Longrightarrow> sorted (map relOffset (starts sb p bs)) \<and> (\<forall>e \<in> set (starts sb p bs). o' - sb \<le> relOffset e)"
proof (induction bs arbitrary: o' p)
  case (Cons b bs)
  then have "batch_run (o' + span b) bs n" "BaseOffset (header b) = o'" "0 < span b"
    using span_pos [of b] by auto
  with Cons.IH [of "o' + span b" "p + length b"] show ?case by fastforce
qed simp

lemma sorted_subseq: "subseq xs ys \<Longrightarrow> sorted (map f ys) \<Longrightarrow> sorted (map f xs)"
proof (induction rule: list_emb.induct)
  case (list_emb_Cons2 x y xs ys)
  then show ?case using set_nths_subset list_emb_set [OF list_emb_Cons2.hyps(2)] by fastforce
qed auto

lemma subseq_append_right: "subseq xs ys \<Longrightarrow> subseq xs (ys @ zs)"
  using list_emb_append_mono [of "(=)" xs ys "[]" zs] by simp

lemma index_sorted: "seg_ok d s n \<Longrightarrow> sorted (map relOffset (index s))"
  using sorted_subseq [OF seg_okD(9)] starts_sorted [OF seg_okD(4)] by blast

text \<open>The position the index gives for an offset is the start of a batch, and every batch before
  it ends below the offset.\<close>

lemma floorPosition_start:
  assumes ok: "seg_ok d s n" and "baseOffset s \<le> want" and "want < n"
  shows "\<exists>pre post. seg_batches d s = pre @ post
    \<and> floorPosition (index s) (i32 (want - baseOffset s)) = int (length (concat pre))
    \<and> (\<forall>b \<in> set pre. LastOffset (header b) < want)"
proof -
  let ?t = "want - baseOffset s"
  have t: "i32 ?t = ?t" using seg_okD(7) [OF ok] assms(2,3) by (simp add: i32_id in_i32_def)
  have fl: "floorPosition (index s) ?t = floor_spec (index s) ?t"
    by (rule floorPosition_eq [OF index_sorted [OF ok]])
  show ?thesis
  proof (cases "filter (\<lambda>e. relOffset e \<le> ?t) (index s) = []")
    case True
    then have "floorPosition (index s) (i32 ?t) = int (length (concat []))"
      using fl t by (simp add: floor_spec_def)
    then show ?thesis by force
  next
    case False
    define e where "e = last (filter (\<lambda>e. relOffset e \<le> ?t) (index s))"
    have "e \<in> set (filter (\<lambda>e. relOffset e \<le> ?t) (index s))"
      unfolding e_def by (rule last_in_set [OF False])
    then have e: "e \<in> set (index s)" "relOffset e \<le> ?t" by auto
    have "e \<in> set (starts (baseOffset s) 0 (seg_batches d s))"
      using e(1) list_emb_set [OF seg_okD(9) [OF ok]] by auto
    then obtain pre b post where split: "seg_batches d s = pre @ b # post"
      "position e = int (length (concat pre))" "relOffset e = BaseOffset (header b) - baseOffset s"
      using starts_mem by fastforce
    obtain m where run: "batch_run (baseOffset s) pre m" "batch_run m (b # post) n"
      using seg_okD(4) [OF ok] unfolding split(1) batch_run_append by blast
    have m: "m \<le> want" "m < 2 ^ 63"
      using run(2) split(3) e(2) batch_run_le [OF run(2)] seg_okD(6) [OF ok] by auto
    have "\<forall>c \<in> set pre. LastOffset (header c) < want"
      using batch_run_LastOffset [OF run(1) seg_okD(5) [OF ok] m(2)] m(1) by fastforce
    moreover have "floorPosition (index s) ?t = position e"
      using fl False by (auto simp: floor_spec_def e_def split: list.splits)
    ultimately show ?thesis using split t by (intro exI [of _ pre] exI [of _ "b # post"]) simp
  qed
qed

lemma readBatchesFrom_ok:
  assumes ok: "seg_ok d s n" and "baseOffset s \<le> want" and "want < n"
  shows "\<exists>out. readBatchesFrom d s want maxb = Some (Ret (out, None)) \<and> read_post (seg_batches d s) want maxb out"
proof -
  let ?bs = "seg_batches d s"
  obtain pre post where split: "?bs = pre @ post" "\<forall>b \<in> set pre. LastOffset (header b) < want"
    "floorPosition (index s) (i32 (want - baseOffset s)) = int (length (concat pre))"
    using floorPosition_start [OF assms] by blast
  have "fcontent d (logPath (baseOffset s)) = concat pre @ concat post"
    using seg_okD(1) [OF ok] by (simp add: split(1))
  then have "readBatchesFrom d s want maxb = Some (Ret (concat (collect want maxb 0 post), None))"
    unfolding readBatchesFrom_def split(3)
    using batch_run_wf [OF seg_okD(4) [OF ok]] seg_okD(2,3) [OF ok] split(1)
    by (subst read_loop_collect) auto
  moreover have "collect want maxb 0 ?bs = collect want maxb 0 post"
    using split by (simp add: collect_skip)
  ultimately show ?thesis
    using collect_post [OF seg_okD(4,5,6) [OF ok] assms(2,3), of maxb] by simp
qed

section \<open>Creating, appending and opening\<close>

lemma createSegment_ok:
  assumes "createSegment d base interval = (d', s)" and "0 \<le> base" and "base < 2 ^ 63"
  shows "seg_ok d' s base" "seg_batches d' s = []" "idx_at_end s" "baseOffset s = base" "logSize s = 0"
proof -
  have eqs: "d' = fput (fput d (logPath base) []) (indexPath base) []" "baseOffset s = base"
    "logSize s = 0" "index s = []" "idxOff s = 0"
    using assms(1) by (auto simp: createSegment_def)
  show "seg_ok d' s base" "seg_batches d' s = []"
    using seg_okI [of d' s "[]" base] assms(2,3) by (simp_all add: eqs)
  show "idx_at_end s" "baseOffset s = base" "logSize s = 0" by (simp_all add: eqs idx_at_end_def)
qed

lemma createSegment_other:
  assumes "createSegment d base interval = (d', s)" "name \<noteq> logPath base" "name \<noteq> indexPath base"
  shows "fget d' name = fget d name"
  using assms by (auto simp: createSegment_def)

text \<open>The optional index entry of an append, on the level of the model.\<close>

lemma append_idx_ok:
  assumes ok: "seg_ok d s n" and idx: "idx_at_end s" and "append_idx d s e = (d', s')"
  shows "fget d' (logPath (baseOffset s)) = fget d (logPath (baseOffset s))"
    "fget d' (indexPath (baseOffset s)) = Some (concat (map encodeIndexEntry (index s')))"
    "index s' = index s @ [e]" "idx_at_end s'" "baseOffset s' = baseOffset s" "logSize s' = logSize s"
    "\<forall>name. name \<noteq> indexPath (baseOffset s) \<longrightarrow> fget d' name = fget d name"
proof -
  let ?f = "indexPath (baseOffset s)"
  have "fcontent d ?f = concat (map encodeIndexEntry (index s))"
    using seg_okD(8) [OF ok] by simp
  moreover have "idxOff s = length (concat (map encodeIndexEntry (index s)))"
    using idx by (simp only: length_encode_entries idx_at_end_def indexEntrySize_def)
  ultimately have w: "write_at (fcontent d ?f) (idxOff s) (encodeIndexEntry e)
      = concat (map encodeIndexEntry (index s)) @ encodeIndexEntry e"
    by (simp only: write_at_end)
  have eqs: "d' = fput d ?f (concat (map encodeIndexEntry (index s)) @ encodeIndexEntry e)"
    "s' = s\<lparr>idxOff := idxOff s + indexEntrySize, index := index s @ [e], bytesSinceIdx := 0\<rparr>"
    using assms(3) w by (simp_all add: append_idx_def Let_def)
  then show "fget d' (logPath (baseOffset s)) = fget d (logPath (baseOffset s))"
    "fget d' ?f = Some (concat (map encodeIndexEntry (index s')))"
    "index s' = index s @ [e]" "idx_at_end s'" "baseOffset s' = baseOffset s" "logSize s' = logSize s"
    "\<forall>name. name \<noteq> ?f \<longrightarrow> fget d' name = fget d name"
    using idx by (simp_all add: idx_at_end_def)
qed

lemma seg_append_cases:
  assumes ok: "seg_ok d s n" and idx: "idx_at_end s" and n: "in_i32 (n - baseOffset s)"
  obtains d1 s1 where "seg_append d s b n =
      (None, fput d1 (logPath (baseOffset s)) (concat (seg_batches d s) @ b),
       s1\<lparr>logSize := i32 (logSize s + i32 (int (length b))),
          bytesSinceIdx := i32 (bytesSinceIdx s1 + i32 (int (length b)))\<rparr>)"
    and "fget d1 (indexPath (baseOffset s)) = Some (concat (map encodeIndexEntry (index s1)))"
    and "index s1 = index s \<or> index s1 = index s @ [\<lparr>relOffset = n - baseOffset s, position = logSize s\<rparr>]"
    and "idx_at_end s1" and "baseOffset s1 = baseOffset s"
    and "\<forall>name. name \<noteq> indexPath (baseOffset s) \<longrightarrow> fget d1 name = fget d name"
proof -
  let ?e = "\<lparr>relOffset = n - baseOffset s, position = logSize s\<rparr>"
  define new where "new \<longleftrightarrow> length (index s) = 0 \<or> bytesSinceIdx s \<ge> indexInterval s"
  obtain d1 s1 where p: "(if new then append_idx d s ?e else (d, s)) = (d1, s1)" by fastforce
  have r: "fget d1 (logPath (baseOffset s)) = Some (concat (seg_batches d s))"
    "baseOffset s1 = baseOffset s" "logSize s1 = logSize s"
    "fget d1 (indexPath (baseOffset s)) = Some (concat (map encodeIndexEntry (index s1)))"
    "index s1 = index s \<or> index s1 = index s @ [?e]" "idx_at_end s1"
    "\<forall>name. name \<noteq> indexPath (baseOffset s) \<longrightarrow> fget d1 name = fget d name"
  proof -
    have "append_idx d s ?e = (d1, s1)" if new using p that by simp
    note a = append_idx_ok [OF ok idx this]
    have "d1 = d \<and> s1 = s" if "\<not> new" using p that by simp
    note b = this seg_okD(1,8) [OF ok] idx
    show "fget d1 (logPath (baseOffset s)) = Some (concat (seg_batches d s))"
      "fget d1 (indexPath (baseOffset s)) = Some (concat (map encodeIndexEntry (index s1)))"
      using a(1,2) b by (cases new; simp)+
    show "baseOffset s1 = baseOffset s" "logSize s1 = logSize s" "idx_at_end s1"
      "index s1 = index s \<or> index s1 = index s @ [?e]"
      using a(3-6) b by blast+
    show "\<forall>name. name \<noteq> indexPath (baseOffset s) \<longrightarrow> fget d1 name = fget d name"
      using a(7) b by blast
  qed
  have sz: "\<not> logSize s < 0" "write_at (concat (seg_batches d s)) (nat (logSize s)) b = concat (seg_batches d s) @ b"
    using seg_okD(2) [OF ok] by (simp_all only: nat_int write_at_end)
  have "seg_append d s b n = (None, fput d1 (logPath (baseOffset s)) (concat (seg_batches d s) @ b),
       s1\<lparr>logSize := i32 (logSize s + i32 (int (length b))),
          bytesSinceIdx := i32 (bytesSinceIdx s1 + i32 (int (length b)))\<rparr>)"
    unfolding seg_append_def Let_def i32_id [OF n] new_def [symmetric] p
    by (simp only: prod.case sz(1) if_False r(2,3) fcontent_Some [OF r(1)] sz(2))
  from that [OF this r(4-6,2,7)] show ?thesis .
qed

lemma seg_append_ok:
  assumes ok: "seg_ok d s n" and idx: "idx_at_end s" and b: "wf_records b" "BaseOffset (header b) = n"
    and fits: "logSize s + int (length b) < 2 ^ 31" "n + span b < 2 ^ 63" "n + span b - baseOffset s \<le> 2 ^ 31"
  obtains d' s' where "seg_append d s b n = (None, d', s')" "seg_ok d' s' (n + span b)"
    "seg_batches d' s' = seg_batches d s @ [b]" "idx_at_end s'" "baseOffset s' = baseOffset s"
    "logSize s' = logSize s + int (length b)"
    "\<And>name. name \<noteq> logPath (baseOffset s) \<Longrightarrow> name \<noteq> indexPath (baseOffset s) \<Longrightarrow> fget d' name = fget d name"
proof -
  let ?bs = "seg_batches d s"
  have le: "baseOffset s \<le> n" by (rule batch_run_le [OF seg_okD(4) [OF ok]])
  then have "in_i32 (n - baseOffset s)" using fits(3) span_pos [OF b(1)] by (simp add: in_i32_def)
  from seg_append_cases [OF ok idx this, of b] obtain d1 s1 where app: "seg_append d s b n =
      (None, fput d1 (logPath (baseOffset s)) (concat ?bs @ b),
       s1\<lparr>logSize := i32 (logSize s + i32 (int (length b))),
          bytesSinceIdx := i32 (bytesSinceIdx s1 + i32 (int (length b)))\<rparr>)" (is "_ = (None, ?d', ?s')")
    and r: "fget d1 (indexPath (baseOffset s)) = Some (concat (map encodeIndexEntry (index s1)))"
      "index s1 = index s \<or> index s1 = index s @ [\<lparr>relOffset = n - baseOffset s, position = logSize s\<rparr>]"
      "idx_at_end s1" "baseOffset s1 = baseOffset s"
      "\<forall>name. name \<noteq> indexPath (baseOffset s) \<longrightarrow> fget d1 name = fget d name" .
  have len: "logSize s + int (length b) = int (length (concat (?bs @ [b])))"
    using seg_okD(2) [OF ok] by simp
  have cat: "concat ?bs @ b = concat (?bs @ [b])" by simp
  have sz: "i32 (logSize s + i32 (int (length b))) = logSize s + int (length b)"
    using fits(1) seg_okD(2) [OF ok] by (simp add: i32_id in_i32_def)
  have st: "starts (baseOffset s) 0 (?bs @ [b]) =
      starts (baseOffset s) 0 ?bs @ [\<lparr>relOffset = n - baseOffset s, position = logSize s\<rparr>]"
    using b(2) seg_okD(2) [OF ok] by (simp add: starts_append)
  have sub: "subseq (index s1) (starts (baseOffset s) 0 (?bs @ [b]))"
    unfolding st using r(2) seg_okD(9) [OF ok] by (elim disjE) (simp_all add: list_emb_append_mono subseq_append_right)
  have run: "batch_run (baseOffset s) (?bs @ [b]) (n + span b)"
    using seg_okD(4) [OF ok] b by (auto simp: batch_run_append)
  have ok': "seg_ok ?d' ?s' (n + span b) \<and> seg_batches ?d' ?s' = ?bs @ [b]"
    by (intro conjI; rule seg_okI [where bs = "?bs @ [b]"])
      (use seg_okD(5) [OF ok] fits run sub len in \<open>simp_all add: r(1,4) sz cat del: concat_append\<close>)
  show ?thesis
  proof (rule that [OF app])
    show "seg_ok ?d' ?s' (n + span b)" "seg_batches ?d' ?s' = ?bs @ [b]" using ok' by blast+
    show "idx_at_end ?s'" "baseOffset ?s' = baseOffset s" "logSize ?s' = logSize s + int (length b)"
      using r(3,4) sz by (simp_all add: idx_at_end_def)
    show "fget ?d' name = fget d name" if "name \<noteq> logPath (baseOffset s)" "name \<noteq> indexPath (baseOffset s)" for name
      using r(5) that by simp
  qed
qed

end
