(* ===== verification/Partition_Log.thy ===== *)
theory Partition_Log
  imports Segment "HOL-Library.Multiset"
begin

text \<open>
  \<open>internal/storage/log.go\<close>: the segmented commit log of one partition. The record holds the Go
  struct and the partition's directory; \<open>active\<close> is the last segment, as in the code. The log is
  proved to implement a list of batches: \<open>Append\<close> and \<open>AppendReplica\<close> extend it by one batch,
  \<open>Read\<close> returns a run of it, retention drops a prefix of it, and \<open>Open\<close> recovers it from the
  directory, also after a crash that tore the end of the active file.
\<close>

record Config =
  SegmentBytes :: int
  IndexIntervalBytes :: int

definition DefaultConfig :: Config where
  "DefaultConfig = \<lparr>SegmentBytes = 64 * 2 ^ 20, IndexIntervalBytes = 4096\<rparr>"

record Log =
  disk :: dir
  cfg :: Config
  segments :: "segment list"
  nextOffset :: int
  highWatermark :: int
  holdHWM :: bool
  dirty :: bool

abbreviation active :: "Log \<Rightarrow> segment" where
  "active l \<equiv> last (segments l)"

section \<open>Writing\<close>

definition roll :: "Log \<Rightarrow> int \<Rightarrow> Log" where
  "roll l base =
     (let (d, seg) = createSegment (disk l) base (IndexIntervalBytes (cfg l))
      in l\<lparr>disk := d, segments := segments l @ [seg]\<rparr>)"

definition must_roll :: "Log \<Rightarrow> bytes \<Rightarrow> bool" where
  "must_roll l batch \<longleftrightarrow> logSize (active l) > 0
     \<and> i32 (logSize (active l) + i32 (int (length batch))) > SegmentBytes (cfg l)"

definition append_active :: "Log \<Rightarrow> bytes \<Rightarrow> int \<Rightarrow> goerror option \<times> Log" where
  "append_active l batch base =
     (let (e, d, s) = seg_append (disk l) (active l) batch base
      in (e, l\<lparr>disk := d, segments := butlast (segments l) @ [s]\<rparr>))"

definition Append :: "Log \<Rightarrow> bytes \<Rightarrow> (int \<times> goerror option \<times> Log) go" where
  "Append l batch0 =
     (let base = nextOffset l in
      go_bind (go_bind (SetBaseOffset batch0 base) RecomputeCRC) (\<lambda>batch.
      let l1 = (if must_roll l batch then roll l base else l) in
      case ParseHeader batch of
        (h, Some e) \<Rightarrow> Ret (0, Some e, l1)
      | (h, None) \<Rightarrow>
          (case append_active l1 batch base of
             (Some e, l2) \<Rightarrow> Ret (0, Some e, l2)
           | (None, l2) \<Rightarrow>
               let next = i64 (base + RecordCount h);
                   hwm = (if holdHWM l2 then highWatermark l2 else next)
               in Ret (base, None, l2\<lparr>nextOffset := next, highWatermark := hwm, dirty := True\<rparr>))))"

definition AppendReplica :: "Log \<Rightarrow> bytes \<Rightarrow> int \<times> goerror option \<times> Log" where
  "AppendReplica l batch =
     (case ParseHeader batch of
        (h, Some e) \<Rightarrow> (0, Some e, l)
      | (h, None) \<Rightarrow>
          if BaseOffset h < nextOffset l then (nextOffset l, None, l)
          else if BaseOffset h > nextOffset l then
            (nextOffset l, Some (ErrReplicaGap (BaseOffset h) (nextOffset l)), l)
          else
            let l1 = (if must_roll l batch then roll l (BaseOffset h) else l) in
            (case append_active l1 batch (BaseOffset h) of
               (Some e, l2) \<Rightarrow> (0, Some e, l2)
             | (None, l2) \<Rightarrow>
                 let next = i64 (LastOffset h + 1)
                 in (next, None, l2\<lparr>nextOffset := next, dirty := True\<rparr>)))"

definition SetHighWatermark :: "Log \<Rightarrow> int \<Rightarrow> Log" where
  "SetHighWatermark l hwm0 =
     (let hwm = (if hwm0 > nextOffset l then nextOffset l else hwm0)
      in if hwm > highWatermark l then l\<lparr>highWatermark := hwm\<rparr> else l)"

definition HoldHighWatermark :: "Log \<Rightarrow> Log" where
  "HoldHighWatermark l = l\<lparr>holdHWM := True\<rparr>"

definition Flush :: "Log \<Rightarrow> Log" where
  "Flush l = (if \<not> dirty l then l else l\<lparr>dirty := False\<rparr>)"

section \<open>Reading\<close>

definition segmentFor :: "Log \<Rightarrow> int \<Rightarrow> segment" where
  "segmentFor l offset =
     (let i = go_search (length (segments l)) (\<lambda>i. baseOffset (segments l ! i) > offset)
      in if i = 0 then segments l ! 0 else segments l ! (i - 1))"

definition Read :: "Log \<Rightarrow> int \<Rightarrow> int \<Rightarrow> (bytes \<times> goerror option) go option" where
  "Read l offset maxBytes =
     (if offset = nextOffset l then Some (Ret ([], None))
      else if offset > nextOffset l \<or> offset < baseOffset (segments l ! 0) then
        Some (Ret ([], Some ErrOffsetOutOfRange))
      else readBatchesFrom (disk l) (segmentFor l offset) offset maxBytes)"

partial_function (option) ts_loop :: "bytes \<Rightarrow> int \<Rightarrow> int \<Rightarrow> int \<Rightarrow> (int \<times> bool) option option" where
  "ts_loop f lsize ts p =
     (if p < lsize then
        (case read_at f p HeaderSize of
           Inl e \<Rightarrow> Some (Some (0, False))
         | Inr hdr \<Rightarrow>
             (case ParseHeader hdr of
                (h, Some e) \<Rightarrow> Some (Some (0, False))
              | (h, None) \<Rightarrow>
                  if MaxTimestamp h \<ge> ts then Some (Some (BaseOffset h, True))
                  else ts_loop f lsize ts (i32 (p + i32 (TotalSize h)))))
      else Some None)"

fun ts_segments :: "dir \<Rightarrow> int \<Rightarrow> segment list \<Rightarrow> (int \<times> bool) option" where
  "ts_segments d ts [] = Some (0, False)"
| "ts_segments d ts (s # ss) =
     (case ts_loop (fcontent d (logPath (baseOffset s))) (logSize s) ts 0 of
        None \<Rightarrow> None
      | Some (Some r) \<Rightarrow> Some r
      | Some None \<Rightarrow> ts_segments d ts ss)"

definition OffsetForTimestamp :: "Log \<Rightarrow> int \<Rightarrow> (int \<times> bool) option" where
  "OffsetForTimestamp l ts = ts_segments (disk l) ts (segments l)"

definition EarliestOffset :: "Log \<Rightarrow> int" where
  "EarliestOffset l = baseOffset (segments l ! 0)"

definition LatestOffset :: "Log \<Rightarrow> int" where
  "LatestOffset l = nextOffset l"

definition HighWatermark :: "Log \<Rightarrow> int" where
  "HighWatermark l = highWatermark l"

definition Size :: "Log \<Rightarrow> int" where
  "Size l = foldl (\<lambda>total s. i64 (total + logSize s)) 0 (segments l)"

section \<open>Retention\<close>

text \<open>\<open>expired\<close> is the age test on the modification time of a segment's log file.\<close>

fun retention_loop :: "(segment \<Rightarrow> bool) \<Rightarrow> int \<Rightarrow> dir \<Rightarrow> int \<Rightarrow> segment list \<Rightarrow> dir \<times> segment list" where
  "retention_loop expired maxBytes d totalSize (s # s' # ss) =
     (if \<not> expired s \<and> \<not> (maxBytes > 0 \<and> totalSize > maxBytes) then (d, s # s' # ss)
      else retention_loop expired maxBytes
             (fdel (fdel d (logPath (baseOffset s))) (indexPath (baseOffset s)))
             (i64 (totalSize - logSize s)) (s' # ss))"
| "retention_loop expired maxBytes d totalSize ss = (d, ss)"

text \<open>\<open>now\<close> and the modification times \<open>mtime\<close> (\<open>None\<close>: \<open>Stat\<close> failed) are in nanoseconds.\<close>

definition EnforceRetention :: "Log \<Rightarrow> int \<Rightarrow> (segment \<Rightarrow> int option) \<Rightarrow> int \<Rightarrow> int \<Rightarrow> Log" where
  "EnforceRetention l now mtime maxAgeMs maxBytes =
     (if length (segments l) \<le> 1 then l
      else
        let cutoff = now + i64 (i64 (- maxAgeMs) * 1000000);
            expired = (\<lambda>s. maxAgeMs > 0 \<and> (case mtime s of None \<Rightarrow> False | Some t \<Rightarrow> t < cutoff));
            (d, ss) = retention_loop expired maxBytes (disk l) (Size l) (segments l)
        in l\<lparr>disk := d, segments := ss\<rparr>)"

section \<open>Opening\<close>

definition segment_base :: "string \<Rightarrow> int option" where
  "segment_base name =
     (if \<not> has_suffix name ''.log'' then None else parse_int (trim_suffix name ''.log''))"

definition listSegmentBases :: "dir \<Rightarrow> int list" where
  "listSegmentBases d = sort (List.map_filter segment_base (map fst d))"

text \<open>The scan of the active segment: where the last whole batch ends, the next offset and the
  rebuilt index.\<close>

partial_function (option) recover_loop ::
  "bytes \<Rightarrow> segment \<Rightarrow> int \<Rightarrow> int \<Rightarrow> (goerror + (int \<times> int \<times> segment)) option" where
  "recover_loop f s p next =
     (if p < logSize s then
        if i32 (logSize s - p) < int HeaderSize then Some (Inr (p, next, s))
        else
          (case read_at f p HeaderSize of
             Inl e \<Rightarrow> Some (Inl e)
           | Inr hdr \<Rightarrow>
               (case ParseHeader hdr of
                  (h, Some e) \<Rightarrow> Some (Inr (p, next, s))
                | (h, None) \<Rightarrow>
                    let total = i32 (TotalSize h) in
                    if i32 (p + total) > logSize s then Some (Inr (p, next, s))
                    else
                      let s1 =
                        (if length (index s) = 0 \<or> bytesSinceIdx s \<ge> indexInterval s
                         then s\<lparr>index := index s @ [\<lparr>relOffset = i32 (BaseOffset h - baseOffset s), position = p\<rparr>],
                                bytesSinceIdx := 0\<rparr>
                         else s)
                      in recover_loop f (s1\<lparr>bytesSinceIdx := i32 (bytesSinceIdx s1 + total)\<rparr>)
                           (i32 (p + total)) (i64 (LastOffset h + 1))))
      else Some (Inr (p, next, s)))"

definition rewriteIndex :: "dir \<Rightarrow> segment \<Rightarrow> dir \<times> segment" where
  "rewriteIndex d s =
     (fput d (indexPath (baseOffset s)) (concat (map encodeIndexEntry (index s))),
      s\<lparr>idxOff := length (concat (map encodeIndexEntry (index s)))\<rparr>)"

text \<open>\<open>Truncate\<close> to a position past the end extends with zeros; a negative one is an error.\<close>

definition truncate_to :: "bytes \<Rightarrow> nat \<Rightarrow> bytes" where
  "truncate_to f n = take n f @ replicate (n - length f) 0"

definition recoverActive :: "dir \<Rightarrow> segment \<Rightarrow> (goerror + (int \<times> dir \<times> segment)) option" where
  "recoverActive d s =
     (let f = fcontent d (logPath (baseOffset s)) in
      case recover_loop f (s\<lparr>index := [], bytesSinceIdx := 0\<rparr>) 0 0 of
        None \<Rightarrow> None
      | Some (Inl e) \<Rightarrow> Some (Inl e)
      | Some (Inr (p, next, s1)) \<Rightarrow>
          if p \<noteq> logSize s1 \<and> p < 0 then Some (Inl ErrNegativeOffset)
          else
            let (d2, s2) =
              (if p \<noteq> logSize s1 then (fput d (logPath (baseOffset s)) (truncate_to f (nat p)), s1\<lparr>logSize := p\<rparr>)
               else (d, s1));
                (d3, s3) = rewriteIndex d2 s2
            in Some (Inr (if next = 0 then baseOffset s3 else next, d3, s3)))"

fun open_segments :: "dir \<Rightarrow> int \<Rightarrow> int list \<Rightarrow> goerror + (dir \<times> segment list)" where
  "open_segments d interval [] = Inr (d, [])"
| "open_segments d interval (base # bases) =
     (case openSegment d base interval of
        Inl e \<Rightarrow> Inl e
      | Inr (d1, s) \<Rightarrow>
          (case open_segments d1 interval bases of
             Inl e \<Rightarrow> Inl e
           | Inr (d2, ss) \<Rightarrow> Inr (d2, s # ss)))"

definition new_log :: "dir \<Rightarrow> Config \<Rightarrow> Log" where
  "new_log d c =
     (let (d1, seg) = createSegment d 0 (IndexIntervalBytes c)
      in \<lparr>disk = d1, cfg = c, segments = [seg], nextOffset = 0, highWatermark = 0,
          holdHWM = False, dirty = False\<rparr>)"

definition Open :: "dir \<Rightarrow> Config \<Rightarrow> (goerror + Log) option" where
  "Open d c =
     (let bases = listSegmentBases d in
      if length bases = 0 then Some (Inr (new_log d c))
      else
        (case open_segments d (IndexIntervalBytes c) bases of
           Inl e \<Rightarrow> Some (Inl e)
         | Inr (d1, ss) \<Rightarrow>
             (case recoverActive d1 (last ss) of
                None \<Rightarrow> None
              | Some (Inl e) \<Rightarrow> Some (Inl e)
              | Some (Inr (next, d2, s)) \<Rightarrow>
                  Some (Inr \<lparr>disk = d2, cfg = c, segments = butlast ss @ [s], nextOffset = next,
                            highWatermark = next, holdHWM = False, dirty = False\<rparr>))))"

section \<open>The invariant\<close>

text \<open>The sealed segments in front of the active one: each is non-empty and ends where the next one
  starts.\<close>

fun next_base :: "segment list \<Rightarrow> int \<Rightarrow> int" where
  "next_base [] n = n"
| "next_base (s # ss) n = baseOffset s"

fun sealed_ok :: "dir \<Rightarrow> segment list \<Rightarrow> int \<Rightarrow> bool" where
  "sealed_ok d [] n \<longleftrightarrow> True"
| "sealed_ok d (s # ss) n \<longleftrightarrow> seg_ok d s (next_base ss n) \<and> seg_batches d s \<noteq> [] \<and> sealed_ok d ss n"

definition log_inv :: "Log \<Rightarrow> bool" where
  "log_inv l \<longleftrightarrow> segments l \<noteq> []
     \<and> sealed_ok (disk l) (butlast (segments l)) (baseOffset (active l))
     \<and> seg_ok (disk l) (active l) (nextOffset l) \<and> idx_at_end (active l)
     \<and> distinct (map fst (disk l)) \<and> listSegmentBases (disk l) = map baseOffset (segments l)
     \<and> highWatermark l \<le> nextOffset l"

text \<open>The abstract log: all its batches in order.\<close>

definition log_batches :: "Log \<Rightarrow> bytes list" where
  "log_batches l = concat (map (seg_batches (disk l)) (segments l))"

lemma log_invD:
  assumes "log_inv l"
  shows "segments l \<noteq> []" "sealed_ok (disk l) (butlast (segments l)) (baseOffset (active l))"
    "seg_ok (disk l) (active l) (nextOffset l)" "idx_at_end (active l)" "distinct (map fst (disk l))"
    "listSegmentBases (disk l) = map baseOffset (segments l)" "highWatermark l \<le> nextOffset l"
  using assms by (simp_all add: log_inv_def)

lemma sealed_ok_snoc:
  "sealed_ok d (ss @ [s]) n \<longleftrightarrow> sealed_ok d ss (baseOffset s) \<and> seg_ok d s n \<and> seg_batches d s \<noteq> []"
proof (induction ss)
  case (Cons a ss)
  then show ?case by (cases ss) auto
qed auto

lemma sealed_ok_bases:
  "sealed_ok d ss n \<Longrightarrow> sorted_wrt (<) (map baseOffset ss) \<and> (\<forall>s \<in> set ss. baseOffset s < n) \<and> next_base ss n \<le> n"
proof (induction ss)
  case (Cons s ss)
  then have ok: "seg_ok d s (next_base ss n)" and ne: "seg_batches d s \<noteq> []" and rest: "sealed_ok d ss n"
    by auto
  have lt: "baseOffset s < next_base ss n" using batch_run_less [OF seg_okD(4) [OF ok] ne] .
  have "\<forall>s' \<in> set ss. next_base ss n \<le> baseOffset s'"
    using Cons.IH [OF rest] by (cases ss) (auto simp: less_imp_le)
  with lt Cons.IH [OF rest] show ?case by fastforce
qed simp

lemma sealed_ok_frame:
  assumes "\<And>s. s \<in> set ss \<Longrightarrow> fget d' (logPath (baseOffset s)) = fget d (logPath (baseOffset s))
      \<and> fget d' (indexPath (baseOffset s)) = fget d (indexPath (baseOffset s))"
  shows "sealed_ok d' ss n = sealed_ok d ss n" and "map (seg_batches d') ss = map (seg_batches d) ss"
proof -
  have s: "seg_ok d' s m = seg_ok d s m" "seg_batches d' s = seg_batches d s" if "s \<in> set ss" for s m
    using assms [OF that] seg_ok_frame [of d' s d] by auto
  then show "map (seg_batches d') ss = map (seg_batches d) ss" by simp
  from s show "sealed_ok d' ss n = sealed_ok d ss n"
    by (induction ss) auto
qed

lemma sealed_ok_i64: "sealed_ok d ss n \<Longrightarrow> s \<in> set ss \<Longrightarrow> in_i64 (baseOffset s)"
  by (induction ss) (auto intro: seg_ok_base)

lemma log_inv_bases:
  assumes "log_inv l"
  shows "sorted_wrt (<) (map baseOffset (segments l))" "\<forall>s \<in> set (segments l). in_i64 (baseOffset s)"
proof -
  have split: "segments l = butlast (segments l) @ [active l]"
    using log_invD(1) [OF assms] by simp
  show "sorted_wrt (<) (map baseOffset (segments l))"
    using sealed_ok_bases [OF log_invD(2) [OF assms]]
    by (subst split) (auto simp: sorted_wrt_append)
  show "\<forall>s \<in> set (segments l). in_i64 (baseOffset s)"
    using sealed_ok_i64 [OF log_invD(2) [OF assms]] seg_ok_base [OF log_invD(3) [OF assms]]
    by (subst split) auto
qed

section \<open>Directory listings\<close>

lemma segment_base_logPath [simp]: "in_i64 b \<Longrightarrow> segment_base (logPath b) = Some b"
  by (simp add: segment_base_def logPath_def segmentName_def parse_int_fmt_020d)

lemma segment_base_indexPath [simp]: "segment_base (indexPath b) = None"
proof -
  have "last (indexPath b) = CHR ''x''" by (simp add: indexPath_def)
  then have "\<not> has_suffix (indexPath b) ''.log''" by (auto simp: has_suffix_iff)
  then show ?thesis by (simp add: segment_base_def)
qed

lemma map_filter_snoc: "List.map_filter f (xs @ [x]) = List.map_filter f xs @ (case f x of None \<Rightarrow> [] | Some y \<Rightarrow> [y])"
  by (induction xs) (auto simp: List.map_filter_def)

lemma list_fput_index [simp]: "listSegmentBases (fput d (indexPath b) c) = listSegmentBases d"
  by (simp add: listSegmentBases_def update_keys map_filter_snoc)

lemma list_fput_existing:
  "fget d name \<noteq> None \<Longrightarrow> listSegmentBases (fput d name c) = listSegmentBases d"
  by (simp add: listSegmentBases_def update_keys map_of_eq_None_iff)

lemma list_fput_new:
  assumes "in_i64 b" and "\<forall>x \<in> set (listSegmentBases d). x < b"
  shows "listSegmentBases (fput d (logPath b) c) = listSegmentBases d @ [b]"
proof -
  let ?xs = "List.map_filter segment_base (map fst d)"
  have set: "set (listSegmentBases d) = set ?xs" by (simp add: listSegmentBases_def)
  have "logPath b \<notin> set (map fst d)"
  proof
    assume "logPath b \<in> set (map fst d)"
    then have "b \<in> set ?xs" using assms(1) by (force simp: List.map_filter_def)
    with assms(2) set show False by auto
  qed
  then have "map fst (fput d (logPath b) c) = map fst d @ [logPath b]" by (simp add: update_keys)
  then have "listSegmentBases (fput d (logPath b) c) = sort (?xs @ [b])"
    using assms(1) by (simp add: listSegmentBases_def map_filter_snoc)
  also have "\<dots> = sort ?xs @ [b]"
    using assms(2) set by (intro properties_for_sort) (auto simp: sorted_append less_imp_le)
  finally show ?thesis by (simp add: listSegmentBases_def)
qed

section \<open>Appending\<close>

lemma log_batches_split:
  "segments l \<noteq> [] \<Longrightarrow> log_batches l =
     concat (map (seg_batches (disk l)) (butlast (segments l))) @ seg_batches (disk l) (active l)"
  unfolding log_batches_def by (cases "segments l" rule: rev_cases) simp_all

lemma logSize_pos: "seg_ok d s n \<Longrightarrow> 0 < logSize s \<longleftrightarrow> seg_batches d s \<noteq> []"
proof (cases "seg_batches d s")
  case (Cons b bs)
  assume ok: "seg_ok d s n"
  have "wf_batch b" using batch_run_wf [OF seg_okD(4) [OF ok]] Cons by simp
  then have "1 \<le> length b" using wf_batch_size(1) [of b] unfolding HeaderSize_def by linarith
  with Cons seg_okD(2) [OF ok] show ?thesis by (simp del: One_nat_def)
qed (use seg_okD(2) in force)

lemma roll_inv:
  assumes inv: "log_inv l" and ne: "seg_batches (disk l) (active l) \<noteq> []"
  shows "log_inv (roll l (nextOffset l))" "log_batches (roll l (nextOffset l)) = log_batches l"
    "baseOffset (active (roll l (nextOffset l))) = nextOffset l" "logSize (active (roll l (nextOffset l))) = 0"
proof -
  let ?n = "nextOffset l"
  obtain d seg where c: "createSegment (disk l) ?n (IndexIntervalBytes (cfg l)) = (d, seg)" by fastforce
  have act: "seg_ok (disk l) (active l) ?n" by (rule log_invD(3) [OF inv])
  have n: "0 \<le> ?n" "?n < 2 ^ 63" "baseOffset (active l) < ?n"
    using seg_okD(5,6) [OF act] batch_run_less [OF seg_okD(4) [OF act] ne] by linarith+
  then have i64: "in_i64 ?n" by (simp add: in_i64_def)
  have split: "segments l = butlast (segments l) @ [active l]" using log_invD(1) [OF inv] by simp
  have lt: "baseOffset s < ?n" if "s \<in> set (segments l)" for s
    using that sealed_ok_bases [OF log_invD(2) [OF inv]] n(3) by (subst (asm) split) auto
  have names: "logPath (baseOffset s) \<noteq> logPath ?n \<and> indexPath (baseOffset s) \<noteq> indexPath ?n"
    if "s \<in> set (segments l)" for s
    using lt [OF that] log_inv_bases(2) [OF inv] that i64 by (simp add: logPath_inj indexPath_inj)
  have frame: "fget d (logPath (baseOffset s)) = fget (disk l) (logPath (baseOffset s))
      \<and> fget d (indexPath (baseOffset s)) = fget (disk l) (indexPath (baseOffset s))"
    if "s \<in> set (segments l)" for s
    using names [OF that] by (simp add: createSegment_other [OF c])
  have sealed: "sealed_ok (disk l) (segments l) ?n"
    by (subst split) (use log_invD(2) [OF inv] act ne in \<open>simp add: sealed_ok_snoc\<close>)
  have dn: "d = fput (fput (disk l) (logPath ?n) []) (indexPath ?n) []"
    using c by (simp add: createSegment_def)
  have bases: "listSegmentBases d = map baseOffset (segments l) @ [?n]"
    using log_invD(6) [OF inv] lt unfolding dn by (simp add: list_fput_new [OF i64])
  have r: "roll l ?n = l\<lparr>disk := d, segments := segments l @ [seg]\<rparr>" by (simp add: roll_def c)
  note cs = createSegment_ok [OF c n(1,2)]
  show "log_inv (roll l ?n)"
    using cs sealed sealed_ok_frame(1) [of "segments l", OF frame] bases log_invD(5,7) [OF inv]
    by (simp add: log_inv_def r dn distinct_update)
  show "log_batches (roll l ?n) = log_batches l"
    using cs sealed_ok_frame(2) [of "segments l", OF frame] by (simp add: log_batches_def r cong: map_cong)
  show "baseOffset (active (roll l ?n)) = ?n" "logSize (active (roll l ?n)) = 0"
    using cs by (simp_all add: r)
qed

lemma append_active_inv:
  assumes inv: "log_inv l" and b: "wf_records b" "BaseOffset (header b) = nextOffset l"
    and fits: "logSize (active l) + int (length b) < 2 ^ 31" "nextOffset l + span b < 2 ^ 63"
      "nextOffset l + span b - baseOffset (active l) \<le> 2 ^ 31"
  obtains d ss where "append_active l b (nextOffset l) = (None, l\<lparr>disk := d, segments := ss\<rparr>)"
    "\<And>h x. h \<le> nextOffset l + span b \<Longrightarrow>
      log_inv (l\<lparr>disk := d, segments := ss, nextOffset := nextOffset l + span b, highWatermark := h, dirty := x\<rparr>)"
    "concat (map (seg_batches d) ss) = log_batches l @ [b]"
proof -
  let ?n = "nextOffset l" and ?a = "active l" and ?init = "butlast (segments l)"
  have act: "seg_ok (disk l) ?a ?n" by (rule log_invD(3) [OF inv])
  from seg_append_ok [OF act log_invD(4) [OF inv] b fits] obtain d s where
    app: "seg_append (disk l) ?a b ?n = (None, d, s)" and s: "seg_ok d s (?n + span b)"
      "seg_batches d s = seg_batches (disk l) ?a @ [b]" "idx_at_end s" "baseOffset s = baseOffset ?a"
    and other: "\<And>name. name \<noteq> logPath (baseOffset ?a) \<Longrightarrow> name \<noteq> indexPath (baseOffset ?a) \<Longrightarrow> fget d name = fget (disk l) name"
    by metis
  have lt: "baseOffset s' < baseOffset ?a" "in_i64 (baseOffset s')" if "s' \<in> set ?init" for s'
    using that sealed_ok_bases [OF log_invD(2) [OF inv]] log_inv_bases(2) [OF inv] in_set_butlastD [OF that] by auto
  have frame: "fget d (logPath (baseOffset s')) = fget (disk l) (logPath (baseOffset s'))
      \<and> fget d (indexPath (baseOffset s')) = fget (disk l) (indexPath (baseOffset s'))" if "s' \<in> set ?init" for s'
    using lt [OF that] seg_ok_base [OF act] by (simp add: other logPath_inj indexPath_inj)
  have keys: "listSegmentBases d = listSegmentBases (disk l) \<and> distinct (map fst d)"
    using app seg_okD(1) [OF act] log_invD(5) [OF inv]
    by (auto simp: seg_append_def append_idx_def Let_def list_fput_existing distinct_update split: if_splits)
  show ?thesis
  proof (rule that)
    show "append_active l b ?n = (None, l\<lparr>disk := d, segments := ?init @ [s]\<rparr>)"
      by (simp add: append_active_def app)
    show "log_inv (l\<lparr>disk := d, segments := ?init @ [s], nextOffset := ?n + span b, highWatermark := h, dirty := x\<rparr>)"
      if "h \<le> ?n + span b" for h x
      using that s log_invD(1,2,6) [OF inv] keys sealed_ok_frame(1) [of ?init, OF frame]
        map_butlast [of baseOffset "segments l"] last_map [of "segments l" baseOffset]
      by (simp add: log_inv_def) (metis append_butlast_last_id map_is_Nil_conv)
    show "concat (map (seg_batches d) (?init @ [s])) = log_batches l @ [b]"
      using sealed_ok_frame(2) [of ?init, OF frame] s(2) log_invD(1) [OF inv]
      by (simp add: log_batches_split cong: map_cong)
  qed
qed

text \<open>What keeps the counters of the log in range: offsets below \<open>2 ^ 63\<close>, and an active segment
  whose size and relative offsets fit \<open>int32\<close> unless the batch starts a new segment.\<close>

definition log_fits :: "Log \<Rightarrow> bytes \<Rightarrow> bool" where
  "log_fits l b \<longleftrightarrow> nextOffset l + span b < 2 ^ 63
     \<and> (\<not> must_roll l b \<longrightarrow> logSize (active l) + int (length b) < 2 ^ 31
         \<and> nextOffset l + span b - baseOffset (active l) \<le> 2 ^ 31)"

lemma roll_fields [simp]:
  "nextOffset (roll l n) = nextOffset l" "highWatermark (roll l n) = highWatermark l"
  "holdHWM (roll l n) = holdHWM l" "cfg (roll l n) = cfg l" "dirty (roll l n) = dirty l"
  by (simp_all add: roll_def split: prod.splits)

lemma write_inv:
  assumes inv: "log_inv l" and b: "wf_records b" "BaseOffset (header b) = nextOffset l" and fits: "log_fits l b"
  obtains l1 d ss where "l1 = (if must_roll l b then roll l (nextOffset l) else l)"
    "append_active l1 b (nextOffset l) = (None, l1\<lparr>disk := d, segments := ss\<rparr>)"
    "\<And>h x. h \<le> nextOffset l + span b \<Longrightarrow>
      log_inv (l1\<lparr>disk := d, segments := ss, nextOffset := nextOffset l + span b, highWatermark := h, dirty := x\<rparr>)"
    "concat (map (seg_batches d) ss) = log_batches l @ [b]"
    "holdHWM l1 = holdHWM l" "highWatermark l1 = highWatermark l" "cfg l1 = cfg l"
proof -
  let ?n = "nextOffset l"
  define l1 where "l1 = (if must_roll l b then roll l ?n else l)"
  have l1: "log_inv l1 \<and> log_batches l1 = log_batches l \<and> nextOffset l1 = ?n
      \<and> logSize (active l1) + int (length b) < 2 ^ 31 \<and> ?n + span b - baseOffset (active l1) \<le> 2 ^ 31"
  proof (cases "must_roll l b")
    case True
    then have "seg_batches (disk l) (active l) \<noteq> []"
      using logSize_pos [OF log_invD(3) [OF inv]] by (simp add: must_roll_def)
    from roll_inv [OF inv this] True show ?thesis
      using wf_batch_size(2) [OF wf_records_batch [OF b(1)]] header_ranges(3) [of b]
      by (simp add: l1_def span_def in_i32_def)
  next
    case False
    with inv fits show ?thesis by (simp add: l1_def log_fits_def)
  qed
  then have b1: "BaseOffset (header b) = nextOffset l1" and f1: "nextOffset l1 + span b < 2 ^ 63"
      "nextOffset l1 + span b - baseOffset (active l1) \<le> 2 ^ 31"
    using b(2) fits by (simp_all add: log_fits_def)
  from append_active_inv [OF _ b(1) b1 _ f1] l1 obtain d ss where
    "append_active l1 b ?n = (None, l1\<lparr>disk := d, segments := ss\<rparr>)"
    "\<And>h x. h \<le> ?n + span b \<Longrightarrow>
      log_inv (l1\<lparr>disk := d, segments := ss, nextOffset := ?n + span b, highWatermark := h, dirty := x\<rparr>)"
    "concat (map (seg_batches d) ss) = log_batches l @ [b]"
    by metis
  from that [OF l1_def this] show ?thesis by (simp add: l1_def)
qed

lemma wf_records_patched:
  assumes "wf_records b"
  shows "wf_records (patched b off)" "span (patched b off) = span b" "length (patched b off) = length b"
    "ParseHeader (patched b off) = ((header b)\<lparr>BaseOffset := i64 off\<rparr>, None)"
proof -
  have len: "HeaderSize \<le> length b" using assms by (simp add: wf_batch_size)
  have p: "snd (ParseHeader b) = None" using assms by (simp add: wf_records_def wf_batch_def)
  show "span (patched b off) = span b" by (simp add: span_def header_patched [OF len])
  then show "wf_records (patched b off)"
    using assms wf_batch_patched [of b off] by (simp add: wf_records_def header_patched [OF len])
  show "length (patched b off) = length b" using len by simp
  show "ParseHeader (patched b off) = ((header b)\<lparr>BaseOffset := i64 off\<rparr>, None)"
    using ParseHeader_patched [OF len] p by simp
qed

lemma next_in_i64: "log_inv l \<Longrightarrow> 0 \<le> nextOffset l \<and> in_i64 (nextOffset l)"
  using seg_okD(5,6) [OF log_invD(3)] batch_run_le [OF seg_okD(4) [OF log_invD(3)]]
  by (force simp: in_i64_def)

lemma Append_ok:
  assumes inv: "log_inv l" and b: "wf_records b" and fits: "log_fits l b"
  shows "\<exists>l'. Append l b = Ret (nextOffset l, None, l') \<and> log_inv l'
    \<and> log_batches l' = log_batches l @ [patched b (nextOffset l)]
    \<and> nextOffset l' = nextOffset l + RecordCount (header b)
    \<and> highWatermark l' = (if holdHWM l then highWatermark l else nextOffset l') \<and> holdHWM l' = holdHWM l
    \<and> cfg l' = cfg l"
proof -
  let ?n = "nextOffset l" and ?b = "patched b (nextOffset l)"
  note p = wf_records_patched [OF b, of ?n]
  have n: "0 \<le> ?n" "i64 ?n = ?n" using next_in_i64 [OF inv] by (simp_all add: i64_id)
  have base: "BaseOffset (header ?b) = ?n" by (simp add: p(4) n)
  have fits': "log_fits l ?b" using fits by (simp add: log_fits_def must_roll_def p)
  from write_inv [OF inv p(1) base fits'] obtain l1 d ss where
    l1: "l1 = (if must_roll l ?b then roll l ?n else l)"
    and app: "append_active l1 ?b ?n = (None, l1\<lparr>disk := d, segments := ss\<rparr>)"
    and inv': "\<And>h x. h \<le> ?n + span b \<Longrightarrow>
      log_inv (l1\<lparr>disk := d, segments := ss, nextOffset := ?n + span b, highWatermark := h, dirty := x\<rparr>)"
    and bs: "concat (map (seg_batches d) ss) = log_batches l @ [?b]"
    and l1f: "holdHWM l1 = holdHWM l" "highWatermark l1 = highWatermark l" "cfg l1 = cfg l"
    unfolding p(2) by metis
  have rc: "RecordCount (header b) = span b" using b by (simp add: wf_records_def)
  have nxt: "i64 (?n + span b) = ?n + span b"
    using n span_pos [OF b] fits by (simp add: i64_id in_i64_def log_fits_def)
  define h where "h = (if holdHWM l then highWatermark l else ?n + span b)"
  have h: "h \<le> ?n + span b" using log_invD(7) [OF inv] span_pos [OF b] by (simp add: h_def)
  have "patch b ?n = Ret ?b" using b by (intro patch_eq) (simp add: wf_batch_size)
  then have "Append l b = Ret (?n, None, l1\<lparr>disk := d, segments := ss, nextOffset := ?n + span b,
      highWatermark := h, dirty := True\<rparr>)"
    unfolding Append_def Let_def patch_def [symmetric]
    by (simp add: l1 [symmetric] app p(4) rc nxt h_def l1f)
  with inv' [OF h] bs show ?thesis by (simp add: log_batches_def rc h_def l1f)
qed

text \<open>C10: on a well-formed log, \<open>Append\<close> of a well-formed batch succeeds at the log end offset: the
  log holds one more batch, the given one with that base offset and a fresh checksum; the log
  end advances by the record count; the high watermark follows it unless the log is held for
  replication; and the log stays well-formed.\<close>

theorem Append_refines:
  assumes "log_inv l" and "wf_records b" and "log_fits l b"
  shows "\<exists>l'. Append l b = Ret (nextOffset l, None, l') \<and> log_inv l'
    \<and> log_batches l' = log_batches l @ [patched b (nextOffset l)]
    \<and> nextOffset l' = nextOffset l + RecordCount (header b)
    \<and> highWatermark l' = (if holdHWM l then highWatermark l else nextOffset l') \<and> holdHWM l' = holdHWM l
    \<and> cfg l' = cfg l"
  using assms by (rule Append_ok)

lemma AppendReplica_next:
  assumes inv: "log_inv l" and b: "wf_records b" and base: "BaseOffset (header b) = nextOffset l"
    and fits: "log_fits l b"
  shows "\<exists>l'. AppendReplica l b = (nextOffset l', None, l') \<and> log_inv l'
    \<and> log_batches l' = log_batches l @ [b] \<and> nextOffset l' = nextOffset l + span b
    \<and> highWatermark l' = highWatermark l \<and> holdHWM l' = holdHWM l \<and> cfg l' = cfg l"
proof -
  let ?n = "nextOffset l"
  have n: "0 \<le> ?n" using next_in_i64 [OF inv] by simp
  from write_inv [OF inv b base fits] obtain l1 d ss where
    l1: "l1 = (if must_roll l b then roll l ?n else l)"
    and app: "append_active l1 b ?n = (None, l1\<lparr>disk := d, segments := ss\<rparr>)"
    and inv': "\<And>h x. h \<le> ?n + span b \<Longrightarrow>
      log_inv (l1\<lparr>disk := d, segments := ss, nextOffset := ?n + span b, highWatermark := h, dirty := x\<rparr>)"
    and bs: "concat (map (seg_batches d) ss) = log_batches l @ [b]"
    and l1f: "holdHWM l1 = holdHWM l" "highWatermark l1 = highWatermark l" "cfg l1 = cfg l"
    by metis
  have "LastOffset (header b) = ?n + span b - 1"
    using LastOffset_run [OF b base n] fits by (simp add: log_fits_def)
  then have nxt: "i64 (LastOffset (header b) + 1) = ?n + span b"
    using n span_pos [OF b] fits by (simp add: i64_id in_i64_def log_fits_def)
  have h: "highWatermark l \<le> ?n + span b" using log_invD(7) [OF inv] span_pos [OF b] by simp
  have "snd (ParseHeader b) = None" using b by (simp add: wf_records_def wf_batch_def)
  then have "AppendReplica l b = (?n + span b, None, l1\<lparr>disk := d, segments := ss,
      nextOffset := ?n + span b, dirty := True\<rparr>)"
    using l1 app base nxt
    by (cases "must_roll l b") (simp_all add: AppendReplica_def case_prod_beta Let_def)
  moreover have "l1\<lparr>disk := d, segments := ss, nextOffset := ?n + span b, dirty := True\<rparr> =
      l1\<lparr>disk := d, segments := ss, nextOffset := ?n + span b, highWatermark := highWatermark l, dirty := True\<rparr>"
    using l1f(2) by simp
  ultimately show ?thesis using inv' [OF h, of True] bs l1f by (simp add: log_batches_def)
qed

text \<open>C12: on the follower's write path a well-formed batch is stored verbatim when it starts at the
  log end (the log end advances past its last offset, the high watermark does not move), is
  ignored when it starts below it, and is rejected as a gap when it starts above it.\<close>

theorem AppendReplica_cases:
  assumes "log_inv l" and "wf_records b" and "BaseOffset (header b) = nextOffset l \<Longrightarrow> log_fits l b"
  shows "\<exists>l' e. AppendReplica l b = (nextOffset l', e, l') \<and> log_inv l' \<and> highWatermark l' = highWatermark l
    \<and> (if BaseOffset (header b) < nextOffset l then e = None \<and> l' = l
       else if BaseOffset (header b) > nextOffset l
         then e = Some (ErrReplicaGap (BaseOffset (header b)) (nextOffset l)) \<and> l' = l
       else e = None \<and> log_batches l' = log_batches l @ [b] \<and> nextOffset l' = nextOffset l + span b)"
proof -
  have "snd (ParseHeader b) = None" using assms(2) by (simp add: wf_records_def wf_batch_def)
  then obtain h where p: "ParseHeader b = (h, None)" by (metis prod.collapse)
  show ?thesis
  proof (cases "BaseOffset (header b) = nextOffset l")
    case True
    from AppendReplica_next [OF assms(1,2) True assms(3) [OF True]] True show ?thesis by auto
  next
    case False
    with assms(1) p show ?thesis by (auto simp: AppendReplica_def)
  qed
qed

section \<open>Reading\<close>

lemma sealed_ok_nth:
  "sealed_ok d ss n \<Longrightarrow> k < length ss \<Longrightarrow>
    seg_ok d (ss ! k) (if Suc k < length ss then baseOffset (ss ! Suc k) else n)"
proof (induction ss arbitrary: k)
  case (Cons s ss)
  show ?case
  proof (cases k)
    case 0
    with Cons.prems show ?thesis by (cases ss) auto
  next
    case (Suc j)
    with Cons.IH [of j] Cons.prems show ?thesis by (auto split: if_splits)
  qed
qed simp

lemma log_inv_nth:
  assumes inv: "log_inv l" and k: "k < length (segments l)"
  shows "seg_ok (disk l) (segments l ! k)
    (if Suc k < length (segments l) then baseOffset (segments l ! Suc k) else nextOffset l)"
proof (cases "Suc k < length (segments l)")
  case True
  have "(if Suc k < length (butlast (segments l)) then baseOffset (butlast (segments l) ! Suc k)
      else baseOffset (active l)) = baseOffset (segments l ! Suc k)"
  proof (cases "Suc k < length (butlast (segments l))")
    case False
    with True have "Suc k = length (segments l) - 1" by simp
    with log_invD(1) [OF inv] False show ?thesis by (simp add: last_conv_nth)
  qed (simp add: nth_butlast)
  with sealed_ok_nth [OF log_invD(2) [OF inv], of k] True show ?thesis by (simp add: nth_butlast)
next
  case False
  with k log_invD(1) [OF inv] have "segments l ! k = active l"
    by (simp add: last_conv_nth) (metis One_nat_def Suc_lessI diff_Suc_1)
  with False log_invD(3) [OF inv] show ?thesis by simp
qed

lemma segmentFor_ok:
  assumes inv: "log_inv l" and "EarliestOffset l \<le> off" and "off < nextOffset l"
  obtains k n where "k < length (segments l)" "segmentFor l off = segments l ! k"
    "seg_ok (disk l) (segments l ! k) n" "baseOffset (segments l ! k) \<le> off" "off < n"
proof -
  let ?ss = "segments l"
  define f where "f i \<longleftrightarrow> baseOffset (?ss ! i) > off" for i
  define i where "i = go_search (length ?ss) f"
  have sorted: "baseOffset (?ss ! a) \<le> baseOffset (?ss ! b)" if "a \<le> b" "b < length ?ss" for a b
    using sorted_wrt_nth_less [OF log_inv_bases(1) [OF inv], of a b] that by (cases "a = b") auto
  have "mono_pred (length ?ss) f" using sorted by (force simp: mono_pred_def f_def)
  from go_search_spec [OF this] have i: "i \<le> length ?ss" "\<forall>j<i. \<not> f j" "i < length ?ss \<longrightarrow> f i"
    by (auto simp: i_def)
  have pos: "0 < i"
    using assms(2) i(3) log_invD(1) [OF inv] by (cases i) (auto simp: f_def EarliestOffset_def)
  then have k: "i - 1 < length ?ss" "Suc (i - 1) = i" using i(1) by auto
  show ?thesis
  proof (rule that [OF k(1)])
    show "segmentFor l off = ?ss ! (i - 1)"
      using pos by (simp add: segmentFor_def f_def [abs_def, symmetric] i_def [symmetric])
    show "seg_ok (disk l) (?ss ! (i - 1)) (if i < length ?ss then baseOffset (?ss ! i) else nextOffset l)"
      using log_inv_nth [OF inv k(1)] unfolding k(2) .
    show "baseOffset (?ss ! (i - 1)) \<le> off" using i(2) pos by (simp add: f_def not_less)
    show "off < (if i < length ?ss then baseOffset (?ss ! i) else nextOffset l)"
      using i(3) assms(3) by (simp add: f_def)
  qed
qed

lemma read_post_context: "read_post bs want maxb out \<Longrightarrow> read_post (us @ bs @ vs) want maxb out"
proof -
  assume "read_post bs want maxb out"
  then obtain pre b more post where "bs = pre @ b # more @ post" "out = concat (b # more)"
    "BaseOffset (header b) \<le> want" "want \<le> LastOffset (header b)" "more \<noteq> [] \<longrightarrow> int (length out) \<le> maxb"
    by (auto simp: read_post_def)
  then show ?thesis
    unfolding read_post_def
    by (intro exI [where x = "us @ pre"] exI [where x = b] exI [where x = more] exI [where x = "post @ vs"]) simp
qed

lemma Read_ok:
  assumes inv: "log_inv l" and "EarliestOffset l \<le> off" and "off < nextOffset l"
  shows "\<exists>out. Read l off maxb = Some (Ret (out, None)) \<and> read_post (log_batches l) off maxb out"
proof -
  let ?ss = "segments l" and ?f = "seg_batches (disk l)"
  from segmentFor_ok [OF assms] obtain k n where k: "k < length ?ss" "segmentFor l off = ?ss ! k"
    "seg_ok (disk l) (?ss ! k) n" "baseOffset (?ss ! k) \<le> off" "off < n" .
  from readBatchesFrom_ok [OF k(3,4,5)] obtain out where
    out: "readBatchesFrom (disk l) (?ss ! k) off maxb = Some (Ret (out, None))" "read_post (?f (?ss ! k)) off maxb out"
    by blast
  have "log_batches l = concat (map ?f (take k ?ss)) @ ?f (?ss ! k) @ concat (map ?f (drop (Suc k) ?ss))"
    unfolding log_batches_def by (subst id_take_nth_drop [OF k(1)]) simp
  with read_post_context [OF out(2)] have "read_post (log_batches l) off maxb out" by simp
  moreover have "Read l off maxb = Some (Ret (out, None))"
    using assms(2,3) k(2) out(1) by (simp add: Read_def EarliestOffset_def)
  ultimately show ?thesis by blast
qed


section \<open>Recovery\<close>

text \<open>A tail that recovery stops at: torn, and with a length field that does not overflow the
  \<open>int32\<close> position.\<close>

definition torn_at :: "nat \<Rightarrow> bytes \<Rightarrow> bool" where
  "torn_at p t \<longleftrightarrow> torn t \<and> (snd (ParseHeader t) = None \<longrightarrow>
     in_i32 (TotalSize (header t)) \<and> int p + TotalSize (header t) < 2 ^ 31)"

lemma recover_loop_torn:
  assumes "f = pre @ t" and "torn_at (length pre) t" and "logSize s = int (length f)" and "length f < 2 ^ 31"
  shows "recover_loop f s (int (length pre)) nxt = Some (Inr (int (length pre), nxt, s))"
proof (cases "length t < HeaderSize")
  case True
  then show ?thesis
    using assms(1,3,4) by (subst recover_loop.simps) (auto simp: i32_id in_i32_def)
next
  case False
  then have len: "HeaderSize \<le> length t" by simp
  have read: "read_at f (int (length pre)) HeaderSize = Inr (take HeaderSize t)"
    using read_at_slice [OF refl len, of pre] by (simp add: assms(1))
  have hdr: "ParseHeader (take HeaderSize t) = ParseHeader t" using len by (simp add: ParseHeader_take)
  have rem: "i32 (logSize s - int (length pre)) = int (length t)"
    using assms(1,3,4) by (simp add: i32_id in_i32_def)
  have big: "i32 (int (length pre) + i32 (TotalSize (header t))) > logSize s" if "snd (ParseHeader t) = None"
  proof -
    have "in_i32 (TotalSize (header t))" "int (length pre) + TotalSize (header t) < 2 ^ 31"
      "TotalSize (header t) > int (length t)"
      using assms(2) that len by (auto simp: torn_at_def torn_def HeaderSize_def)
    then have "i32 (int (length pre) + i32 (TotalSize (header t))) = int (length pre) + TotalSize (header t)"
      by (simp add: i32_id in_i32_def)
    with \<open>TotalSize (header t) > int (length t)\<close> assms(1,3) show ?thesis by simp
  qed
  have lt: "int (length pre) < logSize s" using len assms(1,3) by (auto simp: HeaderSize_def)
  have nl: "\<not> int (length t) < int HeaderSize" using len by simp
  show ?thesis
    using big lt nl
    by (subst recover_loop.simps)
      (simp add: rem read hdr case_prod_beta Let_def split: option.splits)
qed

lemma recover_loop_step:
  assumes b: "wf_records b" and f: "f = pre @ b @ post" and size: "logSize s = int (length f)" "length f < 2 ^ 31"
    and rel: "in_i32 (BaseOffset (header b) - baseOffset s)"
    and last: "i64 (LastOffset (header b) + 1) = n"
  shows "\<exists>idx x. recover_loop f s (int (length pre)) nxt =
      recover_loop f (s\<lparr>index := index s @ idx, bytesSinceIdx := x\<rparr>) (int (length (pre @ b))) n
    \<and> (idx = [] \<or> idx = [\<lparr>relOffset = BaseOffset (header b) - baseOffset s, position = int (length pre)\<rparr>])"
proof -
  have wf: "wf_batch b" and len: "HeaderSize \<le> length b" using b by (simp_all add: wf_batch_size)
  have read: "read_at f (int (length pre)) HeaderSize = Inr (take HeaderSize b)"
    using len read_at_slice [OF refl, of HeaderSize "b @ post" pre] by (simp add: f)
  have hdr: "ParseHeader (take HeaderSize b) = (header b, None)"
    using wf len wf_batch_ParseHeader [OF wf, of "[]"] by (simp add: ParseHeader_take)
  have num: "i32 (TotalSize (header b)) = int (length b)"
    "i32 (int (length pre) + int (length b)) = int (length pre) + int (length b)"
    "i32 (logSize s - int (length pre)) = int (length b + length post)"
    using size wf f by (simp_all add: i32_id in_i32_def wf_batch_TotalSize)
  have lt: "int (length pre) < logSize s" "\<not> logSize s < int (length pre) + int (length b)"
    using len size f by (simp_all add: HeaderSize_def)
  have nl: "\<not> int (length b + length post) < int HeaderSize" using len by simp
  let ?new = "length (index s) = 0 \<or> bytesSinceIdx s \<ge> indexInterval s"
  let ?e = "\<lparr>relOffset = BaseOffset (header b) - baseOffset s, position = int (length pre)\<rparr>"
  have "recover_loop f s (int (length pre)) nxt =
      recover_loop f (s\<lparr>index := index s @ (if ?new then [?e] else []),
         bytesSinceIdx := i32 ((if ?new then 0 else bytesSinceIdx s) + int (length b))\<rparr>) (int (length (pre @ b))) n"
    using lt nl by (subst recover_loop.simps) (simp add: read hdr num last i32_id [OF rel] Let_def)
  then show ?thesis by - (rule exI, rule exI, rule conjI, assumption, simp)
qed

lemma recover_loop_run:
  assumes "batch_run q bs n" and "torn_at (length (pre @ concat bs)) t" and "f = pre @ concat bs @ t"
    and "logSize s = int (length f)" and "length f < 2 ^ 31"
    and "0 \<le> q" and "n < 2 ^ 63" and "baseOffset s \<le> q" and "n - baseOffset s \<le> 2 ^ 31"
  shows "\<exists>idx x. recover_loop f s (int (length pre)) nxt =
      Some (Inr (int (length (pre @ concat bs)), if bs = [] then nxt else n, s\<lparr>index := index s @ idx, bytesSinceIdx := x\<rparr>))
    \<and> subseq idx (starts (baseOffset s) (length pre) bs)"
  using assms
proof (induction bs arbitrary: q pre s nxt)
  case Nil
  have "recover_loop f s (int (length pre)) nxt = Some (Inr (int (length pre), nxt, s))"
    using Nil by (intro recover_loop_torn [of f pre t]) simp_all
  then show ?case by (intro exI [where x = "[]"] exI [where x = "bytesSinceIdx s"]) simp
next
  case (Cons b bs)
  then have b: "wf_records b" "BaseOffset (header b) = q" and run: "batch_run (q + span b) bs n" by auto
  have le: "q + span b \<le> n" using run by (rule batch_run_le)
  have lo: "LastOffset (header b) = q + span b - 1"
    using LastOffset_run [OF b(1,2)] Cons.prems le by simp
  have "\<exists>idx x. recover_loop f s (int (length pre)) nxt =
      recover_loop f (s\<lparr>index := index s @ idx, bytesSinceIdx := x\<rparr>) (int (length (pre @ b))) (q + span b)
    \<and> (idx = [] \<or> idx = [\<lparr>relOffset = BaseOffset (header b) - baseOffset s, position = int (length pre)\<rparr>])"
    using Cons.prems le lo span_pos [OF b(1)] b(2)
    by (intro recover_loop_step [OF b(1)]) (auto simp: in_i32_def in_i64_def intro!: i64_id)
  then obtain idx1 x1 where step: "recover_loop f s (int (length pre)) nxt =
      recover_loop f (s\<lparr>index := index s @ idx1, bytesSinceIdx := x1\<rparr>) (int (length (pre @ b))) (q + span b)"
    and idx1: "idx1 = [] \<or> idx1 = [\<lparr>relOffset = BaseOffset (header b) - baseOffset s, position = int (length pre)\<rparr>]"
    by blast
  have "\<exists>idx x. recover_loop f (s\<lparr>index := index s @ idx1, bytesSinceIdx := x1\<rparr>) (int (length (pre @ b))) (q + span b) =
      Some (Inr (int (length ((pre @ b) @ concat bs)), if bs = [] then q + span b else n,
        s\<lparr>index := index s @ idx1, bytesSinceIdx := x1\<rparr>\<lparr>index := index (s\<lparr>index := index s @ idx1, bytesSinceIdx := x1\<rparr>) @ idx, bytesSinceIdx := x\<rparr>))
    \<and> subseq idx (starts (baseOffset (s\<lparr>index := index s @ idx1, bytesSinceIdx := x1\<rparr>)) (length (pre @ b)) bs)"
    using Cons.prems run span_pos [OF b(1)]
    by (intro Cons.IH [where q = "q + span b" and pre = "pre @ b"]) auto
  then obtain idx2 x2 where "recover_loop f s (int (length pre)) nxt =
      Some (Inr (int (length ((pre @ b) @ concat bs)), if bs = [] then q + span b else n,
        s\<lparr>index := index s @ idx1 @ idx2, bytesSinceIdx := x2\<rparr>))"
    and idx2: "subseq idx2 (starts (baseOffset s) (length (pre @ b)) bs)"
    unfolding step by auto
  moreover have "subseq (idx1 @ idx2) (starts (baseOffset s) (length pre) (b # bs))"
    using idx1 idx2 by auto
  moreover have "(if bs = [] then q + span b else n) = n" using run by (cases bs) auto
  ultimately show ?case
    by (intro exI [where x = "idx1 @ idx2"] exI [where x = x2]) simp
qed

lemma recoverActive_ok:
  assumes cont: "fget d (logPath (baseOffset s)) = Some (concat bs @ t)" "torn_at (length (concat bs)) t"
    and size: "logSize s = int (length (concat bs @ t))" "length (concat bs @ t) < 2 ^ 31"
    and run: "batch_run (baseOffset s) bs n" "0 \<le> baseOffset s" "n < 2 ^ 63" "n - baseOffset s \<le> 2 ^ 31"
    and dist: "distinct (map fst d)"
  obtains d' s' where "recoverActive d s = Some (Inr (n, d', s'))" "seg_ok d' s' n" "seg_batches d' s' = bs"
    "idx_at_end s'" "baseOffset s' = baseOffset s"
    "\<And>name. name \<noteq> logPath (baseOffset s) \<Longrightarrow> name \<noteq> indexPath (baseOffset s) \<Longrightarrow> fget d' name = fget d name"
    "listSegmentBases d' = listSegmentBases d" "distinct (map fst d')"
proof -
  let ?f = "concat bs @ t" and ?lp = "logPath (baseOffset s)" and ?ip = "indexPath (baseOffset s)"
  define s0 where "s0 = s\<lparr>index := [], bytesSinceIdx := 0\<rparr>"
  have "\<exists>idx x. recover_loop ?f s0 (int (length ([] :: bytes))) 0 =
      Some (Inr (int (length ([] @ concat bs)), if bs = [] then 0 else n, s0\<lparr>index := index s0 @ idx, bytesSinceIdx := x\<rparr>))
    \<and> subseq idx (starts (baseOffset s0) (length ([] :: bytes)) bs)"
    using assms by (intro recover_loop_run [where q = "baseOffset s"]) (auto simp: s0_def)
  then obtain idx x where loop: "recover_loop ?f s0 0 0 = Some (Inr (int (length (concat bs)), if bs = [] then 0 else n,
      s0\<lparr>index := idx, bytesSinceIdx := x\<rparr>))" and idx: "subseq idx (starts (baseOffset s) 0 bs)"
    by (auto simp: s0_def)
  define s' where "s' = s\<lparr>index := idx, bytesSinceIdx := x, logSize := int (length (concat bs)), idxOff := 8 * length idx\<rparr>"
  define d2 where "d2 = (if t = [] then d else fput d ?lp (concat bs))"
  define d' where "d' = fput d2 ?ip (concat (map encodeIndexEntry idx))"
  have nxt: "(bs = [] \<longrightarrow> baseOffset s = n) \<and> (bs \<noteq> [] \<longrightarrow> n \<noteq> 0)"
    using run(1,2) batch_run_less [OF run(1)] by (cases "bs = []") auto
  have trunc: "truncate_to ?f (length (concat bs)) = concat bs" by (simp add: truncate_to_def)
  have d2: "fget d2 ?lp = Some (concat bs)" using cont(1) by (simp add: d2_def)
  have rec: "recoverActive d s = Some (Inr (n, d', s'))"
    using nxt size(1) unfolding recoverActive_def Let_def fcontent_Some [OF cont(1)] s0_def [symmetric] loop
    by (simp add: rewriteIndex_def trunc d'_def d2_def s'_def s0_def)
  show ?thesis
  proof (rule that [OF rec])
    have "0 \<le> length t" by simp
    with size(2) have "length (concat bs) < 2 ^ 31" by simp
    then show "seg_ok d' s' n" "seg_batches d' s' = bs"
      using seg_okI [of d' s' bs n] run idx d2 by (simp_all add: s'_def d'_def)
    show "idx_at_end s'" "baseOffset s' = baseOffset s" by (simp_all add: s'_def idx_at_end_def indexEntrySize_def)
    show "fget d' name = fget d name" if "name \<noteq> ?lp" "name \<noteq> ?ip" for name
      using that by (simp add: d'_def d2_def)
    show "listSegmentBases d' = listSegmentBases d" "distinct (map fst d')"
      using cont(1) dist by (simp_all add: d'_def d2_def list_fput_existing distinct_update)
  qed
qed

text \<open>Opening a sealed segment reads its index back.\<close>

definition reopened :: "int \<Rightarrow> segment \<Rightarrow> segment" where
  "reopened interval s = s\<lparr>idxOff := 0, bytesSinceIdx := 0, indexInterval := interval\<rparr>"

lemma seg_ok_reopened [simp]: "seg_ok d (reopened i s) n = seg_ok d s n"
  "seg_batches d (reopened i s) = seg_batches d s" "baseOffset (reopened i s) = baseOffset s"
  by (simp_all add: reopened_def seg_ok_def seg_batches_def)

lemma sealed_ok_reopened: "sealed_ok d (map (reopened i) ss) n = sealed_ok d ss n"
proof (induction ss)
  case (Cons s ss)
  then show ?case by (cases ss) simp_all
qed simp

lemma index_entries_ok:
  assumes ok: "seg_ok d s n"
  shows "list_all entry_ok (index s)"
proof -
  have "entry_ok e" if "e \<in> set (index s)" for e
  proof -
    have "e \<in> set (starts (baseOffset s) 0 (seg_batches d s))"
      using that list_emb_set [OF seg_okD(9) [OF ok]] by auto
    then obtain pre b post where e: "seg_batches d s = pre @ b # post"
      "position e = int (length (concat pre))" "relOffset e = BaseOffset (header b) - baseOffset s"
      using starts_mem by fastforce
    obtain m where run: "batch_run (baseOffset s) pre m" "batch_run m (b # post) n"
      using seg_okD(4) [OF ok] unfolding e(1) batch_run_append by blast
    have "m < n" "baseOffset s \<le> m" "BaseOffset (header b) = m"
      using batch_run_less [OF run(2)] batch_run_le [OF run(1)] run(2) by simp_all
    moreover have "int (length (concat pre)) \<le> logSize s" using seg_okD(2) [OF ok] by (simp add: e(1))
    ultimately show ?thesis
      using e seg_okD(3,7) [OF ok] by (simp add: entry_ok_def in_i32_def)
  qed
  then show ?thesis by (simp add: list_all_iff)
qed

lemma openSegment_sealed:
  assumes ok: "seg_ok d s n"
  shows "openSegment d (baseOffset s) i = Inr (d, reopened i s)"
proof -
  have "decodeIndexEntries (concat (map encodeIndexEntry (index s))) = index s"
    using decode_encode_entries [OF index_entries_ok [OF ok], of "[]"] by (simp add: indexEntrySize_def)
  moreover have "i32 (int (length (concat (seg_batches d s)))) = logSize s"
    using seg_okD(2,3) [OF ok] by (simp add: i32_id in_i32_def)
  ultimately show ?thesis
    using seg_okD(1,8) [OF ok] by (simp add: openSegment_def reopened_def)
qed

lemma open_sealed:
  assumes "sealed_ok d ss n"
  shows "open_segments d i (map baseOffset ss @ bases) =
    (case open_segments d i bases of Inl e \<Rightarrow> Inl e | Inr (d', ss') \<Rightarrow> Inr (d', map (reopened i) ss @ ss'))"
  using assms
proof (induction ss)
  case (Cons s ss)
  then show ?case
    by (auto simp: openSegment_sealed split: sum.splits)
qed (auto split: sum.splits)

text \<open>A crash leaves the sealed segments intact and cuts the active file at an arbitrary byte; its
  index file may hold anything. The batches that survive are those whole before the cut.\<close>

definition crash_disk :: "Log \<Rightarrow> nat \<Rightarrow> bytes \<Rightarrow> dir" where
  "crash_disk l cutoff junk =
     (let base = baseOffset (active l)
      in fput (fput (disk l) (logPath base) (take cutoff (fcontent (disk l) (logPath base)))) (indexPath base) junk)"

fun whole_batches :: "nat \<Rightarrow> bytes list \<Rightarrow> bytes list" where
  "whole_batches cutoff [] = []"
| "whole_batches cutoff (b # bs) = (if length b \<le> cutoff then b # whole_batches (cutoff - length b) bs else [])"

lemma whole_batches_prefix: "prefix (whole_batches cutoff bs) bs"
  by (induction bs arbitrary: cutoff) auto

lemma take_concat_whole:
  assumes "list_all wf_batch bs" and "p + length (concat bs) < 2 ^ 31"
  shows "\<exists>t. take cutoff (concat bs) = concat (whole_batches cutoff bs) @ t
    \<and> torn_at (p + length (concat (whole_batches cutoff bs))) t"
  using assms
proof (induction bs arbitrary: cutoff p)
  case Nil
  then show ?case by (simp add: torn_at_def torn_def ParseHeader_short HeaderSize_def)
next
  case (Cons b bs)
  show ?case
  proof (cases "length b \<le> cutoff")
    case True
    from Cons.IH [of "p + length b" "cutoff - length b"] Cons.prems obtain t where
      "take (cutoff - length b) (concat bs) = concat (whole_batches (cutoff - length b) bs) @ t"
      "torn_at (p + length b + length (concat (whole_batches (cutoff - length b) bs))) t"
      by auto
    with True show ?thesis by (intro exI [where x = t]) (simp add: add.assoc)
  next
    case False
    have b: "wf_batch b" using Cons.prems by simp
    have "torn (take cutoff b)" using torn_prefix [OF b] False by simp
    moreover have "in_i32 (TotalSize (header (take cutoff b))) \<and> int p + TotalSize (header (take cutoff b)) < 2 ^ 31"
      if "snd (ParseHeader (take cutoff b)) = None"
    proof -
      have "HeaderSize \<le> cutoff" using that by (metis ParseHeader_error length_take min.bounded_iff)
      then have "ParseHeader (take cutoff b) = ParseHeader b"
        using wf_batch_size(1) [OF b] by (intro ParseHeader_take)
      then show ?thesis using Cons.prems by (simp add: wf_batch_TotalSize [OF b] in_i32_def)
    qed
    ultimately show ?thesis using False by (simp add: torn_at_def)
  qed
qed

lemma batch_run_prefix: "batch_run o' bs n \<Longrightarrow> prefix cs bs \<Longrightarrow> \<exists>m\<le>n. batch_run o' cs m"
  by (metis batch_run_append batch_run_le prefix_def)

lemma Open_crash:
  assumes inv: "log_inv l"
  shows "\<exists>l'. Open (crash_disk l cutoff junk) c = Some (Inr l') \<and> log_inv l'
    \<and> log_batches l' = concat (map (seg_batches (disk l)) (butlast (segments l)))
        @ whole_batches cutoff (seg_batches (disk l) (active l))
    \<and> nextOffset l' \<le> nextOffset l \<and> highWatermark l' = nextOffset l' \<and> cfg l' = c \<and> \<not> holdHWM l'"
proof -
  let ?a = "active l" and ?init = "butlast (segments l)" and ?i = "IndexIntervalBytes c"
  let ?lp = "logPath (baseOffset ?a)" and ?ip = "indexPath (baseOffset ?a)"
  let ?bs = "seg_batches (disk l) ?a"
  define d where "d = crash_disk l cutoff junk"
  define bs where "bs = whole_batches cutoff ?bs"
  note act = log_invD(3) [OF inv]
  obtain t where t: "take cutoff (concat ?bs) = concat bs @ t" "torn_at (length (concat bs)) t"
    using take_concat_whole [OF batch_run_wf [OF seg_okD(4) [OF act]], of 0 cutoff] seg_okD(2,3) [OF act]
    by (auto simp: bs_def)
  obtain n where n: "n \<le> nextOffset l" "batch_run (baseOffset ?a) bs n"
    using batch_run_prefix [OF seg_okD(4) [OF act] whole_batches_prefix] unfolding bs_def by blast
  have d: "d = fput (fput (disk l) ?lp (concat bs @ t)) ?ip junk"
    using seg_okD(1) [OF act] t(1) by (simp add: d_def crash_disk_def Let_def)
  then have files: "fget d ?lp = Some (concat bs @ t)" "fget d ?ip = Some junk" by simp_all
  have bases: "listSegmentBases d = map baseOffset ?init @ [baseOffset ?a]"
    using log_invD(1,6) [OF inv] seg_okD(1) [OF act]
    by (simp add: d list_fput_existing) (metis append_butlast_last_id map_append list.simps(8,9))
  have lt: "baseOffset s < baseOffset ?a \<and> in_i64 (baseOffset s)" if "s \<in> set ?init" for s
    using that sealed_ok_bases [OF log_invD(2) [OF inv]] log_inv_bases(2) [OF inv] in_set_butlastD [OF that] by auto
  have names: "logPath (baseOffset s) \<noteq> ?lp \<and> indexPath (baseOffset s) \<noteq> ?ip" if "s \<in> set ?init" for s
    using lt [OF that] seg_ok_base [OF act] by (simp add: logPath_inj indexPath_inj)
  have "sealed_ok d ?init (baseOffset ?a)"
    using log_invD(2) [OF inv] names by (subst sealed_ok_frame(1) [where d = "disk l"]) (auto simp: d)
  from open_sealed [OF this, of ?i "[baseOffset ?a]"] obtain s where
    opn: "open_segments d ?i (listSegmentBases d) = Inr (d, map (reopened ?i) ?init @ [s])"
    and s: "baseOffset s = baseOffset ?a" "logSize s = i32 (int (length (concat bs @ t)))"
    unfolding bases by (simp add: openSegment_def files Let_def)
  have len: "length (concat bs @ t) \<le> length (concat ?bs)" by (simp add: t(1) [symmetric])
  from recoverActive_ok [of d s bs t n] obtain d' s' where
    rec: "recoverActive d s = Some (Inr (n, d', s'))" and s': "seg_ok d' s' n" "seg_batches d' s' = bs"
      "idx_at_end s'" "baseOffset s' = baseOffset ?a"
    and other: "\<And>name. name \<noteq> ?lp \<Longrightarrow> name \<noteq> ?ip \<Longrightarrow> fget d' name = fget d name"
    and keys: "listSegmentBases d' = listSegmentBases d" "distinct (map fst d')"
    using files(1) t(2) len n seg_okD(2,3,5,6,7) [OF act] log_invD(5) [OF inv]
    by (auto simp: s d distinct_update i32_id in_i32_def)
  have frame: "fget d' (logPath (baseOffset x)) = fget (disk l) (logPath (baseOffset x))
      \<and> fget d' (indexPath (baseOffset x)) = fget (disk l) (indexPath (baseOffset x))" if "x \<in> set ?init" for x
    using names [OF that] other by (simp add: d)
  define l' where "l' = \<lparr>disk = d', cfg = c, segments = map (reopened ?i) ?init @ [s'], nextOffset = n,
    highWatermark = n, holdHWM = False, dirty = False\<rparr>"
  have "Open d c = Some (Inr l')"
    using opn rec bases by (simp add: Open_def l'_def)
  moreover have "log_inv l'"
    using s' keys bases log_invD(2) [OF inv] sealed_ok_frame(1) [of ?init, OF frame]
    by (simp add: log_inv_def l'_def sealed_ok_reopened comp_def)
  moreover have "log_batches l' = concat (map (seg_batches (disk l)) ?init) @ bs"
    using s'(2) sealed_ok_frame(2) [of ?init, OF frame] by (simp add: log_batches_def l'_def comp_def cong: map_cong)
  ultimately show ?thesis using n(1) by (auto simp: d_def [symmetric] bs_def [symmetric] l'_def)
qed

text \<open>C8: opening the directory of a log after a crash that cut the active file at any byte, with
  any contents left in its index file, succeeds: every sealed batch and every batch of the active
  segment that is whole before the cut is recovered, in order and nothing else, and the recovered
  log is well-formed (its index rebuilt) and fully committed. A clean restart is the case where
  the cut is past the end.\<close>

theorem Open_recovers:
  assumes "log_inv l"
  shows "\<exists>l'. Open (crash_disk l cutoff junk) c = Some (Inr l') \<and> log_inv l'
    \<and> log_batches l' = concat (map (seg_batches (disk l)) (butlast (segments l)))
        @ whole_batches cutoff (seg_batches (disk l) (active l))
    \<and> nextOffset l' \<le> nextOffset l \<and> highWatermark l' = nextOffset l' \<and> cfg l' = c \<and> \<not> holdHWM l'"
  using assms by (rule Open_crash)

section \<open>Retention\<close>

lemma map_filter_append: "List.map_filter f (xs @ ys) = List.map_filter f xs @ List.map_filter f ys"
  by (simp add: List.map_filter_def)

lemma list_fdel_index [simp]: "listSegmentBases (fdel d (indexPath b)) = listSegmentBases d"
proof -
  have "List.map_filter segment_base (removeAll (indexPath b) xs) = List.map_filter segment_base xs" for xs
    by (induction xs) (auto simp: List.map_filter_simps split: option.splits)
  then show ?thesis by (simp add: listSegmentBases_def delete_keys)
qed

lemma list_fdel_log:
  assumes "distinct (map fst d)" and "in_i64 b" and "fget d (logPath b) \<noteq> None"
    and "listSegmentBases d = b # bases"
  shows "listSegmentBases (fdel d (logPath b)) = bases"
proof -
  have "logPath b \<in> set (map fst d)" using assms(3) by (simp add: map_of_eq_None_iff)
  then obtain us vs where split: "map fst d = us @ logPath b # vs" by (meson split_list)
  have "distinct (us @ logPath b # vs)" using assms(1) by (simp only: split)
  then have del: "map fst (fdel d (logPath b)) = us @ vs"
    unfolding delete_keys split by simp
  let ?f = "List.map_filter segment_base"
  have "mset (?f (map fst d)) = mset (b # bases)"
    using assms(4) by (metis listSegmentBases_def mset_sort)
  moreover have "?f (map fst d) = ?f us @ b # ?f vs"
    using assms(2) by (simp add: split map_filter_append List.map_filter_simps)
  ultimately have "mset bases = mset (?f (us @ vs))" by (simp add: map_filter_append)
  moreover have "sorted bases" using assms(4) by (metis listSegmentBases_def sorted_simps(2) sorted_sort)
  ultimately show ?thesis by (simp add: listSegmentBases_def del properties_for_sort)
qed

text \<open>The part of the invariant that retention touches.\<close>

definition segs_inv :: "dir \<Rightarrow> segment list \<Rightarrow> int \<Rightarrow> bool" where
  "segs_inv d ss n \<longleftrightarrow> ss \<noteq> [] \<and> sealed_ok d (butlast ss) (baseOffset (last ss)) \<and> seg_ok d (last ss) n
     \<and> distinct (map fst d) \<and> listSegmentBases d = map baseOffset ss"

lemma segs_inv_ok: "segs_inv d ss n \<Longrightarrow> s \<in> set ss \<Longrightarrow> \<exists>m. seg_ok d s m"
proof -
  assume inv: "segs_inv d ss n" and s: "s \<in> set ss"
  have "\<exists>m. seg_ok d s m" if "sealed_ok d xs k" "s \<in> set xs" for xs k
    using that by (induction xs) auto
  moreover have "s \<in> set (butlast ss) \<or> s = last ss" using s by (rule in_butlast_or_last)
  ultimately show ?thesis using inv by (auto simp: segs_inv_def)
qed

lemma retention_step:
  assumes inv: "segs_inv d (s # rest) n" and ne: "rest \<noteq> []"
    and d': "d' = fdel (fdel d (logPath (baseOffset s))) (indexPath (baseOffset s))"
  shows "segs_inv d' rest n" "\<forall>x \<in> set rest. seg_batches d' x = seg_batches d x"
proof -
  have sealed: "sealed_ok d (s # butlast rest) (baseOffset (last rest))" and last: "seg_ok d (last rest) n"
    and dir: "distinct (map fst d)" "listSegmentBases d = baseOffset s # map baseOffset rest"
    using inv ne by (simp_all add: segs_inv_def)
  obtain m where s: "seg_ok d s m" using segs_inv_ok [OF inv, of s] by auto
  have lt: "baseOffset s < baseOffset x" if "x \<in> set rest" for x
    using in_butlast_or_last [OF that] sealed_ok_bases [OF sealed] by auto
  have frame: "fget d' (logPath (baseOffset x)) = fget d (logPath (baseOffset x))
      \<and> fget d' (indexPath (baseOffset x)) = fget d (indexPath (baseOffset x))" if x: "x \<in> set rest" for x
  proof -
    obtain m' where "seg_ok d x m'" using segs_inv_ok [OF inv, of x] x by auto
    then show ?thesis using lt [OF x] seg_ok_base [OF s]
      by (simp add: d' fget_fdel logPath_inj indexPath_inj seg_ok_base)
  qed
  have "sealed_ok d' (butlast rest) (baseOffset (last rest))"
    using sealed_ok_frame(1) [of "butlast rest", OF frame [OF in_set_butlastD]] sealed by simp
  moreover have "seg_ok d' (last rest) n"
    using seg_ok_frame(1) [of d' "last rest" d n] frame [OF last_in_set [OF ne]] last by simp
  moreover have "listSegmentBases d' = map baseOffset rest" "distinct (map fst d')"
    using list_fdel_log [OF dir(1) seg_ok_base [OF s] _ dir(2)] seg_okD(1) [OF s] dir(1)
    by (simp_all add: d' distinct_delete)
  ultimately show "segs_inv d' rest n" using ne by (simp add: segs_inv_def)
  show "\<forall>x \<in> set rest. seg_batches d' x = seg_batches d x"
    using frame seg_ok_frame(2) [of d' _ d] by simp
qed

lemma retention_loop_ok:
  assumes "retention_loop expired maxb d total' ss = (d', ss')" and "segs_inv d ss n"
  shows "segs_inv d' ss' n \<and> (\<exists>k. ss' = drop k ss) \<and> last ss' = last ss
    \<and> map (seg_batches d') ss' = map (seg_batches d) ss'"
  using assms
proof (induction expired maxb d total' ss rule: retention_loop.induct)
  case (1 expired maxb d total' s s2 ss)
  show ?case
  proof (cases "\<not> expired s \<and> \<not> (maxb > 0 \<and> total' > maxb)")
    case True
    with 1 show ?thesis by (auto intro: exI [of _ 0])
  next
    case False
    define d1 where "d1 = fdel (fdel d (logPath (baseOffset s))) (indexPath (baseOffset s))"
    have step: "segs_inv d1 (s2 # ss) n" "\<forall>x \<in> set (s2 # ss). seg_batches d1 x = seg_batches d x"
      using retention_step [OF "1.prems"(2) _ d1_def] by simp_all
    have "retention_loop expired maxb d1 (i64 (total' - logSize s)) (s2 # ss) = (d', ss')"
      using "1.prems"(1) False unfolding d1_def by (simp split: if_splits)
    from "1.IH" [OF False [unfolded d1_def [symmetric]] this [unfolded d1_def] step(1) [unfolded d1_def]]
    obtain k where k: "segs_inv d' ss' n" "ss' = drop k (s2 # ss)" "last ss' = last (s2 # ss)"
      "map (seg_batches d') ss' = map (seg_batches d1) ss'"
      by (auto simp: d1_def)
    have "map (seg_batches d1) ss' = map (seg_batches d) ss'"
      using step(2) set_drop_subset [of k "s2 # ss"] k(2) by auto
    with k show ?thesis by (auto intro: exI [of _ "Suc k"])
  qed
qed (auto intro: exI [of _ 0])

lemma EnforceRetention_ok:
  assumes inv: "log_inv l" and l': "l' = EnforceRetention l now mtime maxAge maxb"
  shows "log_inv l' \<and> suffix (log_batches l') (log_batches l) \<and> active l' = active l
    \<and> nextOffset l' = nextOffset l \<and> highWatermark l' = highWatermark l"
proof (cases "length (segments l) \<le> 1")
  case True
  with inv l' show ?thesis by (simp add: EnforceRetention_def)
next
  case False
  then obtain expired d ss where r: "retention_loop expired maxb (disk l) (Size l) (segments l) = (d, ss)"
    and l1: "l' = l\<lparr>disk := d, segments := ss\<rparr>"
    using l' by (simp add: EnforceRetention_def Let_def split: prod.splits)
  have "segs_inv (disk l) (segments l) (nextOffset l)" using log_invD [OF inv] by (simp add: segs_inv_def)
  from retention_loop_ok [OF r this] obtain k where
    k: "segs_inv d ss (nextOffset l)" "ss = drop k (segments l)" "last ss = active l"
      "map (seg_batches d) ss = map (seg_batches (disk l)) ss"
    by blast
  have "log_inv l'" using k(1,3) log_invD(4,7) [OF inv] by (simp add: log_inv_def segs_inv_def l1)
  moreover have "log_batches l' = concat (map (seg_batches (disk l)) ss)"
    using k(4) by (simp add: log_batches_def l1 cong: map_cong)
  then have "log_batches l = concat (map (seg_batches (disk l)) (take k (segments l))) @ log_batches l'"
    by (simp add: log_batches_def k(2) flip: concat_append map_append)
  ultimately show ?thesis using k(3) by (auto simp: l1 suffix_def)
qed

lemma i64_add_left: "i64 (i64 a + b) = i64 (a + b)" and i64_diff_left: "i64 (i64 a - b) = i64 (a - b)"
proof -
  have "(i64 a + b + 2 ^ 63) mod 2 ^ 64 = (a + b + 2 ^ 63) mod 2 ^ 64" for b
  proof -
    have "i64 a + b + 2 ^ 63 = (a + 2 ^ 63) mod 2 ^ 64 + b" by (simp add: i64_def)
    also have "\<dots> mod 2 ^ 64 = (a + 2 ^ 63 + b) mod 2 ^ 64" by (rule mod_add_left_eq)
    finally show ?thesis by (simp add: ac_simps)
  qed
  from this [of b] this [of "- b"] show "i64 (i64 a + b) = i64 (a + b)" "i64 (i64 a - b) = i64 (a - b)"
    by (simp_all add: i64_def [of "i64 a + b"] i64_def [of "a + b"] i64_def [of "i64 a - b"] i64_def [of "a - b"])
qed

lemma Size_sum: "Size l = i64 (sum_list (map logSize (segments l)))"
proof -
  have "foldl (\<lambda>t s. i64 (t + logSize s)) (i64 t0) ss = i64 (t0 + sum_list (map logSize ss))" for t0 ss
    by (induction ss arbitrary: t0) (simp_all add: i64_add_left add.assoc)
  from this [of 0 "segments l"] show ?thesis by (simp add: Size_def i64_def [of 0])
qed

lemma retention_loop_stop:
  assumes "retention_loop expired maxb d total' ss = (d', ss')" and "total' = i64 (sum_list (map logSize ss))"
  shows "length ss' \<le> 1 \<or> \<not> expired (hd ss') \<and> (maxb > 0 \<longrightarrow> i64 (sum_list (map logSize ss')) \<le> maxb)"
  using assms
proof (induction expired maxb d total' ss rule: retention_loop.induct)
  case (1 expired maxb d total' s s2 ss)
  then show ?case
    by (cases "\<not> expired s \<and> \<not> (maxb > 0 \<and> total' > maxb)") (auto simp: i64_diff_left)
qed auto

lemma EnforceRetention_stop:
  assumes l': "l' = EnforceRetention l now mtime maxAge maxb" and "1 < length (segments l')" and "0 < maxb"
  shows "Size l' \<le> maxb"
proof -
  have "\<not> length (segments l) \<le> 1" using assms(1,2) by (auto simp: EnforceRetention_def)
  then obtain expired d ss where r: "retention_loop expired maxb (disk l) (Size l) (segments l) = (d, ss)"
    and l1: "l' = l\<lparr>disk := d, segments := ss\<rparr>"
    using l' by (simp add: EnforceRetention_def Let_def split: prod.splits)
  from retention_loop_stop [OF r Size_sum] assms(2,3) show ?thesis by (simp add: l1 Size_sum)
qed

text \<open>C27: retention only ever removes a prefix of the log: what is left is a suffix of its batches
  and still well-formed; the active segment, the log end and the high watermark are untouched,
  whatever the limits and the file times; and with a size limit the remaining log is within it
  unless only the active segment is left.\<close>

theorem EnforceRetention_correct:
  assumes "log_inv l" and "l' = EnforceRetention l now mtime maxAge maxb"
  shows "log_inv l' \<and> suffix (log_batches l') (log_batches l) \<and> active l' = active l
    \<and> nextOffset l' = nextOffset l \<and> highWatermark l' = highWatermark l
    \<and> (0 < maxb \<longrightarrow> Size l' \<le> maxb \<or> segments l' = [active l])"
proof -
  note ok = EnforceRetention_ok [OF assms]
  have "segments l' = [active l]" if "\<not> 1 < length (segments l')"
    using that ok log_invD(1) [of l'] by (cases "segments l'") auto
  with ok EnforceRetention_stop [OF assms(2)] show ?thesis by blast
qed

section \<open>Lookup by timestamp\<close>

lemma ts_loop_find:
  assumes "list_all wf_batch bs" and "f = pre @ concat bs" and "lsize = int (length f)" and "lsize < 2 ^ 31"
    and "p = int (length pre)"
  shows "ts_loop f lsize ts p = Some (map_option (\<lambda>b. (BaseOffset (header b), True))
    (find (\<lambda>b. ts \<le> MaxTimestamp (header b)) bs))"
  using assms
proof (induction bs arbitrary: pre p)
  case Nil
  then show ?case by (subst ts_loop.simps) simp
next
  case (Cons b bs)
  have b: "wf_batch b" and len: "HeaderSize \<le> length b" using Cons.prems wf_batch_size(1) [of b] by simp_all
  have read: "read_at f p HeaderSize = Inr (take HeaderSize b)"
    using len read_at_slice [OF Cons.prems(5), of HeaderSize "b @ concat bs"] by (simp add: Cons.prems(2))
  have hdr: "ParseHeader (take HeaderSize b) = (header b, None)"
    using b len wf_batch_ParseHeader [OF b, of "[]"] by (simp add: ParseHeader_take)
  have lt: "p < lsize" using len Cons.prems by (auto simp: HeaderSize_def)
  have num: "i32 (p + i32 (TotalSize (header b))) = int (length (pre @ b))"
    using Cons.prems b by (simp add: i32_id in_i32_def wf_batch_TotalSize)
  have "ts_loop f lsize ts (int (length (pre @ b))) = Some (map_option (\<lambda>b. (BaseOffset (header b), True))
      (find (\<lambda>b. ts \<le> MaxTimestamp (header b)) bs))"
    using Cons.prems by (intro Cons.IH [of "pre @ b"]) simp_all
  with lt show ?case by (subst ts_loop.simps) (simp add: read hdr num)
qed

lemma find_append: "find P (xs @ ys) = (case find P xs of None \<Rightarrow> find P ys | Some x \<Rightarrow> Some x)"
  by (induction xs) auto

lemma ts_segments_find:
  assumes "\<forall>s \<in> set ss. \<exists>m. seg_ok d s m"
  shows "ts_segments d ts ss = Some (case find (\<lambda>b. ts \<le> MaxTimestamp (header b)) (concat (map (seg_batches d) ss)) of
    None \<Rightarrow> (0, False) | Some b \<Rightarrow> (BaseOffset (header b), True))"
  using assms
proof (induction ss)
  case (Cons s ss)
  then obtain m where s: "seg_ok d s m" by auto
  have "ts_loop (fcontent d (logPath (baseOffset s))) (logSize s) ts 0 =
      Some (map_option (\<lambda>b. (BaseOffset (header b), True)) (find (\<lambda>b. ts \<le> MaxTimestamp (header b)) (seg_batches d s)))"
    using seg_okD(1,2,3) [OF s] batch_run_wf [OF seg_okD(4) [OF s]]
    by (intro ts_loop_find [where pre = "[]"]) simp_all
  with Cons show ?case by (auto simp: find_append split: option.splits)
qed simp

lemma log_inv_segs: "log_inv l \<Longrightarrow> \<forall>s \<in> set (segments l). \<exists>m. seg_ok (disk l) s m"
  using segs_inv_ok [of "disk l" "segments l" "nextOffset l"] by (auto simp: segs_inv_def log_inv_def)

text \<open>C28: on a well-formed log \<open>OffsetForTimestamp\<close> terminates and returns the base offset of the
  first batch whose maximum timestamp reaches the target, or reports that there is none.\<close>

theorem OffsetForTimestamp_correct:
  assumes "log_inv l"
  shows "OffsetForTimestamp l ts = Some (case find (\<lambda>b. ts \<le> MaxTimestamp (header b)) (log_batches l) of
    None \<Rightarrow> (0, False) | Some b \<Rightarrow> (BaseOffset (header b), True))"
  using ts_segments_find [OF log_inv_segs [OF assms]] by (simp add: OffsetForTimestamp_def log_batches_def)

section \<open>Every reachable log\<close>

lemma new_log_inv:
  assumes "listSegmentBases d = []" and "distinct (map fst d)"
  shows "log_inv (new_log d c)" "log_batches (new_log d c) = []" "nextOffset (new_log d c) = 0"
    "segments (new_log d c) \<noteq> []" "EarliestOffset (new_log d c) = 0"
proof -
  obtain d1 seg where cs: "createSegment d 0 (IndexIntervalBytes c) = (d1, seg)" by fastforce
  have ok: "seg_ok d1 seg 0" "seg_batches d1 seg = []" "idx_at_end seg" "baseOffset seg = 0"
    using createSegment_ok [OF cs] by simp_all
  have "d1 = fput (fput d (logPath 0) []) (indexPath 0) []" using cs by (simp add: createSegment_def)
  then have "listSegmentBases d1 = [0]" "distinct (map fst d1)"
    using assms list_fput_new [of 0 d "[]"] by (simp_all add: in_i64_def distinct_update)
  with ok show "log_inv (new_log d c)" "log_batches (new_log d c) = []" "nextOffset (new_log d c) = 0"
    "segments (new_log d c) \<noteq> []" "EarliestOffset (new_log d c) = 0"
    by (simp_all add: new_log_def cs log_inv_def log_batches_def EarliestOffset_def)
qed

lemma SetHighWatermark_ok:
  "highWatermark (SetHighWatermark l h) = max (highWatermark l) (min h (nextOffset l))"
  "log_inv l \<Longrightarrow> log_inv (SetHighWatermark l h)"
  "log_batches (SetHighWatermark l h) = log_batches l" "nextOffset (SetHighWatermark l h) = nextOffset l"
  by (auto simp: SetHighWatermark_def Let_def log_inv_def log_batches_def)

text \<open>What can happen to the log of a partition: the operations of the broker and the replication
  fetcher, the background flush and retention, and a crash followed by a restart.\<close>

inductive log_step :: "Log \<Rightarrow> Log \<Rightarrow> bool" where
  append: "wf_records b \<Longrightarrow> log_fits l b \<Longrightarrow> Append l b = Ret (off, e, l') \<Longrightarrow> log_step l l'"
| replicate: "wf_records b \<Longrightarrow> log_fits l b \<Longrightarrow> AppendReplica l b = (off, e, l') \<Longrightarrow> log_step l l'"
| advance: "log_step l (SetHighWatermark l h)"
| hold: "log_step l (HoldHighWatermark l)"
| flush: "log_step l (Flush l)"
| retain: "log_step l (EnforceRetention l now mtime maxAge maxb)"
| restart: "Open (crash_disk l cutoff junk) c = Some (Inr l') \<Longrightarrow> log_step l l'"

inductive_cases log_stepE: "log_step l l'"

lemma AppendReplica_inv:
  assumes "log_inv l" and "wf_records b" and "log_fits l b" and "AppendReplica l b = (off, e, l')"
  shows "log_inv l'"
proof (cases "BaseOffset (header b) = nextOffset l")
  case True
  from AppendReplica_next [OF assms(1,2) True assms(3)] assms(4) show ?thesis by auto
next
  case False
  moreover have "snd (ParseHeader b) = None" using assms(2) by (simp add: wf_records_def wf_batch_def)
  ultimately have "l' = l"
    using assms(4) by (auto simp: AppendReplica_def case_prod_beta split: if_splits)
  with assms(1) show ?thesis by simp
qed

lemma log_step_inv: "log_step l l' \<Longrightarrow> log_inv l \<Longrightarrow> log_inv l'"
proof (induction rule: log_step.induct)
  case (append b l off e l')
  from Append_ok [OF append.prems append.hyps(1,2)] append.hyps(3) show ?case by auto
next
  case (replicate b l off e l')
  from AppendReplica_inv [OF replicate.prems replicate.hyps] show ?case .
next
  case (advance l h)
  then show ?case by (rule SetHighWatermark_ok(2))
next
  case (retain l now mtime maxAge maxb)
  from EnforceRetention_ok [OF retain.prems refl] show ?case by blast
next
  case (restart l cutoff junk c l')
  with Open_crash [of l cutoff junk c] show ?case by auto
qed (auto simp: HoldHighWatermark_def Flush_def log_inv_def)

lemma log_reachable_inv: "log_step\<^sup>*\<^sup>* (new_log [] c) l \<Longrightarrow> log_inv l"
proof (induction rule: rtranclp_induct)
  case base
  show ?case by (rule new_log_inv) (simp_all add: listSegmentBases_def List.map_filter_simps)
next
  case (step l l')
  then show ?case using log_step_inv by blast
qed


section \<open>Witnesses\<close>

lemma wf_records_mk_batch:
  assumes "in_i64 base" "in_i32 delta" "in_i64 maxts" "0 \<le> delta" "in_i32 (delta + 1)" "length payload < 2 ^ 30"
  shows "wf_records (mk_batch base delta maxts (delta + 1) payload)"
  using assms by (simp add: wf_records_def wf_mk_batch ParseHeader_mk_batch span_def)

abbreviation sample_batch :: bytes where
  "sample_batch \<equiv> mk_batch 0 1 7 (1 + 1) [1, 2]"

abbreviation sample_log :: Log where
  "sample_log \<equiv> new_log [] DefaultConfig"

lemma sample_batch_ok: "wf_records sample_batch" "span sample_batch = 2" "RecordCount (header sample_batch) = 2"
  "BaseOffset (header sample_batch) = 0"
  by (rule wf_records_mk_batch; simp add: in_range_defs) (simp_all add: span_def ParseHeader_mk_batch in_range_defs)

lemma sample_log_ok: "log_inv sample_log" "log_fits sample_log sample_batch" "nextOffset sample_log = 0"
  "holdHWM sample_log = False" "log_batches sample_log = []" "highWatermark sample_log = 0"
proof -
  have "listSegmentBases [] = []" by (simp add: listSegmentBases_def List.map_filter_simps)
  from new_log_inv [OF this, of DefaultConfig] show "log_inv sample_log" "nextOffset sample_log = 0" "log_batches sample_log = []"
    by simp_all
  show "log_fits sample_log sample_batch" "holdHWM sample_log = False" "highWatermark sample_log = 0"
    using sample_batch_ok(2) by (simp_all add: log_fits_def must_roll_def new_log_def createSegment_def)
qed

theorem Append_refines_witness:
  "log_inv sample_log \<and> wf_records sample_batch \<and> log_fits sample_log sample_batch
   \<and> (\<exists>l'. Append sample_log sample_batch = Ret (0, None, l') \<and> log_inv l'
        \<and> log_batches l' = [patched sample_batch 0] \<and> nextOffset l' = 2 \<and> highWatermark l' = 2)"
  using Append_refines [OF sample_log_ok(1) sample_batch_ok(1) sample_log_ok(2)] sample_log_ok sample_batch_ok
  by auto

lemma sample_appended:
  obtains l where "Append sample_log sample_batch = Ret (0, None, l)" "log_inv l" "nextOffset l = 2"
    "log_batches l = [patched sample_batch 0]"
  using Append_ok [OF sample_log_ok(1) sample_batch_ok(1) sample_log_ok(2)] sample_log_ok sample_batch_ok
  by auto

theorem AppendReplica_cases_witness:
  "log_inv sample_log \<and> wf_records sample_batch \<and> log_fits sample_log sample_batch
   \<and> (\<exists>l'. AppendReplica sample_log sample_batch = (2, None, l') \<and> log_inv l'
        \<and> log_batches l' = [sample_batch] \<and> highWatermark l' = 0)"
  using AppendReplica_cases [OF sample_log_ok(1) sample_batch_ok(1)] sample_log_ok sample_batch_ok by auto


theorem Open_recovers_witness:
  "\<exists>l l'. Append sample_log sample_batch = Ret (0, None, l) \<and> log_inv l
     \<and> Open (crash_disk l 62 [1, 2, 3]) DefaultConfig = Some (Inr l') \<and> log_inv l'"
proof -
  obtain l where l: "Append sample_log sample_batch = Ret (0, None, l)" "log_inv l"
    using sample_appended by metis
  with Open_recovers [OF l(2), of 62 "[1, 2, 3]" DefaultConfig] show ?thesis by blast
qed

theorem EnforceRetention_correct_witness:
  "\<exists>l l'. Append sample_log sample_batch = Ret (0, None, l) \<and> log_inv l
     \<and> l' = EnforceRetention l 1000 (\<lambda>s. Some 0) 1 1 \<and> log_inv l' \<and> active l' = active l"
proof -
  obtain l where l: "Append sample_log sample_batch = Ret (0, None, l)" "log_inv l"
    using sample_appended by metis
  with EnforceRetention_correct [OF l(2) refl, of 1000 "\<lambda>s. Some 0" 1 1] show ?thesis by blast
qed

theorem OffsetForTimestamp_correct_witness:
  "\<exists>l. Append sample_log sample_batch = Ret (0, None, l) \<and> log_inv l
     \<and> OffsetForTimestamp l 7 = Some (0, True) \<and> OffsetForTimestamp l 8 = Some (0, False)"
proof -
  obtain l where l: "Append sample_log sample_batch = Ret (0, None, l)" "log_inv l"
    "log_batches l = [patched sample_batch 0]"
    using sample_appended by metis
  have "header (patched sample_batch 0) = (header sample_batch)\<lparr>BaseOffset := i64 0\<rparr>"
    by (rule header_patched) (simp add: HeaderSize_def)
  then have "MaxTimestamp (header (patched sample_batch 0)) = 7" "BaseOffset (header (patched sample_batch 0)) = 0"
    by (simp_all add: ParseHeader_mk_batch in_range_defs i64_def)
  with l OffsetForTimestamp_correct [OF l(2), of 7] OffsetForTimestamp_correct [OF l(2), of 8] show ?thesis by auto
qed


end
