(* ===== verification/Backend.thy ===== *)
theory Backend
  imports Partition_Log
begin

text \<open>
  \<open>internal/storage/backend.go\<close>: the contract between a partition's storage and its clients, as a
  locale over a storage state \<open>'l\<close>. \<open>batches\<close> is the abstract log, \<open>accepts\<close> what a client has to
  guarantee about a batch it appends. The file log is an instance.
\<close>

locale partition_backend =
  fixes inv :: "'l \<Rightarrow> bool"
    and batches :: "'l \<Rightarrow> bytes list"
    and earliest latest watermark :: "'l \<Rightarrow> int"
    and accepts :: "'l \<Rightarrow> bytes \<Rightarrow> bool"
    and app :: "'l \<Rightarrow> bytes \<Rightarrow> (int \<times> goerror option \<times> 'l) go"
    and rd :: "'l \<Rightarrow> int \<Rightarrow> int \<Rightarrow> (bytes \<times> goerror option) go option"
    and set_hwm :: "'l \<Rightarrow> int \<Rightarrow> 'l"
  assumes app_law: "inv l \<Longrightarrow> accepts l b \<Longrightarrow> \<exists>l'. app l b = Ret (latest l, None, l') \<and> inv l'
      \<and> batches l' = batches l @ [patched b (latest l)] \<and> latest l < latest l'"
    and rd_law: "inv l \<Longrightarrow> earliest l \<le> off \<Longrightarrow> off < latest l \<Longrightarrow>
      \<exists>out. rd l off maxb = Some (Ret (out, None)) \<and> read_post (batches l) off maxb out"
    and below: "inv l \<Longrightarrow> b \<in> set (batches l) \<Longrightarrow> LastOffset (header b) < latest l"
    and bounds: "inv l \<Longrightarrow> earliest l \<le> latest l"
    and earliest_app: "inv l \<Longrightarrow> accepts l b \<Longrightarrow> app l b = Ret (off, None, l') \<Longrightarrow> earliest l' = earliest l"
    and hwm_law: "inv l \<Longrightarrow> inv (set_hwm l h) \<and> batches (set_hwm l h) = batches l
      \<and> watermark (set_hwm l h) = max (watermark l) (min h (latest l))"
    and hwm_bound: "inv l \<Longrightarrow> watermark l \<le> latest l"
begin

lemma read_last:
  assumes "inv l" and bs: "batches l = bs @ [b]" and before: "\<forall>c \<in> set bs. LastOffset (header c) < off"
    and "earliest l \<le> off" and "off < latest l"
  shows "rd l off maxb = Some (Ret (b, None))"
proof -
  from rd_law [OF assms(1,4,5)] obtain out where
    out: "rd l off maxb = Some (Ret (out, None))" "read_post (batches l) off maxb out" by auto
  then obtain pre c more post where c: "bs @ [b] = pre @ c # more @ post"
    "out = concat (c # more)" "off \<le> LastOffset (header c)"
    unfolding bs read_post_def by blast
  have "c \<notin> set bs" using before c(3) by auto
  then have "more @ post = [] \<and> c = b"
    using c(1) by (cases "more @ post" rule: rev_cases) auto
  with c(2) out(1) show ?thesis by simp
qed

lemma read_after_append:
  assumes "inv l" and "accepts l b" and "app l b = Ret (off, None, l')"
  shows "rd l' off maxb = Some (Ret (patched b off, None))"
proof -
  from app_law [OF assms(1,2)] assms(3) have l': "off = latest l" "inv l'"
    "batches l' = batches l @ [patched b off]" "latest l < latest l'" by auto
  have "earliest l' \<le> off" using earliest_app [OF assms] bounds [OF assms(1)] l'(1) by simp
  with read_last [OF l'(2,3)] below [OF assms(1)] l'(1,4) show ?thesis by simp
qed

lemma watermark_monotone: "inv l \<Longrightarrow> watermark l \<le> watermark (set_hwm l h) \<and> watermark (set_hwm l h) \<le> latest l"
  using hwm_law [of l h] hwm_bound [of l] by simp

end

lemma log_batches_below:
  assumes "log_inv l" and "b \<in> set (log_batches l)"
  shows "LastOffset (header b) < nextOffset l"
proof -
  let ?ss = "segments l"
  have ends: "m \<le> nextOffset l" if "k < length ?ss"
    "m = (if Suc k < length ?ss then baseOffset (?ss ! Suc k) else nextOffset l)" for k m
  proof (cases "Suc k < length ?ss")
    case True
    from log_inv_nth [OF assms(1) True] obtain m' where "seg_ok (disk l) (?ss ! Suc k) m'" by blast
    have "\<forall>s \<in> set ?ss. baseOffset s \<le> nextOffset l"
    proof
      fix s
      assume "s \<in> set ?ss"
      then have "s \<in> set (butlast ?ss) \<or> s = active l" by (rule in_butlast_or_last)
      moreover have "baseOffset (active l) \<le> nextOffset l"
        by (rule batch_run_le [OF seg_okD(4) [OF log_invD(3) [OF assms(1)]]])
      ultimately show "baseOffset s \<le> nextOffset l"
        using sealed_ok_bases [OF log_invD(2) [OF assms(1)]] by auto
    qed
    with True that(2) show ?thesis by simp
  qed (use that in simp)
  from assms(2) obtain s where "s \<in> set ?ss" "b \<in> set (seg_batches (disk l) s)"
    by (auto simp: log_batches_def)
  then obtain k where k: "k < length ?ss" "b \<in> set (seg_batches (disk l) (?ss ! k))"
    by (auto simp: in_set_conv_nth)
  note ok = log_inv_nth [OF assms(1) k(1)]
  show ?thesis
    using batch_run_LastOffset [OF seg_okD(4,5,6) [OF ok] k(2)] ends [OF k(1) refl] by linarith
qed

lemma Earliest_le_Latest: "log_inv l \<Longrightarrow> EarliestOffset l \<le> LatestOffset l"
proof -
  assume inv: "log_inv l"
  have "segments l ! 0 \<in> set (segments l)" using log_invD(1) [OF inv] by simp
  then have "segments l ! 0 \<in> set (butlast (segments l)) \<or> segments l ! 0 = active l"
    by (rule in_butlast_or_last)
  then show ?thesis
    using sealed_ok_bases [OF log_invD(2) [OF inv]] batch_run_le [OF seg_okD(4) [OF log_invD(3) [OF inv]]]
    by (auto simp: EarliestOffset_def LatestOffset_def)
qed

lemma EarliestOffset_Append:
  assumes inv: "log_inv l" and b: "wf_records b" and app: "Append l b = Ret (off, None, l')"
  shows "EarliestOffset l' = EarliestOffset l"
proof -
  have ne: "segments l \<noteq> []" by (rule log_invD(1) [OF inv])
  define l1 where "l1 = (if must_roll l (patched b (nextOffset l)) then roll l (nextOffset l) else l)"
  have l1: "segments l1 = segments l \<or> (\<exists>s. segments l1 = segments l @ [s])"
    by (auto simp: l1_def roll_def split: prod.splits)
  have "patch b (nextOffset l) = Ret (patched b (nextOffset l))"
    using b by (intro patch_eq) (simp add: wf_batch_size)
  then obtain d s where "segments l' = butlast (segments l1) @ [s]"
    "seg_append (disk l1) (active l1) (patched b (nextOffset l)) (nextOffset l) = (None, d, s)"
    using app unfolding Append_def Let_def patch_def [symmetric] l1_def
    by (auto simp: append_active_def split: prod.splits option.splits)
  moreover have "baseOffset s = baseOffset (active l1)"
    using calculation(2) by (auto simp: seg_append_def append_idx_def Let_def split: if_splits prod.splits)
  ultimately have "baseOffset (segments l' ! 0) = baseOffset (segments l1 ! 0)" if "segments l1 \<noteq> []"
    using that by (cases "segments l1" rule: rev_cases) (auto simp: nth_append)
  with l1 ne show ?thesis by (auto simp: EarliestOffset_def nth_append)
qed

interpretation file_log: partition_backend log_inv log_batches EarliestOffset LatestOffset HighWatermark
  "\<lambda>l b. wf_records b \<and> log_fits l b" Append Read SetHighWatermark
proof unfold_locales
  fix l b
  assume "log_inv l" and "wf_records b \<and> log_fits l b"
  then show "\<exists>l'. Append l b = Ret (LatestOffset l, None, l') \<and> log_inv l'
      \<and> log_batches l' = log_batches l @ [patched b (LatestOffset l)] \<and> LatestOffset l < LatestOffset l'"
    using Append_ok [of l b] by (auto simp: LatestOffset_def wf_records_def)
next
  fix l off maxb
  assume "log_inv l" "EarliestOffset l \<le> off" "off < LatestOffset l"
  then show "\<exists>out. Read l off maxb = Some (Ret (out, None)) \<and> read_post (log_batches l) off maxb out"
    using Read_ok by (simp add: LatestOffset_def)
next
  fix l b off l'
  assume "log_inv l" "wf_records b \<and> log_fits l b" "Append l b = Ret (off, None, l')"
  then show "EarliestOffset l' = EarliestOffset l" using EarliestOffset_Append by blast
qed (auto simp: log_batches_below Earliest_le_Latest SetHighWatermark_ok LatestOffset_def HighWatermark_def log_invD
    intro: Earliest_le_Latest [unfolded LatestOffset_def])

text \<open>C29: a batch that \<open>Append\<close> has acknowledged at an offset is what a read at that offset returns,
  byte for byte as it was stored, whatever the byte limit.\<close>

theorem log_read_after_append:
  assumes "log_inv l" and "wf_records b" and "log_fits l b" and "Append l b = Ret (off, None, l')"
  shows "Read l' off maxb = Some (Ret (patched b off, None))"
  using assms by (intro file_log.read_after_append [of l]) simp_all

theorem log_read_after_append_witness:
  "\<exists>l'. Append sample_log sample_batch = Ret (0, None, l')
     \<and> Read l' 0 1 = Some (Ret (patched sample_batch 0, None))"
proof -
  obtain l where l: "Append sample_log sample_batch = Ret (0, None, l)" using sample_appended by metis
  with log_read_after_append [OF sample_log_ok(1) sample_batch_ok(1) sample_log_ok(2) l, of 1] show ?thesis by blast
qed

end
