(* ===== verification/Kbytes.thy ===== *)
theory Kbytes
  imports Gostd
begin

text \<open>
  \<open>internal/kbytes\<close>: the byte-level reader and writer of the Kafka wire protocol.

  A \<open>Reader\<close> is the record \<open>reader\<close> (\<open>buf\<close>, \<open>pos\<close>, \<open>err\<close>); its methods are computations of the
  state monad over it, so that a decoder reads like the Go code. A \<open>Writer\<close> is its buffer; its
  methods map a buffer to the extended one. The interface of the package is the locale \<open>codec\<close>:
  a decoder that undoes an encoder whatever follows in the buffer. The primitives are
  interpreted as codecs, and arrays of codecs are handled once inside the locale.
\<close>

section \<open>Reader\<close>

record reader =
  buf :: bytes
  pos :: nat
  err :: "goerror option"

definition NewReader :: "bytes \<Rightarrow> reader" where
  "NewReader b = \<lparr>buf = b, pos = 0, err = None\<rparr>"

definition fail_r :: "reader \<Rightarrow> reader" where
  "fail_r r = (if err r = None then r\<lparr>err := Some ErrShort\<rparr> else r)"

definition take_r :: "int \<Rightarrow> (reader, bytes option) state" where
  "take_r n = State (\<lambda>r.
     if err r \<noteq> None then (None, r)
     else if n < 0 \<or> int (pos r) + n > int (length (buf r)) then (None, fail_r r)
     else (Some (take (nat n) (drop (pos r) (buf r))), r\<lparr>pos := pos r + nat n\<rparr>))"

definition Int8_r :: "(reader, int) state" where
  "Int8_r = do {
     b \<leftarrow> take_r 1;
     State_Monad.return (case b of None \<Rightarrow> 0 | Some b \<Rightarrow> i8 (be_uint b))
   }"

definition Int16_r :: "(reader, int) state" where
  "Int16_r = do {
     b \<leftarrow> take_r 2;
     State_Monad.return (case b of None \<Rightarrow> 0 | Some b \<Rightarrow> i16 (be_uint b))
   }"

definition Int32_r :: "(reader, int) state" where
  "Int32_r = do {
     b \<leftarrow> take_r 4;
     State_Monad.return (case b of None \<Rightarrow> 0 | Some b \<Rightarrow> i32 (be_uint b))
   }"

definition Int64_r :: "(reader, int) state" where
  "Int64_r = do {
     b \<leftarrow> take_r 8;
     State_Monad.return (case b of None \<Rightarrow> 0 | Some b \<Rightarrow> i64 (be_uint b))
   }"

text \<open>\<open>binary.Uvarint\<close>: the value and the number of bytes read; 0 bytes for a buffer that ends
  too early, a negative count for a value over 64 bits. The bits of successive groups are
  disjoint, so the code's \<open>|\<close> is an addition.\<close>

fun uvarint :: "nat \<Rightarrow> int \<Rightarrow> bytes \<Rightarrow> int \<times> int" where
  "uvarint i x [] = (0, 0)"
| "uvarint i x (b # bs) =
     (if i = 10 then (0, - (int i + 1))
      else if uint b < 128 then
        (if i = 9 \<and> uint b > 1 then (0, - (int i + 1)) else (x + uint b * 2 ^ (7 * i), int i + 1))
      else uvarint (Suc i) (x + uint b mod 128 * 2 ^ (7 * i)) bs)"

definition Varint_r :: "(reader, int) state" where
  "Varint_r = State (\<lambda>r.
     if err r \<noteq> None then (0, r)
     else case uvarint 0 0 (drop (pos r) (buf r)) of
       (u, n) \<Rightarrow>
         if n \<le> 0 then (0, fail_r r)
         else (i64 (u div 2) XOR - (u mod 2), r\<lparr>pos := pos r + nat n\<rparr>))"

definition String_r :: "(reader, string) state" where
  "String_r = do {
     n \<leftarrow> Int16_r;
     if n < 0 then State_Monad.return []
     else do {
       b \<leftarrow> take_r n;
       State_Monad.return (case b of None \<Rightarrow> [] | Some b \<Rightarrow> string_of_bytes b)
     }
   }"

definition NullableString_r :: "(reader, string option) state" where
  "NullableString_r = do {
     n \<leftarrow> Int16_r;
     if n < 0 then State_Monad.return None
     else do {
       b \<leftarrow> take_r n;
       State_Monad.return (case b of None \<Rightarrow> Some [] | Some b \<Rightarrow> Some (string_of_bytes b))
     }
   }"

definition Bytes_r :: "(reader, bytes option) state" where
  "Bytes_r = do {
     n \<leftarrow> Int32_r;
     if n < 0 then State_Monad.return None
     else take_r n
   }"

definition ArrayLen_r :: "(reader, nat) state" where
  "ArrayLen_r = do {
     n \<leftarrow> Int32_r;
     State (\<lambda>r.
       if n < 0 then (0, r)
       else if n > int (length (buf r)) - int (pos r) then (0, fail_r r)
       else (nat n, r))
   }"

definition Raw_r :: "int \<Rightarrow> (reader, bytes option) state" where
  "Raw_r n = take_r n"

definition Remaining_r :: "reader \<Rightarrow> bytes option" where
  "Remaining_r r = (if err r \<noteq> None then None else Some (drop (pos r) (buf r)))"

text \<open>The decoding loops \<open>for i := 0; i < n; i++\<close>: the same element decoder \<open>n\<close> times.\<close>

primrec repeat_r :: "nat \<Rightarrow> (reader, 'a) state \<Rightarrow> (reader, 'a list) state" where
  "repeat_r 0 d = State_Monad.return []"
| "repeat_r (Suc n) d = do { x \<leftarrow> d; xs \<leftarrow> repeat_r n d; State_Monad.return (x # xs) }"

section \<open>Writer\<close>

type_synonym writer = bytes

definition NewWriter :: writer where
  "NewWriter = []"

definition Int8_w :: "int \<Rightarrow> writer \<Rightarrow> writer" where
  "Int8_w v w = w @ be_bytes 1 v"

definition Int16_w :: "int \<Rightarrow> writer \<Rightarrow> writer" where
  "Int16_w v w = w @ be_bytes 2 v"

definition Int32_w :: "int \<Rightarrow> writer \<Rightarrow> writer" where
  "Int32_w v w = w @ be_bytes 4 v"

definition Int64_w :: "int \<Rightarrow> writer \<Rightarrow> writer" where
  "Int64_w v w = w @ be_bytes 8 v"

definition Bool_w :: "bool \<Rightarrow> writer \<Rightarrow> writer" where
  "Bool_w v w = (if v then Int8_w 1 w else Int8_w 0 w)"

definition String_w :: "string \<Rightarrow> writer \<Rightarrow> writer" where
  "String_w s w = Int16_w (i16 (int (length s))) w @ bytes_of_string s"

definition NullableString_w :: "string option \<Rightarrow> writer \<Rightarrow> writer" where
  "NullableString_w s w = (case s of None \<Rightarrow> Int16_w (-1) w | Some s \<Rightarrow> String_w s w)"

definition Bytes_w :: "bytes option \<Rightarrow> writer \<Rightarrow> writer" where
  "Bytes_w b w = (case b of None \<Rightarrow> Int32_w (-1) w
     | Some b \<Rightarrow> Int32_w (i32 (int (length b))) w @ b)"

definition ArrayLen_w :: "nat \<Rightarrow> writer \<Rightarrow> writer" where
  "ArrayLen_w n w = Int32_w (i32 (int n)) w"

definition Raw_w :: "bytes \<Rightarrow> writer \<Rightarrow> writer" where
  "Raw_w b w = w @ b"

text \<open>\<open>PatchInt32\<close> slices \<open>w.buf[off:off+4]\<close>; its callers patch bytes already written, and any
  other offset is treated as the slice panic.\<close>

definition PatchInt32 :: "nat \<Rightarrow> int \<Rightarrow> writer \<Rightarrow> writer go" where
  "PatchInt32 off v w = (if off + 4 \<le> length w then Ret (put_at w off (be_bytes 4 v)) else Panic)"

lemmas writer_defs = NewWriter_def Int8_w_def Int16_w_def Int32_w_def Int64_w_def Bool_w_def
  String_w_def NullableString_w_def Bytes_w_def ArrayLen_w_def Raw_w_def

section \<open>Decoding what was encoded\<close>

definition at_r :: "reader \<Rightarrow> bytes \<Rightarrow> bool" where
  "at_r r bs \<longleftrightarrow> err r = None \<and> pos r \<le> length (buf r) \<and> drop (pos r) (buf r) = bs"

definition adv_r :: "nat \<Rightarrow> reader \<Rightarrow> reader" where
  "adv_r n r = r\<lparr>pos := pos r + n\<rparr>"

text \<open>\<open>decodes d bs x\<close>: wherever the unread input starts with \<open>bs\<close>, the decoder \<open>d\<close> returns \<open>x\<close>,
  consumes exactly \<open>bs\<close> and records no error.\<close>

definition decodes :: "(reader, 'a) state \<Rightarrow> bytes \<Rightarrow> 'a \<Rightarrow> bool" where
  "decodes d bs x \<longleftrightarrow>
     (\<forall>r rest. at_r r (bs @ rest) \<longrightarrow> run_state d r = (x, adv_r (length bs) r))"

lemma at_NewReader [simp]: "at_r (NewReader bs) bs"
  by (simp add: at_r_def NewReader_def)

lemma at_adv: "at_r r (bs @ rest) \<Longrightarrow> n = length bs \<Longrightarrow> at_r (adv_r n r) rest"
proof -
  assume a: "at_r r (bs @ rest)" and n: "n = length bs"
  then have d: "drop (pos r) (buf r) = bs @ rest" and p: "pos r \<le> length (buf r)"
    by (simp_all add: at_r_def)
  have "length (buf r) - pos r = length bs + length rest"
    using d by (metis length_append length_drop)
  moreover have "drop (length bs + pos r) (buf r) = rest"
    using d by (metis append_eq_conv_conj drop_drop)
  ultimately show ?thesis using a p n by (simp add: at_r_def adv_r_def add.commute)
qed

lemma adv_adv [simp]: "adv_r n (adv_r m r) = adv_r (m + n) r"
  by (simp add: adv_r_def add.assoc)

lemma adv_0 [simp]: "adv_r 0 r = r"
  by (simp add: adv_r_def)

lemma at_length: "at_r r bs \<Longrightarrow> length (buf r) - pos r = length bs \<and> pos r \<le> length (buf r)"
  by (metis at_r_def length_drop)

lemma decodesI:
  "(\<And>r rest. at_r r (bs @ rest) \<Longrightarrow> run_state d r = (x, adv_r (length bs) r)) \<Longrightarrow> decodes d bs x"
  by (simp add: decodes_def)

lemma decodesD: "decodes d bs x \<Longrightarrow> at_r r (bs @ rest) \<Longrightarrow> run_state d r = (x, adv_r (length bs) r)"
  unfolding decodes_def by blast

lemma decodes_return [codec_simps]: "decodes (State_Monad.return x) [] x"
  by (simp add: decodes_def)

lemma decodes_bind:
  assumes "decodes d a x" and "decodes (f x) b y"
  shows "decodes (d \<bind> f) (a @ b) y"
proof (rule decodesI)
  fix r rest
  assume "at_r r ((a @ b) @ rest)"
  then have r: "at_r r (a @ b @ rest)" by simp
  then have "run_state d r = (x, adv_r (length a) r)" by (rule decodesD [OF assms(1)])
  moreover have "run_state (f x) (adv_r (length a) r) = (y, adv_r (length b) (adv_r (length a) r))"
    using r by (intro decodesD [OF assms(2)]) (rule at_adv, simp_all)
  ultimately show "run_state (d \<bind> f) r = (y, adv_r (length (a @ b)) r)"
    by (simp add: State_Monad.bind_def)
qed

lemma decodes_map:
  assumes "decodes d a x" and "y = f x"
  shows "decodes (d \<bind> (\<lambda>x. State_Monad.return (f x))) a y"
  using decodes_bind [OF assms(1), of "\<lambda>x. State_Monad.return (f x)" "[]" y] assms(2)
  by (simp add: decodes_return)

lemma decodes_take: "n = int (length bs) \<Longrightarrow> decodes (take_r n) bs (Some bs)"
proof (rule decodesI)
  fix r rest
  assume n: "n = int (length bs)" and r: "at_r r (bs @ rest)"
  then have "length (buf r) - pos r = length bs + length rest" "pos r \<le> length (buf r)"
    using at_length by fastforce+
  with n r show "run_state (take_r n) r = (Some bs, adv_r (length bs) r)"
    by (simp add: take_r_def at_r_def adv_r_def)
qed

text \<open>The interface of the package: a decoder, an encoder and the values they carry.\<close>

locale codec =
  fixes enc :: "'a \<Rightarrow> bytes" and dec :: "(reader, 'a) state" and ok :: "'a \<Rightarrow> bool"
  assumes decodes_enc: "ok x \<Longrightarrow> decodes dec (enc x) x"
    and enc_nonempty: "ok x \<Longrightarrow> enc x \<noteq> []"
begin

lemma decodes_repeat:
  "list_all ok xs \<Longrightarrow> n = length xs \<Longrightarrow> decodes (repeat_r n dec) (concat (map enc xs)) xs"
proof (induction xs arbitrary: n)
  case Nil
  then show ?case by (simp add: decodes_return)
next
  case (Cons x xs)
  then show ?case by (auto intro!: decodes_bind decodes_map decodes_enc)
qed

lemma length_concat_enc: "list_all ok xs \<Longrightarrow> length xs \<le> length (concat (map enc xs))"
proof (induction xs)
  case (Cons x xs)
  then have "1 \<le> length (enc x)" using enc_nonempty by (cases "enc x") auto
  with Cons show ?case by simp
qed simp

end

subsection \<open>The primitives are codecs\<close>

lemma decodes_fixed:
  assumes "length (be_bytes k v) = k"
  shows "decodes (take_r (int k) \<bind> (\<lambda>b. State_Monad.return (case b of None \<Rightarrow> 0 | Some b \<Rightarrow> f (be_uint b))))
    (be_bytes k v) (f (v mod 256 ^ k))"
  by (rule decodes_map [OF decodes_take]) simp_all

lemma decodes_Int8: "in_i8 v \<Longrightarrow> decodes Int8_r (be_bytes 1 v) v"
  using decodes_fixed [of 1 v i8] by (simp add: Int8_r_def i8_id)

lemma decodes_Int16: "in_i16 v \<Longrightarrow> decodes Int16_r (be_bytes 2 v) v"
  using decodes_fixed [of 2 v i16] by (simp add: Int16_r_def i16_id)

lemma decodes_Int32: "in_i32 v \<Longrightarrow> decodes Int32_r (be_bytes 4 v) v"
  using decodes_fixed [of 4 v i32] by (simp add: Int32_r_def i32_id)

lemma decodes_Int64: "in_i64 v \<Longrightarrow> decodes Int64_r (be_bytes 8 v) v"
  using decodes_fixed [of 8 v i64] by (simp add: Int64_r_def i64_id)

lemma be_bytes_nonempty [simp]: "0 < k \<Longrightarrow> be_bytes k v \<noteq> []"
  by (cases k) auto

interpretation int8: codec "be_bytes 1" Int8_r in_i8
  by unfold_locales (erule decodes_Int8, simp)

interpretation int16: codec "be_bytes 2" Int16_r in_i16
  by unfold_locales (simp_all add: decodes_Int16)

interpretation int32: codec "be_bytes 4" Int32_r in_i32
  by unfold_locales (simp_all add: decodes_Int32)

interpretation int64: codec "be_bytes 8" Int64_r in_i64
  by unfold_locales (simp_all add: decodes_Int64)

definition ok_string :: "string \<Rightarrow> bool" where
  "ok_string s \<longleftrightarrow> length s < 2 ^ 15"

definition ok_nullable :: "string option \<Rightarrow> bool" where
  "ok_nullable s \<longleftrightarrow> (case s of None \<Rightarrow> True | Some s \<Rightarrow> ok_string s)"

definition ok_bytes :: "bytes option \<Rightarrow> bool" where
  "ok_bytes b \<longleftrightarrow> (case b of None \<Rightarrow> True | Some b \<Rightarrow> length b < 2 ^ 31)"

lemma string_len_i16: "ok_string s \<Longrightarrow> i16 (int (length s)) = int (length s)"
  by (rule i16_id) (simp add: in_i16_def ok_string_def)

lemma decodes_take_string:
  "decodes (take_r (int (length s)) \<bind> (\<lambda>b. State_Monad.return (case b of None \<Rightarrow> z | Some b \<Rightarrow> f (string_of_bytes b))))
     (bytes_of_string s) (f s)"
  by (rule decodes_map [OF decodes_take]) simp_all

lemma decodes_String: "ok_string s \<Longrightarrow> decodes String_r (String_w s []) s"
proof -
  assume ok: "ok_string s"
  then have n: "in_i16 (int (length s))" by (simp add: in_i16_def ok_string_def)
  show ?thesis
    unfolding String_r_def String_w_def Int16_w_def string_len_i16 [OF ok] append_Nil
    by (rule decodes_bind [OF decodes_Int16 [OF n]])
      (use decodes_take_string [of s "[]" "\<lambda>x. x"] in simp)
qed

lemma decodes_NullableString: "ok_nullable s \<Longrightarrow> decodes NullableString_r (NullableString_w s []) s"
proof (cases s)
  case None
  then show ?thesis
    using decodes_map [OF decodes_Int16 [of "-1"], of None "\<lambda>_. None"]
      decodes_bind [OF decodes_Int16 [of "-1"],
        of "\<lambda>n. if n < 0 then State_Monad.return None
          else take_r n \<bind> (\<lambda>b. State_Monad.return (case b of None \<Rightarrow> Some [] | Some b \<Rightarrow> Some (string_of_bytes b)))"
        "[]" None]
    by (simp add: NullableString_r_def NullableString_w_def Int16_w_def in_i16_def decodes_return)
next
  case (Some t)
  moreover assume "ok_nullable s"
  ultimately have ok: "ok_string t" by (simp add: ok_nullable_def)
  then have n: "in_i16 (int (length t))" by (simp add: in_i16_def ok_string_def)
  show ?thesis
    unfolding NullableString_r_def NullableString_w_def Some option.case String_w_def Int16_w_def
      string_len_i16 [OF ok] append_Nil
    by (rule decodes_bind [OF decodes_Int16 [OF n]])
      (use decodes_take_string [of t "Some []" Some] in simp)
qed

lemma decodes_Bytes: "ok_bytes b \<Longrightarrow> decodes Bytes_r (Bytes_w b []) b"
proof (cases b)
  case None
  then show ?thesis
    using decodes_bind [OF decodes_Int32 [of "-1"],
        of "\<lambda>n. if n < 0 then State_Monad.return None else take_r n" "[]" None]
    by (simp add: Bytes_r_def Bytes_w_def Int32_w_def in_i32_def decodes_return)
next
  case (Some t)
  moreover assume "ok_bytes b"
  ultimately have "in_i32 (int (length t))" by (simp add: in_i32_def ok_bytes_def)
  with Some show ?thesis
    by (auto simp: Bytes_r_def Bytes_w_def Int32_w_def i32_id
        intro!: decodes_bind decodes_Int32 decodes_take)
qed

lemma String_w_nonempty [simp]: "String_w s [] \<noteq> []"
  by (simp add: String_w_def Int16_w_def)

lemma NullableString_w_nonempty [simp]: "NullableString_w s [] \<noteq> []"
  by (cases s) (simp_all add: NullableString_w_def Int16_w_def)

lemma Bytes_w_nonempty [simp]: "Bytes_w b [] \<noteq> []"
  by (cases b) (simp_all add: Bytes_w_def Int32_w_def)

interpretation str: codec "\<lambda>s. String_w s []" String_r ok_string
  by unfold_locales (simp_all add: decodes_String)

interpretation nstr: codec "\<lambda>s. NullableString_w s []" NullableString_r ok_nullable
  by unfold_locales (simp_all add: decodes_NullableString)

interpretation byt: codec "\<lambda>b. Bytes_w b []" Bytes_r ok_bytes
  by unfold_locales (simp_all add: decodes_Bytes)

subsection \<open>Arrays of codecs\<close>

lemma ArrayLen_at:
  assumes r: "at_r r (be_bytes 4 (int n) @ bs)" and n: "n < 2 ^ 31" "n \<le> length bs"
  shows "run_state ArrayLen_r r = (n, adv_r 4 r)"
proof -
  have i: "in_i32 (int n)" using n(1) by (simp add: in_i32_def)
  have "run_state Int32_r r = (int n, adv_r 4 r)"
    using decodesD [OF decodes_Int32 [OF i] r] by simp
  moreover have "at_r (adv_r 4 r) bs" using at_adv [OF r, of 4] by simp
  then have "length (buf (adv_r 4 r)) - pos (adv_r 4 r) = length bs" "pos (adv_r 4 r) \<le> length (buf (adv_r 4 r))"
    using at_length by blast+
  ultimately show ?thesis using n(2) by (simp add: ArrayLen_r_def State_Monad.bind_def)
qed

context codec
begin

lemma decodes_array:
  assumes xs: "list_all ok xs" "length xs < 2 ^ 31" and k: "decodes (k xs) bs y"
  shows "decodes (ArrayLen_r \<bind> (\<lambda>n. repeat_r n dec \<bind> k))
    (be_bytes 4 (int (length xs)) @ concat (map enc xs) @ bs) y"
proof (rule decodesI)
  fix r rest
  assume "at_r r ((be_bytes 4 (int (length xs)) @ concat (map enc xs) @ bs) @ rest)"
  then have r: "at_r r (be_bytes 4 (int (length xs)) @ concat (map enc xs) @ bs @ rest)" by simp
  have len: "run_state ArrayLen_r r = (length xs, adv_r 4 r)"
    using length_concat_enc [OF xs(1)] by (intro ArrayLen_at [OF r xs(2)]) simp
  have "at_r (adv_r 4 r) ((concat (map enc xs) @ bs) @ rest)" using at_adv [OF r, of 4] by simp
  with decodes_bind [where f = k, OF decodes_repeat [OF xs(1) refl] k]
  have "run_state (repeat_r (length xs) dec \<bind> k) (adv_r 4 r) =
      (y, adv_r (length (concat (map enc xs) @ bs)) (adv_r 4 r))"
    by (rule decodesD)
  with len show "run_state (ArrayLen_r \<bind> (\<lambda>n. repeat_r n dec \<bind> k)) r =
      (y, adv_r (length (be_bytes 4 (int (length xs)) @ concat (map enc xs) @ bs)) r)"
    by (simp add: State_Monad.bind_def [of ArrayLen_r] del: length_concat)
qed

end

section \<open>Properties\<close>

text \<open>A message as a sequence of primitive fields, written in order and read back in order.\<close>

datatype field =
    FInt8 int
  | FInt16 int
  | FInt32 int
  | FInt64 int
  | FString string
  | FNullable "string option"
  | FBytes "bytes option"

fun write_field :: "field \<Rightarrow> writer \<Rightarrow> writer" where
  "write_field (FInt8 v) w = Int8_w v w"
| "write_field (FInt16 v) w = Int16_w v w"
| "write_field (FInt32 v) w = Int32_w v w"
| "write_field (FInt64 v) w = Int64_w v w"
| "write_field (FString s) w = String_w s w"
| "write_field (FNullable s) w = NullableString_w s w"
| "write_field (FBytes b) w = Bytes_w b w"

fun read_field_like :: "field \<Rightarrow> (reader, field) state" where
  "read_field_like (FInt8 _) = do { v \<leftarrow> Int8_r; State_Monad.return (FInt8 v) }"
| "read_field_like (FInt16 _) = do { v \<leftarrow> Int16_r; State_Monad.return (FInt16 v) }"
| "read_field_like (FInt32 _) = do { v \<leftarrow> Int32_r; State_Monad.return (FInt32 v) }"
| "read_field_like (FInt64 _) = do { v \<leftarrow> Int64_r; State_Monad.return (FInt64 v) }"
| "read_field_like (FString _) = do { v \<leftarrow> String_r; State_Monad.return (FString v) }"
| "read_field_like (FNullable _) = do { v \<leftarrow> NullableString_r; State_Monad.return (FNullable v) }"
| "read_field_like (FBytes _) = do { v \<leftarrow> Bytes_r; State_Monad.return (FBytes v) }"

fun field_ok :: "field \<Rightarrow> bool" where
  "field_ok (FInt8 v) = in_i8 v"
| "field_ok (FInt16 v) = in_i16 v"
| "field_ok (FInt32 v) = in_i32 v"
| "field_ok (FInt64 v) = in_i64 v"
| "field_ok (FString s) = ok_string s"
| "field_ok (FNullable s) = ok_nullable s"
| "field_ok (FBytes b) = ok_bytes b"

fun read_fields_like :: "field list \<Rightarrow> (reader, field list) state" where
  "read_fields_like [] = State_Monad.return []"
| "read_fields_like (f # fs) = do {
     x \<leftarrow> read_field_like f; xs \<leftarrow> read_fields_like fs; State_Monad.return (x # xs) }"

lemma write_field_append: "write_field f w = w @ write_field f []"
  by (cases f) (simp_all add: writer_defs split: option.splits)

lemma decodes_field: "field_ok f \<Longrightarrow> decodes (read_field_like f) (write_field f []) f"
proof (cases f)
  case (FInt8 v)
  moreover assume "field_ok f"
  ultimately have "decodes Int8_r (be_bytes 1 v) v" by (intro decodes_Int8) simp
  from decodes_map [OF this, of f FInt8] FInt8 show ?thesis
    by (simp add: Int8_w_def)
qed (auto simp: Int16_w_def Int32_w_def Int64_w_def
    intro!: decodes_map [OF int16.decodes_enc] decodes_map [OF int32.decodes_enc]
      decodes_map [OF int64.decodes_enc] decodes_map [OF str.decodes_enc]
      decodes_map [OF nstr.decodes_enc] decodes_map [OF byt.decodes_enc])

lemma decodes_fields:
  "list_all field_ok fs \<Longrightarrow> decodes (read_fields_like fs) (concat (map (\<lambda>f. write_field f []) fs)) fs"
proof (induction fs)
  case Nil
  then show ?case by (simp add: decodes_return)
next
  case (Cons f fs)
  then show ?case by (auto intro!: decodes_bind decodes_map decodes_field)
qed

lemma fold_write_field: "fold write_field fs w = w @ concat (map (\<lambda>f. write_field f []) fs)"
proof (induction fs arbitrary: w)
  case (Cons f fs)
  show ?case by (simp add: Cons write_field_append [of f w])
qed simp

text \<open>C22: for every sequence of wire fields whose values fit their types (strings shorter than
  \<open>2 ^ 15\<close>, byte strings shorter than \<open>2 ^ 31\<close>), reading back what the \<open>Writer\<close> wrote returns the
  same values, consumes the buffer exactly and leaves the \<open>Reader\<close> without an error.\<close>

theorem wire_fields_roundtrip:
  assumes "list_all field_ok fs"
  shows "run_state (read_fields_like fs) (NewReader (fold write_field fs NewWriter)) =
    (fs, \<lparr>buf = fold write_field fs NewWriter, pos = length (fold write_field fs NewWriter), err = None\<rparr>)"
  using decodesD [OF decodes_fields [OF assms], of "NewReader (fold write_field fs NewWriter)" "[]"]
  by (simp add: fold_write_field NewWriter_def) (simp add: NewReader_def adv_r_def)

theorem wire_fields_roundtrip_witness:
  "list_all field_ok [FInt16 (-300), FString ''hello'', FNullable None, FBytes (Some [1, 2, 3]), FInt64 7]
   \<and> run_state (read_fields_like [FInt16 (-300), FString ''hello'', FNullable None, FBytes (Some [1, 2, 3]), FInt64 7])
       (NewReader (fold write_field [FInt16 (-300), FString ''hello'', FNullable None, FBytes (Some [1, 2, 3]), FInt64 7] NewWriter))
     = ([FInt16 (-300), FString ''hello'', FNullable None, FBytes (Some [1, 2, 3]), FInt64 7],
        \<lparr>buf = fold write_field [FInt16 (-300), FString ''hello'', FNullable None, FBytes (Some [1, 2, 3]), FInt64 7] NewWriter,
         pos = 26, err = None\<rparr>)"
proof -
  let ?fs = "[FInt16 (-300), FString ''hello'', FNullable None, FBytes (Some [1, 2, 3]), FInt64 7]"
  have ok: "list_all field_ok ?fs"
    by (simp add: in_i16_def in_i64_def ok_string_def ok_nullable_def ok_bytes_def)
  have "length (fold write_field ?fs NewWriter) = 26"
    by (simp add: writer_defs)
  with ok wire_fields_roundtrip [OF ok] show ?thesis by simp
qed

text \<open>The reader's invariant: the position stays inside the buffer.\<close>

definition reader_ok :: "reader \<Rightarrow> bool" where
  "reader_ok r \<longleftrightarrow> pos r \<le> length (buf r)"

text \<open>One read: the state a primitive of the \<open>Reader\<close> may leave. The buffer is never touched, the
  position never moves back or past the end, and a recorded error freezes the reader.\<close>

definition safe_step :: "reader \<Rightarrow> reader \<Rightarrow> bool" where
  "safe_step r r' \<longleftrightarrow> (reader_ok r \<longrightarrow>
     reader_ok r' \<and> buf r' = buf r \<and> pos r \<le> pos r' \<and> (err r \<noteq> None \<longrightarrow> r' = r))"

abbreviation read_safe :: "(reader, 'a) state \<Rightarrow> bool" where
  "read_safe \<equiv> state_io_rel safe_step"

lemma safe_step_refl [simp]: "safe_step r r"
  by (simp add: safe_step_def)

lemma safe_step_trans: "safe_step r s \<Longrightarrow> safe_step s t \<Longrightarrow> safe_step r t"
  by (auto simp: safe_step_def)

lemma read_safe_return [simp]: "read_safe (State_Monad.return x)"
  by (auto simp: state_io_rel_def)

lemma read_safe_bind:
  assumes "read_safe d" and "\<And>x. read_safe (f x)"
  shows "read_safe (d \<bind> f)"
proof (rule state_io_relI)
  fix y r r'
  assume run: "run_state (d \<bind> f) r = (y, r')"
  obtain x r1 where d: "run_state d r = (x, r1)" by fastforce
  with run have f: "run_state (f x) r1 = (y, r')" by (simp add: State_Monad.bind_def)
  show "safe_step r r'"
    using state_io_relD [OF assms(1) d] state_io_relD [OF assms(2) f] by (rule safe_step_trans)
qed

lemma read_safe_take [simp]: "read_safe (take_r n)"
  by (rule state_io_relI) (auto simp: take_r_def fail_r_def reader_ok_def safe_step_def split: if_splits)

lemma read_safe_repeat: "read_safe d \<Longrightarrow> read_safe (repeat_r n d)"
  by (induction n) (simp_all add: read_safe_bind)

lemma read_safe_ints [simp]: "read_safe Int8_r" "read_safe Int16_r" "read_safe Int32_r" "read_safe Int64_r"
  by (simp_all add: Int8_r_def Int16_r_def Int32_r_def Int64_r_def read_safe_bind)

lemma read_safe_strings [simp]:
  "read_safe String_r" "read_safe NullableString_r" "read_safe Bytes_r" "read_safe (Raw_r n)"
  by (simp_all add: String_r_def NullableString_r_def Bytes_r_def Raw_r_def read_safe_bind)

lemma read_safe_ArrayLen [simp]: "read_safe ArrayLen_r"
  unfolding ArrayLen_r_def
  by (rule read_safe_bind [OF read_safe_ints(3)])
    (auto simp: state_io_rel_def safe_step_def fail_r_def reader_ok_def)

lemma uvarint_count: "uvarint i x bs = (u, n) \<Longrightarrow> n \<le> int i + int (length bs)"
  by (induction i x bs rule: uvarint.induct) (auto split: if_splits)

lemma read_safe_Varint [simp]: "read_safe Varint_r"
proof (rule state_io_relI)
  fix y r r'
  assume run: "run_state Varint_r r = (y, r')"
  obtain u n where un: "uvarint 0 0 (drop (pos r) (buf r)) = (u, n)" by fastforce
  with uvarint_count [OF un] run show "safe_step r r'"
    by (auto simp: Varint_r_def fail_r_def reader_ok_def safe_step_def split: if_splits)
qed

text \<open>Every read primitive keeps the position inside the buffer (so no slice expression of the
  reader can panic), never touches the buffer, never moves backwards, and leaves a reader that has
  already recorded an error unchanged (the sticky error).\<close>

lemma reader_primitives_safe:
  "read_safe Int8_r \<and> read_safe Int16_r \<and> read_safe Int32_r \<and> read_safe Int64_r \<and> read_safe Varint_r
   \<and> read_safe String_r \<and> read_safe NullableString_r \<and> read_safe Bytes_r \<and> read_safe ArrayLen_r
   \<and> read_safe (Raw_r n)"
  by simp

text \<open>C23: the element count that \<open>ArrayLen\<close> hands to a decoding loop (and to \<open>make\<close>) never exceeds the
  number of unread bytes, so a malformed length cannot make a decoder allocate or loop beyond the
  request it was sent.\<close>

theorem ArrayLen_bounded:
  assumes "reader_ok r" and "run_state ArrayLen_r r = (n, r')"
  shows "n \<le> length (buf r') - pos r' \<and> reader_ok r'"
proof -
  obtain v r1 where v: "run_state Int32_r r = (v, r1)" by fastforce
  with assms(1) have "reader_ok r1"
    using state_io_relD [OF read_safe_ints(3) v] by (simp add: safe_step_def)
  with v assms(2) show ?thesis
    by (auto simp: ArrayLen_r_def State_Monad.bind_def fail_r_def reader_ok_def split: if_splits)
qed

theorem ArrayLen_bounded_witness:
  "reader_ok (NewReader [0, 0, 0, 2, 7, 8, 9])
   \<and> run_state ArrayLen_r (NewReader [0, 0, 0, 2, 7, 8, 9]) =
       (2, \<lparr>buf = [0, 0, 0, 2, 7, 8, 9], pos = 4, err = None\<rparr>)
   \<and> 2 \<le> length (buf \<lparr>buf = [0, 0, 0, 2, 7, 8, 9 :: byte], pos = 4, err = None\<rparr>) - (4 :: nat)"
proof -
  have ok: "reader_ok (NewReader [0, 0, 0, 2, 7, 8, 9])"
    by (simp add: reader_ok_def NewReader_def)
  have run: "run_state ArrayLen_r (NewReader [0, 0, 0, 2, 7, 8, 9]) =
      (2, \<lparr>buf = [0, 0, 0, 2, 7, 8, 9], pos = 4, err = None\<rparr>)"
    by (simp add: ArrayLen_r_def Int32_r_def take_r_def NewReader_def State_Monad.bind_def i32_def)
  from ok run ArrayLen_bounded [OF ok run] show ?thesis by simp
qed

end
