(* ===== verification/Protocol_Core.thy ===== *)
theory Protocol_Core
  imports Kbytes
begin

text \<open>
  \<open>internal/protocol\<close>, first part: the API table and error codes, request and response headers, and
  the messages of ApiVersions, Produce, Fetch, ListOffsets and Metadata. A message struct is a
  record whose field names carry a prefix per struct; a \<open>Decode\<close> method is a computation of the
  reader that returns the struct, an \<open>Encode\<close> method maps a writer to the extended one. A field
  that a version does not carry keeps its zero value.
\<close>

section \<open>API keys, versions and error codes\<close>

definition APIProduce :: int where "APIProduce = 0"
definition APIFetch :: int where "APIFetch = 1"
definition APIListOffsets :: int where "APIListOffsets = 2"
definition APIMetadata :: int where "APIMetadata = 3"
definition APIOffsetCommit :: int where "APIOffsetCommit = 8"
definition APIOffsetFetch :: int where "APIOffsetFetch = 9"
definition APIFindCoordinator :: int where "APIFindCoordinator = 10"
definition APIJoinGroup :: int where "APIJoinGroup = 11"
definition APIHeartbeat :: int where "APIHeartbeat = 12"
definition APILeaveGroup :: int where "APILeaveGroup = 13"
definition APISyncGroup :: int where "APISyncGroup = 14"
definition APIDescribeGroups :: int where "APIDescribeGroups = 15"
definition APIListGroups :: int where "APIListGroups = 16"
definition APIApiVersions :: int where "APIApiVersions = 18"
definition APICreateTopics :: int where "APICreateTopics = 19"
definition APICreatePartitions :: int where "APICreatePartitions = 37"

lemmas api_defs = APIProduce_def APIFetch_def APIListOffsets_def APIMetadata_def APIOffsetCommit_def
  APIOffsetFetch_def APIFindCoordinator_def APIJoinGroup_def APIHeartbeat_def APILeaveGroup_def
  APISyncGroup_def APIDescribeGroups_def APIListGroups_def APIApiVersions_def APICreateTopics_def
  APICreatePartitions_def

record VersionRange =
  vr_APIKey :: int
  vr_Min :: int
  vr_Max :: int

abbreviation version_range :: "int \<Rightarrow> int \<Rightarrow> int \<Rightarrow> VersionRange" where
  "version_range k lo hi \<equiv> \<lparr>vr_APIKey = k, vr_Min = lo, vr_Max = hi\<rparr>"

definition SupportedVersions :: "VersionRange list" where
  "SupportedVersions =
    [version_range APIProduce 0 7,
     version_range APIFetch 0 11,
     version_range APIListOffsets 0 5,
     version_range APIMetadata 0 8,
     version_range APIOffsetCommit 0 6,
     version_range APIOffsetFetch 0 5,
     version_range APIFindCoordinator 0 2,
     version_range APIJoinGroup 0 4,
     version_range APIHeartbeat 0 2,
     version_range APILeaveGroup 0 2,
     version_range APISyncGroup 0 2,
     version_range APIDescribeGroups 0 2,
     version_range APIListGroups 0 2,
     version_range APIApiVersions 0 2,
     version_range APICreateTopics 0 4,
     version_range APICreatePartitions 0 1]"

definition Supported :: "int \<Rightarrow> VersionRange option" where
  "Supported apiKey = find (\<lambda>v. vr_APIKey v = apiKey) SupportedVersions"

text \<open>Kafka error codes; the suffix tells them from the error values of the storage packages.\<close>

definition ErrNone_code :: int where "ErrNone_code = 0"
definition ErrOffsetOutOfRange_code :: int where "ErrOffsetOutOfRange_code = 1"
definition ErrUnknownTopicOrPart_code :: int where "ErrUnknownTopicOrPart_code = 3"
definition ErrNotLeader_code :: int where "ErrNotLeader_code = 6"
definition ErrRequestTimedOut_code :: int where "ErrRequestTimedOut_code = 7"
definition ErrNotCoordinator_code :: int where "ErrNotCoordinator_code = 16"
definition ErrIllegalGeneration_code :: int where "ErrIllegalGeneration_code = 22"
definition ErrUnknownMemberID_code :: int where "ErrUnknownMemberID_code = 25"
definition ErrRebalanceInProgress_code :: int where "ErrRebalanceInProgress_code = 27"
definition ErrUnsupportedVersion_code :: int where "ErrUnsupportedVersion_code = 35"
definition ErrTopicAlreadyExists_code :: int where "ErrTopicAlreadyExists_code = 36"
definition ErrInvalidPartitions_code :: int where "ErrInvalidPartitions_code = 37"

lemmas err_code_defs = ErrNone_code_def ErrOffsetOutOfRange_code_def ErrUnknownTopicOrPart_code_def
  ErrNotLeader_code_def ErrRequestTimedOut_code_def ErrNotCoordinator_code_def
  ErrIllegalGeneration_code_def ErrUnknownMemberID_code_def ErrRebalanceInProgress_code_def
  ErrUnsupportedVersion_code_def ErrTopicAlreadyExists_code_def ErrInvalidPartitions_code_def

section \<open>Headers and ApiVersions\<close>

record RequestHeader =
  rh_APIKey :: int
  rh_APIVersion :: int
  rh_CorrelationID :: int
  rh_ClientID :: "string option"

definition DecodeRequestHeader :: "(reader, RequestHeader) state" where
  "DecodeRequestHeader = do {
     k \<leftarrow> Int16_r;
     v \<leftarrow> Int16_r;
     c \<leftarrow> Int32_r;
     i \<leftarrow> NullableString_r;
     State_Monad.return \<lparr>rh_APIKey = k, rh_APIVersion = v, rh_CorrelationID = c, rh_ClientID = i\<rparr>
   }"

definition WriteResponseHeader :: "int \<Rightarrow> writer \<Rightarrow> writer" where
  "WriteResponseHeader correlationID w = Int32_w correlationID w"

record ApiVersionsResponse =
  av_ErrorCode :: int
  av_Versions :: "VersionRange list"
  av_ThrottleTime :: int

definition ApiVersionsResponse_Encode :: "ApiVersionsResponse \<Rightarrow> int \<Rightarrow> writer \<Rightarrow> writer" where
  "ApiVersionsResponse_Encode resp version w =
     (let w = Int16_w (av_ErrorCode resp) w;
          w = ArrayLen_w (length (av_Versions resp)) w;
          w = fold (\<lambda>v w.
                let w = Int16_w (vr_APIKey v) w;
                    w = Int16_w (vr_Min v) w
                in Int16_w (vr_Max v) w) (av_Versions resp) w
      in if version \<ge> 1 then Int32_w (av_ThrottleTime resp) w else w)"

section \<open>Produce\<close>

record ProducePartition =
  pp_Index :: int
  pp_Records :: "bytes option"

record ProduceTopic =
  pt_Name :: string
  pt_Partitions :: "ProducePartition list"

record ProduceRequest =
  pr_TransactionalID :: "string option"
  pr_Acks :: int
  pr_TimeoutMs :: int
  pr_Topics :: "ProduceTopic list"

text \<open>A field present from some version on: the decoder reads it, or leaves the zero value.\<close>

abbreviation when_r :: "bool \<Rightarrow> (reader, 'a) state \<Rightarrow> 'a \<Rightarrow> (reader, 'a) state" where
  "when_r c d z \<equiv> (if c then d else State_Monad.return z)"

definition ProducePartition_Decode :: "(reader, ProducePartition) state" where
  "ProducePartition_Decode = do {
     i \<leftarrow> Int32_r;
     rs \<leftarrow> Bytes_r;
     State_Monad.return \<lparr>pp_Index = i, pp_Records = rs\<rparr>
   }"

definition ProduceTopic_Decode :: "(reader, ProduceTopic) state" where
  "ProduceTopic_Decode = do {
     name \<leftarrow> String_r;
     np \<leftarrow> ArrayLen_r;
     ps \<leftarrow> repeat_r np ProducePartition_Decode;
     State_Monad.return \<lparr>pt_Name = name, pt_Partitions = ps\<rparr>
   }"

definition ProduceRequest_Decode :: "int \<Rightarrow> (reader, ProduceRequest) state" where
  "ProduceRequest_Decode version = do {
     tid \<leftarrow> when_r (version \<ge> 3) NullableString_r None;
     acks \<leftarrow> Int16_r;
     timeout \<leftarrow> Int32_r;
     nt \<leftarrow> ArrayLen_r;
     ts \<leftarrow> repeat_r nt ProduceTopic_Decode;
     State_Monad.return \<lparr>pr_TransactionalID = tid, pr_Acks = acks, pr_TimeoutMs = timeout, pr_Topics = ts\<rparr>
   }"

record ProducePartitionResp =
  ppr_Index :: int
  ppr_ErrorCode :: int
  ppr_BaseOffset :: int
  ppr_LogAppendTime :: int
  ppr_LogStartOffset :: int

record ProduceTopicResp =
  ptr_Name :: string
  ptr_Partitions :: "ProducePartitionResp list"

record ProduceResponse =
  prr_Topics :: "ProduceTopicResp list"
  prr_ThrottleTime :: int

definition ProduceResponse_Encode :: "ProduceResponse \<Rightarrow> int \<Rightarrow> writer \<Rightarrow> writer" where
  "ProduceResponse_Encode resp version w =
     (let w = ArrayLen_w (length (prr_Topics resp)) w;
          w = fold (\<lambda>t w.
                let w = String_w (ptr_Name t) w;
                    w = ArrayLen_w (length (ptr_Partitions t)) w
                in fold (\<lambda>p w.
                     let w = Int32_w (ppr_Index p) w;
                         w = Int16_w (ppr_ErrorCode p) w;
                         w = Int64_w (ppr_BaseOffset p) w;
                         w = (if version \<ge> 2 then Int64_w (ppr_LogAppendTime p) w else w)
                     in if version \<ge> 5 then Int64_w (ppr_LogStartOffset p) w else w)
                   (ptr_Partitions t) w)
              (prr_Topics resp) w
      in if version \<ge> 1 then Int32_w (prr_ThrottleTime resp) w else w)"

section \<open>Fetch\<close>

record FetchPartition =
  fp_Partition :: int
  fp_FetchOffset :: int
  fp_LogStartOffset :: int
  fp_MaxBytes :: int

record FetchTopic =
  ft_Name :: string
  ft_Partitions :: "FetchPartition list"

record FetchRequest =
  fr_ReplicaID :: int
  fr_MaxWaitMs :: int
  fr_MinBytes :: int
  fr_MaxBytes :: int
  fr_IsolationLevel :: int
  fr_SessionID :: int
  fr_SessionEpoch :: int
  fr_Topics :: "FetchTopic list"

definition FetchPartition_Decode :: "int \<Rightarrow> (reader, FetchPartition) state" where
  "FetchPartition_Decode version = do {
     p \<leftarrow> Int32_r;
     _ \<leftarrow> when_r (version \<ge> 9) Int32_r 0;
     off \<leftarrow> Int64_r;
     ls \<leftarrow> when_r (version \<ge> 5) Int64_r 0;
     mb \<leftarrow> Int32_r;
     State_Monad.return \<lparr>fp_Partition = p, fp_FetchOffset = off, fp_LogStartOffset = ls, fp_MaxBytes = mb\<rparr>
   }"

definition FetchTopic_Decode :: "int \<Rightarrow> (reader, FetchTopic) state" where
  "FetchTopic_Decode version = do {
     name \<leftarrow> String_r;
     np \<leftarrow> ArrayLen_r;
     ps \<leftarrow> repeat_r np (FetchPartition_Decode version);
     State_Monad.return \<lparr>ft_Name = name, ft_Partitions = ps\<rparr>
   }"

definition FetchRequest_Decode :: "int \<Rightarrow> (reader, FetchRequest) state" where
  "FetchRequest_Decode version = do {
     rid \<leftarrow> Int32_r;
     mw \<leftarrow> Int32_r;
     minb \<leftarrow> Int32_r;
     maxb \<leftarrow> when_r (version \<ge> 3) Int32_r 0;
     iso \<leftarrow> when_r (version \<ge> 4) Int8_r 0;
     sid \<leftarrow> when_r (version \<ge> 7) Int32_r 0;
     se \<leftarrow> when_r (version \<ge> 7) Int32_r 0;
     nt \<leftarrow> ArrayLen_r;
     ts \<leftarrow> repeat_r nt (FetchTopic_Decode version);
     State_Monad.return \<lparr>fr_ReplicaID = rid, fr_MaxWaitMs = mw, fr_MinBytes = minb, fr_MaxBytes = maxb,
       fr_IsolationLevel = iso, fr_SessionID = sid, fr_SessionEpoch = se, fr_Topics = ts\<rparr>
   }"

record FetchPartitionResp =
  fpr_Partition :: int
  fpr_ErrorCode :: int
  fpr_HighWatermark :: int
  fpr_LastStable :: int
  fpr_LogStartOffset :: int
  fpr_Records :: "bytes option"

record FetchTopicResp =
  ftr_Name :: string
  ftr_Partitions :: "FetchPartitionResp list"

record FetchResponse =
  frr_ThrottleTime :: int
  frr_ErrorCode :: int
  frr_SessionID :: int
  frr_Topics :: "FetchTopicResp list"

definition FetchPartitionResp_Encode :: "int \<Rightarrow> FetchPartitionResp \<Rightarrow> writer \<Rightarrow> writer" where
  "FetchPartitionResp_Encode version p w =
     (let w = Int32_w (fpr_Partition p) w;
          w = Int16_w (fpr_ErrorCode p) w;
          w = Int64_w (fpr_HighWatermark p) w;
          w = (if version \<ge> 4 then Int64_w (fpr_LastStable p) w else w);
          w = (if version \<ge> 5 then Int64_w (fpr_LogStartOffset p) w else w);
          w = (if version \<ge> 4 then ArrayLen_w 0 w else w);
          w = (if version \<ge> 11 then Int32_w (-1) w else w)
      in Bytes_w (fpr_Records p) w)"

definition FetchResponse_Encode :: "FetchResponse \<Rightarrow> int \<Rightarrow> writer \<Rightarrow> writer" where
  "FetchResponse_Encode resp version w =
     (let w = (if version \<ge> 1 then Int32_w (frr_ThrottleTime resp) w else w);
          w = (if version \<ge> 7 then
                 let w = Int16_w (frr_ErrorCode resp) w in Int32_w (frr_SessionID resp) w
               else w);
          w = ArrayLen_w (length (frr_Topics resp)) w
      in fold (\<lambda>t w.
           let w = String_w (ftr_Name t) w;
               w = ArrayLen_w (length (ftr_Partitions t)) w
           in fold (FetchPartitionResp_Encode version) (ftr_Partitions t) w)
         (frr_Topics resp) w)"

section \<open>ListOffsets\<close>

definition TimestampLatest :: int where "TimestampLatest = -1"
definition TimestampEarliest :: int where "TimestampEarliest = -2"

record ListOffsetsPartition =
  lp_Index :: int
  lp_Timestamp :: int
  lp_MaxNumOffsets :: int

record ListOffsetsTopic =
  lt_Name :: string
  lt_Partitions :: "ListOffsetsPartition list"

record ListOffsetsRequest =
  lr_ReplicaID :: int
  lr_IsolationLevel :: int
  lr_Topics :: "ListOffsetsTopic list"

definition ListOffsetsPartition_Decode :: "int \<Rightarrow> (reader, ListOffsetsPartition) state" where
  "ListOffsetsPartition_Decode version = do {
     i \<leftarrow> Int32_r;
     _ \<leftarrow> when_r (version \<ge> 4) Int32_r 0;
     ts \<leftarrow> Int64_r;
     mx \<leftarrow> when_r (version = 0) Int32_r 0;
     State_Monad.return \<lparr>lp_Index = i, lp_Timestamp = ts, lp_MaxNumOffsets = mx\<rparr>
   }"

definition ListOffsetsTopic_Decode :: "int \<Rightarrow> (reader, ListOffsetsTopic) state" where
  "ListOffsetsTopic_Decode version = do {
     name \<leftarrow> String_r;
     np \<leftarrow> ArrayLen_r;
     ps \<leftarrow> repeat_r np (ListOffsetsPartition_Decode version);
     State_Monad.return \<lparr>lt_Name = name, lt_Partitions = ps\<rparr>
   }"

definition ListOffsetsRequest_Decode :: "int \<Rightarrow> (reader, ListOffsetsRequest) state" where
  "ListOffsetsRequest_Decode version = do {
     rid \<leftarrow> Int32_r;
     iso \<leftarrow> when_r (version \<ge> 2) Int8_r 0;
     nt \<leftarrow> ArrayLen_r;
     ts \<leftarrow> repeat_r nt (ListOffsetsTopic_Decode version);
     State_Monad.return \<lparr>lr_ReplicaID = rid, lr_IsolationLevel = iso, lr_Topics = ts\<rparr>
   }"

record ListOffsetsPartitionResp =
  lpr_Index :: int
  lpr_ErrorCode :: int
  lpr_Timestamp :: int
  lpr_Offset :: int

record ListOffsetsTopicResp =
  ltr_Name :: string
  ltr_Partitions :: "ListOffsetsPartitionResp list"

record ListOffsetsResponse =
  lrr_ThrottleTime :: int
  lrr_Topics :: "ListOffsetsTopicResp list"

definition ListOffsetsResponse_Encode :: "ListOffsetsResponse \<Rightarrow> int \<Rightarrow> writer \<Rightarrow> writer" where
  "ListOffsetsResponse_Encode resp version w =
     (let w = (if version \<ge> 2 then Int32_w (lrr_ThrottleTime resp) w else w);
          w = ArrayLen_w (length (lrr_Topics resp)) w
      in fold (\<lambda>t w.
           let w = String_w (ltr_Name t) w;
               w = ArrayLen_w (length (ltr_Partitions t)) w
           in fold (\<lambda>p w.
                let w = Int32_w (lpr_Index p) w;
                    w = Int16_w (lpr_ErrorCode p) w
                in if version = 0 then
                     let w = ArrayLen_w 1 w in Int64_w (lpr_Offset p) w
                   else
                     let w = Int64_w (lpr_Timestamp p) w;
                         w = Int64_w (lpr_Offset p) w
                     in if version \<ge> 4 then Int32_w (-1) w else w)
              (ltr_Partitions t) w)
         (lrr_Topics resp) w)"

section \<open>Metadata\<close>

record MetadataRequest =
  mr_Topics :: "string list"
  mr_AllTopics :: bool

definition MetadataRequest_Decode :: "int \<Rightarrow> (reader, MetadataRequest) state" where
  "MetadataRequest_Decode version = do {
     n \<leftarrow> ArrayLen_r;
     if n = 0 then State_Monad.return \<lparr>mr_Topics = [], mr_AllTopics = True\<rparr>
     else do {
       ts \<leftarrow> repeat_r n String_r;
       State_Monad.return \<lparr>mr_Topics = ts, mr_AllTopics = False\<rparr>
     }
   }"

record MetadataBroker =
  mb_NodeID :: int
  mb_Host :: string
  mb_Port :: int

record MetadataPartition =
  mp_ErrorCode :: int
  mp_Index :: int
  mp_Leader :: int
  mp_LeaderEpoch :: int
  mp_Replicas :: "int list"
  mp_Isr :: "int list"

record MetadataTopic =
  mt_ErrorCode :: int
  mt_Name :: string
  mt_IsInternal :: bool
  mt_Partitions :: "MetadataPartition list"

record MetadataResponse =
  mrr_ThrottleTime :: int
  mrr_Brokers :: "MetadataBroker list"
  mrr_ClusterID :: "string option"
  mrr_ControllerID :: int
  mrr_Topics :: "MetadataTopic list"

definition MetadataPartition_Encode :: "int \<Rightarrow> MetadataPartition \<Rightarrow> writer \<Rightarrow> writer" where
  "MetadataPartition_Encode version p w =
     (let w = Int16_w (mp_ErrorCode p) w;
          w = Int32_w (mp_Index p) w;
          w = Int32_w (mp_Leader p) w;
          w = (if version \<ge> 7 then Int32_w (mp_LeaderEpoch p) w else w);
          w = ArrayLen_w (length (mp_Replicas p)) w;
          w = fold Int32_w (mp_Replicas p) w;
          w = ArrayLen_w (length (mp_Isr p)) w;
          w = fold Int32_w (mp_Isr p) w
      in if version \<ge> 5 then ArrayLen_w 0 w else w)"

definition MetadataResponse_Encode :: "MetadataResponse \<Rightarrow> int \<Rightarrow> writer \<Rightarrow> writer" where
  "MetadataResponse_Encode resp version w =
     (let w = (if version \<ge> 3 then Int32_w (mrr_ThrottleTime resp) w else w);
          w = ArrayLen_w (length (mrr_Brokers resp)) w;
          w = fold (\<lambda>b w.
                let w = Int32_w (mb_NodeID b) w;
                    w = String_w (mb_Host b) w;
                    w = Int32_w (mb_Port b) w
                in if version \<ge> 1 then NullableString_w None w else w)
              (mrr_Brokers resp) w;
          w = (if version \<ge> 2 then NullableString_w (mrr_ClusterID resp) w else w);
          w = (if version \<ge> 1 then Int32_w (mrr_ControllerID resp) w else w);
          w = ArrayLen_w (length (mrr_Topics resp)) w;
          w = fold (\<lambda>t w.
                let w = Int16_w (mt_ErrorCode t) w;
                    w = String_w (mt_Name t) w;
                    w = (if version \<ge> 1 then Bool_w (mt_IsInternal t) w else w);
                    w = ArrayLen_w (length (mt_Partitions t)) w;
                    w = fold (MetadataPartition_Encode version) (mt_Partitions t) w
                in if version \<ge> 8 then Int32_w (-1) w else w)
              (mrr_Topics resp) w
      in if version \<ge> 8 then Int32_w (-1) w else w)"

end
