(* ===== verification/Protocol_Group.thy ===== *)
theory Protocol_Group
  imports Protocol_Core
begin

text \<open>
  \<open>internal/protocol\<close>, second part: the messages of the group APIs (FindCoordinator, JoinGroup,
  SyncGroup, Heartbeat, LeaveGroup, DescribeGroups, ListGroups, OffsetCommit, OffsetFetch) and of
  the topic administration APIs (CreateTopics, CreatePartitions).
\<close>

section \<open>FindCoordinator\<close>

record FindCoordinatorRequest =
  fc_Key :: string
  fc_KeyType :: int

definition FindCoordinatorRequest_Decode :: "int \<Rightarrow> (reader, FindCoordinatorRequest) state" where
  "FindCoordinatorRequest_Decode version = do {
     k \<leftarrow> String_r;
     t \<leftarrow> when_r (version \<ge> 1) Int8_r 0;
     State_Monad.return \<lparr>fc_Key = k, fc_KeyType = t\<rparr>
   }"

record FindCoordinatorResponse =
  fcr_ThrottleTime :: int
  fcr_ErrorCode :: int
  fcr_ErrorMessage :: "string option"
  fcr_NodeID :: int
  fcr_Host :: string
  fcr_Port :: int

definition FindCoordinatorResponse_Encode :: "FindCoordinatorResponse \<Rightarrow> int \<Rightarrow> writer \<Rightarrow> writer" where
  "FindCoordinatorResponse_Encode resp version w =
     (let w = (if version \<ge> 1 then Int32_w (fcr_ThrottleTime resp) w else w);
          w = Int16_w (fcr_ErrorCode resp) w;
          w = (if version \<ge> 1 then NullableString_w (fcr_ErrorMessage resp) w else w);
          w = Int32_w (fcr_NodeID resp) w;
          w = String_w (fcr_Host resp) w
      in Int32_w (fcr_Port resp) w)"

section \<open>JoinGroup\<close>

record JoinGroupProtocol =
  jp_Name :: string
  jp_Metadata :: "bytes option"

record JoinGroupRequest =
  jr_GroupID :: string
  jr_SessionTimeout :: int
  jr_RebalanceTimeout :: int
  jr_MemberID :: string
  jr_ProtocolType :: string
  jr_Protocols :: "JoinGroupProtocol list"

definition JoinGroupProtocol_Decode :: "(reader, JoinGroupProtocol) state" where
  "JoinGroupProtocol_Decode = do {
     n \<leftarrow> String_r;
     m \<leftarrow> Bytes_r;
     State_Monad.return \<lparr>jp_Name = n, jp_Metadata = m\<rparr>
   }"

definition JoinGroupRequest_Decode :: "int \<Rightarrow> (reader, JoinGroupRequest) state" where
  "JoinGroupRequest_Decode version = do {
     g \<leftarrow> String_r;
     st \<leftarrow> Int32_r;
     rt \<leftarrow> when_r (version \<ge> 1) Int32_r 0;
     m \<leftarrow> String_r;
     pt \<leftarrow> String_r;
     n \<leftarrow> ArrayLen_r;
     ps \<leftarrow> repeat_r n JoinGroupProtocol_Decode;
     State_Monad.return \<lparr>jr_GroupID = g, jr_SessionTimeout = st, jr_RebalanceTimeout = rt, jr_MemberID = m,
       jr_ProtocolType = pt, jr_Protocols = ps\<rparr>
   }"

record JoinGroupMember =
  jm_MemberID :: string
  jm_Metadata :: "bytes option"

record JoinGroupResponse =
  jrr_ThrottleTime :: int
  jrr_ErrorCode :: int
  jrr_GenerationID :: int
  jrr_ProtocolName :: string
  jrr_Leader :: string
  jrr_MemberID :: string
  jrr_Members :: "JoinGroupMember list"

definition JoinGroupResponse_Encode :: "JoinGroupResponse \<Rightarrow> int \<Rightarrow> writer \<Rightarrow> writer" where
  "JoinGroupResponse_Encode resp version w =
     (let w = (if version \<ge> 2 then Int32_w (jrr_ThrottleTime resp) w else w);
          w = Int16_w (jrr_ErrorCode resp) w;
          w = Int32_w (jrr_GenerationID resp) w;
          w = String_w (jrr_ProtocolName resp) w;
          w = String_w (jrr_Leader resp) w;
          w = String_w (jrr_MemberID resp) w;
          w = ArrayLen_w (length (jrr_Members resp)) w
      in fold (\<lambda>m w. let w = String_w (jm_MemberID m) w in Bytes_w (jm_Metadata m) w) (jrr_Members resp) w)"

section \<open>SyncGroup, Heartbeat, LeaveGroup\<close>

record SyncGroupAssignment =
  sa_MemberID :: string
  sa_Assignment :: "bytes option"

record SyncGroupRequest =
  sr_GroupID :: string
  sr_GenerationID :: int
  sr_MemberID :: string
  sr_Assignments :: "SyncGroupAssignment list"

definition SyncGroupAssignment_Decode :: "(reader, SyncGroupAssignment) state" where
  "SyncGroupAssignment_Decode = do {
     m \<leftarrow> String_r;
     a \<leftarrow> Bytes_r;
     State_Monad.return \<lparr>sa_MemberID = m, sa_Assignment = a\<rparr>
   }"

definition SyncGroupRequest_Decode :: "int \<Rightarrow> (reader, SyncGroupRequest) state" where
  "SyncGroupRequest_Decode version = do {
     g \<leftarrow> String_r;
     gen \<leftarrow> Int32_r;
     m \<leftarrow> String_r;
     n \<leftarrow> ArrayLen_r;
     as \<leftarrow> repeat_r n SyncGroupAssignment_Decode;
     State_Monad.return \<lparr>sr_GroupID = g, sr_GenerationID = gen, sr_MemberID = m, sr_Assignments = as\<rparr>
   }"

record SyncGroupResponse =
  srr_ThrottleTime :: int
  srr_ErrorCode :: int
  srr_Assignment :: "bytes option"

definition SyncGroupResponse_Encode :: "SyncGroupResponse \<Rightarrow> int \<Rightarrow> writer \<Rightarrow> writer" where
  "SyncGroupResponse_Encode resp version w =
     (let w = (if version \<ge> 1 then Int32_w (srr_ThrottleTime resp) w else w);
          w = Int16_w (srr_ErrorCode resp) w
      in Bytes_w (srr_Assignment resp) w)"

record HeartbeatRequest =
  hr_GroupID :: string
  hr_GenerationID :: int
  hr_MemberID :: string

definition HeartbeatRequest_Decode :: "int \<Rightarrow> (reader, HeartbeatRequest) state" where
  "HeartbeatRequest_Decode version = do {
     g \<leftarrow> String_r;
     gen \<leftarrow> Int32_r;
     m \<leftarrow> String_r;
     State_Monad.return \<lparr>hr_GroupID = g, hr_GenerationID = gen, hr_MemberID = m\<rparr>
   }"

record HeartbeatResponse =
  hrr_ThrottleTime :: int
  hrr_ErrorCode :: int

definition HeartbeatResponse_Encode :: "HeartbeatResponse \<Rightarrow> int \<Rightarrow> writer \<Rightarrow> writer" where
  "HeartbeatResponse_Encode resp version w =
     (let w = (if version \<ge> 1 then Int32_w (hrr_ThrottleTime resp) w else w)
      in Int16_w (hrr_ErrorCode resp) w)"

record LeaveGroupRequest =
  vg_GroupID :: string
  vg_MemberID :: string

definition LeaveGroupRequest_Decode :: "int \<Rightarrow> (reader, LeaveGroupRequest) state" where
  "LeaveGroupRequest_Decode version = do {
     g \<leftarrow> String_r;
     m \<leftarrow> String_r;
     State_Monad.return \<lparr>vg_GroupID = g, vg_MemberID = m\<rparr>
   }"

record LeaveGroupResponse =
  vgr_ThrottleTime :: int
  vgr_ErrorCode :: int

definition LeaveGroupResponse_Encode :: "LeaveGroupResponse \<Rightarrow> int \<Rightarrow> writer \<Rightarrow> writer" where
  "LeaveGroupResponse_Encode resp version w =
     (let w = (if version \<ge> 1 then Int32_w (vgr_ThrottleTime resp) w else w)
      in Int16_w (vgr_ErrorCode resp) w)"

section \<open>DescribeGroups and ListGroups\<close>

record DescribeGroupsRequest =
  dg_Groups :: "string list"

definition DescribeGroupsRequest_Decode :: "int \<Rightarrow> (reader, DescribeGroupsRequest) state" where
  "DescribeGroupsRequest_Decode version = do {
     n \<leftarrow> ArrayLen_r;
     gs \<leftarrow> repeat_r n String_r;
     State_Monad.return \<lparr>dg_Groups = gs\<rparr>
   }"

record DescribeGroupsMember =
  dm_MemberID :: string
  dm_ClientID :: string
  dm_ClientHost :: string
  dm_Metadata :: "bytes option"
  dm_Assignment :: "bytes option"

record DescribeGroupsGroup =
  dgg_ErrorCode :: int
  dgg_GroupID :: string
  dgg_State :: string
  dgg_ProtocolType :: string
  dgg_Protocol :: string
  dgg_Members :: "DescribeGroupsMember list"

record DescribeGroupsResponse =
  dgr_ThrottleTime :: int
  dgr_Groups :: "DescribeGroupsGroup list"

definition DescribeGroupsResponse_Encode :: "DescribeGroupsResponse \<Rightarrow> int \<Rightarrow> writer \<Rightarrow> writer" where
  "DescribeGroupsResponse_Encode resp version w =
     (let w = (if version \<ge> 1 then Int32_w (dgr_ThrottleTime resp) w else w);
          w = ArrayLen_w (length (dgr_Groups resp)) w
      in fold (\<lambda>g w.
           let w = Int16_w (dgg_ErrorCode g) w;
               w = String_w (dgg_GroupID g) w;
               w = String_w (dgg_State g) w;
               w = String_w (dgg_ProtocolType g) w;
               w = String_w (dgg_Protocol g) w;
               w = ArrayLen_w (length (dgg_Members g)) w
           in fold (\<lambda>m w.
                let w = String_w (dm_MemberID m) w;
                    w = String_w (dm_ClientID m) w;
                    w = String_w (dm_ClientHost m) w;
                    w = Bytes_w (dm_Metadata m) w
                in Bytes_w (dm_Assignment m) w)
              (dgg_Members g) w)
         (dgr_Groups resp) w)"

record ListGroupsGroup =
  lg_GroupID :: string
  lg_ProtocolType :: string

record ListGroupsResponse =
  lgr_ThrottleTime :: int
  lgr_ErrorCode :: int
  lgr_Groups :: "ListGroupsGroup list"

definition ListGroupsRequest_Decode :: "int \<Rightarrow> (reader, unit) state" where
  "ListGroupsRequest_Decode version = State_Monad.return ()"

definition ListGroupsResponse_Encode :: "ListGroupsResponse \<Rightarrow> int \<Rightarrow> writer \<Rightarrow> writer" where
  "ListGroupsResponse_Encode resp version w =
     (let w = (if version \<ge> 1 then Int32_w (lgr_ThrottleTime resp) w else w);
          w = Int16_w (lgr_ErrorCode resp) w;
          w = ArrayLen_w (length (lgr_Groups resp)) w
      in fold (\<lambda>g w. let w = String_w (lg_GroupID g) w in String_w (lg_ProtocolType g) w) (lgr_Groups resp) w)"

section \<open>OffsetCommit\<close>

record OffsetCommitPartition =
  op_Index :: int
  op_Offset :: int
  op_LeaderEpoch :: int
  op_Metadata :: "string option"

record OffsetCommitTopic =
  ot_Name :: string
  ot_Partitions :: "OffsetCommitPartition list"

record OffsetCommitRequest =
  or_GroupID :: string
  or_GenerationID :: int
  or_MemberID :: string
  or_Topics :: "OffsetCommitTopic list"

definition OffsetCommitPartition_Decode :: "int \<Rightarrow> (reader, OffsetCommitPartition) state" where
  "OffsetCommitPartition_Decode version = do {
     i \<leftarrow> Int32_r;
     off \<leftarrow> Int64_r;
     _ \<leftarrow> when_r (version = 1) Int64_r 0;
     le \<leftarrow> when_r (version \<ge> 6) Int32_r 0;
     m \<leftarrow> NullableString_r;
     State_Monad.return \<lparr>op_Index = i, op_Offset = off, op_LeaderEpoch = le, op_Metadata = m\<rparr>
   }"

definition OffsetCommitTopic_Decode :: "int \<Rightarrow> (reader, OffsetCommitTopic) state" where
  "OffsetCommitTopic_Decode version = do {
     name \<leftarrow> String_r;
     np \<leftarrow> ArrayLen_r;
     ps \<leftarrow> repeat_r np (OffsetCommitPartition_Decode version);
     State_Monad.return \<lparr>ot_Name = name, ot_Partitions = ps\<rparr>
   }"

definition OffsetCommitRequest_Decode :: "int \<Rightarrow> (reader, OffsetCommitRequest) state" where
  "OffsetCommitRequest_Decode version = do {
     g \<leftarrow> String_r;
     gen \<leftarrow> when_r (version \<ge> 1) Int32_r 0;
     m \<leftarrow> when_r (version \<ge> 1) String_r [];
     _ \<leftarrow> when_r (version \<ge> 2 \<and> version \<le> 4) Int64_r 0;
     nt \<leftarrow> ArrayLen_r;
     ts \<leftarrow> repeat_r nt (OffsetCommitTopic_Decode version);
     State_Monad.return \<lparr>or_GroupID = g, or_GenerationID = gen, or_MemberID = m, or_Topics = ts\<rparr>
   }"

record OffsetCommitPartitionResp =
  opr_Index :: int
  opr_ErrorCode :: int

record OffsetCommitTopicResp =
  otr_Name :: string
  otr_Partitions :: "OffsetCommitPartitionResp list"

record OffsetCommitResponse =
  orr_ThrottleTime :: int
  orr_Topics :: "OffsetCommitTopicResp list"

definition OffsetCommitResponse_Encode :: "OffsetCommitResponse \<Rightarrow> int \<Rightarrow> writer \<Rightarrow> writer" where
  "OffsetCommitResponse_Encode resp version w =
     (let w = (if version \<ge> 3 then Int32_w (orr_ThrottleTime resp) w else w);
          w = ArrayLen_w (length (orr_Topics resp)) w
      in fold (\<lambda>t w.
           let w = String_w (otr_Name t) w;
               w = ArrayLen_w (length (otr_Partitions t)) w
           in fold (\<lambda>p w. let w = Int32_w (opr_Index p) w in Int16_w (opr_ErrorCode p) w) (otr_Partitions t) w)
         (orr_Topics resp) w)"

section \<open>OffsetFetch\<close>

record OffsetFetchTopic =
  oft_Name :: string
  oft_Partitions :: "int list"

record OffsetFetchRequest =
  ofr_GroupID :: string
  ofr_AllTopics :: bool
  ofr_Topics :: "OffsetFetchTopic list"

definition OffsetFetchTopic_Decode :: "(reader, OffsetFetchTopic) state" where
  "OffsetFetchTopic_Decode = do {
     name \<leftarrow> String_r;
     np \<leftarrow> ArrayLen_r;
     ps \<leftarrow> repeat_r np Int32_r;
     State_Monad.return \<lparr>oft_Name = name, oft_Partitions = ps\<rparr>
   }"

definition OffsetFetchRequest_Decode :: "int \<Rightarrow> (reader, OffsetFetchRequest) state" where
  "OffsetFetchRequest_Decode version = do {
     g \<leftarrow> String_r;
     n \<leftarrow> Int32_r;
     if n < 0 then State_Monad.return \<lparr>ofr_GroupID = g, ofr_AllTopics = True, ofr_Topics = []\<rparr>
     else do {
       r \<leftarrow> State_Monad.get;
       if n > int (case Remaining_r r of None \<Rightarrow> 0 | Some b \<Rightarrow> length b)
       then State_Monad.return \<lparr>ofr_GroupID = g, ofr_AllTopics = False, ofr_Topics = []\<rparr>
       else do {
         ts \<leftarrow> repeat_r (nat n) OffsetFetchTopic_Decode;
         State_Monad.return \<lparr>ofr_GroupID = g, ofr_AllTopics = False, ofr_Topics = ts\<rparr>
       }
     }
   }"

record OffsetFetchPartitionResp =
  ofp_Index :: int
  ofp_Offset :: int
  ofp_LeaderEpoch :: int
  ofp_Metadata :: "string option"
  ofp_ErrorCode :: int

record OffsetFetchTopicResp =
  oftr_Name :: string
  oftr_Partitions :: "OffsetFetchPartitionResp list"

record OffsetFetchResponse =
  ofrr_ThrottleTime :: int
  ofrr_Topics :: "OffsetFetchTopicResp list"
  ofrr_ErrorCode :: int

definition OffsetFetchResponse_Encode :: "OffsetFetchResponse \<Rightarrow> int \<Rightarrow> writer \<Rightarrow> writer" where
  "OffsetFetchResponse_Encode resp version w =
     (let w = (if version \<ge> 3 then Int32_w (ofrr_ThrottleTime resp) w else w);
          w = ArrayLen_w (length (ofrr_Topics resp)) w;
          w = fold (\<lambda>t w.
                let w = String_w (oftr_Name t) w;
                    w = ArrayLen_w (length (oftr_Partitions t)) w
                in fold (\<lambda>p w.
                     let w = Int32_w (ofp_Index p) w;
                         w = Int64_w (ofp_Offset p) w;
                         w = (if version \<ge> 5 then Int32_w (ofp_LeaderEpoch p) w else w);
                         w = NullableString_w (ofp_Metadata p) w
                     in Int16_w (ofp_ErrorCode p) w)
                   (oftr_Partitions t) w)
              (ofrr_Topics resp) w
      in if version \<ge> 2 then Int16_w (ofrr_ErrorCode resp) w else w)"

section \<open>CreateTopics and CreatePartitions\<close>

record CreateTopicsTopic =
  ct_Name :: string
  ct_NumPartitions :: int
  ct_ReplicationFactor :: int

record CreateTopicsRequest =
  cr_Topics :: "CreateTopicsTopic list"
  cr_TimeoutMs :: int
  cr_ValidateOnly :: bool

definition CreateTopicsTopic_Decode :: "(reader, CreateTopicsTopic) state" where
  "CreateTopicsTopic_Decode = do {
     name \<leftarrow> String_r;
     np \<leftarrow> Int32_r;
     rf \<leftarrow> Int16_r;
     na \<leftarrow> ArrayLen_r;
     _ \<leftarrow> repeat_r na (do { _ \<leftarrow> Int32_r; nb \<leftarrow> ArrayLen_r; repeat_r nb Int32_r });
     nc \<leftarrow> ArrayLen_r;
     _ \<leftarrow> repeat_r nc (do { _ \<leftarrow> String_r; NullableString_r });
     State_Monad.return \<lparr>ct_Name = name, ct_NumPartitions = np, ct_ReplicationFactor = rf\<rparr>
   }"

definition CreateTopicsRequest_Decode :: "int \<Rightarrow> (reader, CreateTopicsRequest) state" where
  "CreateTopicsRequest_Decode version = do {
     n \<leftarrow> ArrayLen_r;
     ts \<leftarrow> repeat_r n CreateTopicsTopic_Decode;
     tm \<leftarrow> Int32_r;
     v \<leftarrow> when_r (version \<ge> 1) (do { b \<leftarrow> Int8_r; State_Monad.return (b \<noteq> 0) }) False;
     State_Monad.return \<lparr>cr_Topics = ts, cr_TimeoutMs = tm, cr_ValidateOnly = v\<rparr>
   }"

record CreateTopicsTopicResp =
  ctr_Name :: string
  ctr_ErrorCode :: int
  ctr_ErrorMessage :: "string option"

record CreateTopicsResponse =
  crr_ThrottleTime :: int
  crr_Topics :: "CreateTopicsTopicResp list"

definition CreateTopicsResponse_Encode :: "CreateTopicsResponse \<Rightarrow> int \<Rightarrow> writer \<Rightarrow> writer" where
  "CreateTopicsResponse_Encode resp version w =
     (let w = (if version \<ge> 2 then Int32_w (crr_ThrottleTime resp) w else w);
          w = ArrayLen_w (length (crr_Topics resp)) w
      in fold (\<lambda>t w.
           let w = String_w (ctr_Name t) w;
               w = Int16_w (ctr_ErrorCode t) w
           in if version \<ge> 1 then NullableString_w (ctr_ErrorMessage t) w else w)
         (crr_Topics resp) w)"

record CreatePartitionsTopic =
  cpt_Name :: string
  cpt_Count :: int

record CreatePartitionsRequest =
  cp_Topics :: "CreatePartitionsTopic list"
  cp_TimeoutMs :: int
  cp_ValidateOnly :: bool

definition CreatePartitionsTopic_Decode :: "(reader, CreatePartitionsTopic) state" where
  "CreatePartitionsTopic_Decode = do {
     name \<leftarrow> String_r;
     c \<leftarrow> Int32_r;
     na \<leftarrow> ArrayLen_r;
     _ \<leftarrow> repeat_r na (do { nb \<leftarrow> ArrayLen_r; repeat_r nb Int32_r });
     State_Monad.return \<lparr>cpt_Name = name, cpt_Count = c\<rparr>
   }"

definition CreatePartitionsRequest_Decode :: "int \<Rightarrow> (reader, CreatePartitionsRequest) state" where
  "CreatePartitionsRequest_Decode version = do {
     n \<leftarrow> ArrayLen_r;
     ts \<leftarrow> repeat_r n CreatePartitionsTopic_Decode;
     tm \<leftarrow> Int32_r;
     v \<leftarrow> Int8_r;
     State_Monad.return \<lparr>cp_Topics = ts, cp_TimeoutMs = tm, cp_ValidateOnly = (v \<noteq> 0)\<rparr>
   }"

record CreatePartitionsTopicResp =
  cptr_Name :: string
  cptr_ErrorCode :: int
  cptr_ErrorMessage :: "string option"

record CreatePartitionsResponse =
  cprr_ThrottleTime :: int
  cprr_Topics :: "CreatePartitionsTopicResp list"

definition CreatePartitionsResponse_Encode :: "CreatePartitionsResponse \<Rightarrow> int \<Rightarrow> writer \<Rightarrow> writer" where
  "CreatePartitionsResponse_Encode resp version w =
     (let w = Int32_w (cprr_ThrottleTime resp) w;
          w = ArrayLen_w (length (cprr_Topics resp)) w
      in fold (\<lambda>t w.
           let w = String_w (cptr_Name t) w;
               w = Int16_w (cptr_ErrorCode t) w
           in NullableString_w (cptr_ErrorMessage t) w)
         (cprr_Topics resp) w)"

section \<open>Decoders are safe on every input\<close>

lemma read_safe_get [simp]: "read_safe (State_Monad.get)"
  by (auto simp: State_Monad.get_def state_io_rel_def)

lemmas read_safe_intros = read_safe_bind read_safe_repeat

lemma read_safe_core [simp]:
  "read_safe DecodeRequestHeader" "read_safe (ProduceRequest_Decode version)"
  "read_safe (FetchRequest_Decode version)" "read_safe (ListOffsetsRequest_Decode version)"
  "read_safe (MetadataRequest_Decode version)"
  unfolding DecodeRequestHeader_def ProduceRequest_Decode_def ProduceTopic_Decode_def
    ProducePartition_Decode_def FetchRequest_Decode_def FetchTopic_Decode_def FetchPartition_Decode_def
    ListOffsetsRequest_Decode_def ListOffsetsTopic_Decode_def ListOffsetsPartition_Decode_def
    MetadataRequest_Decode_def
  by (auto intro!: read_safe_intros)

lemma read_safe_groups [simp]:
  "read_safe (FindCoordinatorRequest_Decode version)" "read_safe (JoinGroupRequest_Decode version)"
  "read_safe (SyncGroupRequest_Decode version)" "read_safe (HeartbeatRequest_Decode version)"
  "read_safe (LeaveGroupRequest_Decode version)" "read_safe (DescribeGroupsRequest_Decode version)"
  "read_safe (ListGroupsRequest_Decode version)"
  unfolding FindCoordinatorRequest_Decode_def JoinGroupRequest_Decode_def JoinGroupProtocol_Decode_def
    SyncGroupRequest_Decode_def SyncGroupAssignment_Decode_def HeartbeatRequest_Decode_def
    LeaveGroupRequest_Decode_def DescribeGroupsRequest_Decode_def ListGroupsRequest_Decode_def
  by (auto intro!: read_safe_intros)

lemma read_safe_offsets [simp]:
  "read_safe (OffsetCommitRequest_Decode version)" "read_safe (OffsetFetchRequest_Decode version)"
  "read_safe (CreateTopicsRequest_Decode version)" "read_safe (CreatePartitionsRequest_Decode version)"
  unfolding OffsetCommitRequest_Decode_def OffsetCommitTopic_Decode_def OffsetCommitPartition_Decode_def
    OffsetFetchRequest_Decode_def OffsetFetchTopic_Decode_def CreateTopicsRequest_Decode_def
    CreateTopicsTopic_Decode_def CreatePartitionsRequest_Decode_def CreatePartitionsTopic_Decode_def
  by (auto intro!: read_safe_intros)


end
