(* ===== verification/Object_Wal.thy ===== *)
theory Object_Wal
  imports Files
begin

text \<open>
  \<open>internal/storage/object/wal.go\<close>: the write-ahead log a node keeps for the object backend, a sequence
  of segment files of framed records of all partitions. The log is a directory and the sequence
  number of its active segment. A callback of \<open>replay\<close> is a function on a state that may fail.
\<close>

section \<open>Records and frames\<close>

definition walMagic :: byte where
  "walMagic = 0xA7"

record walRecord =
  wr_Topic :: string
  wr_Partition :: int
  wr_BaseOffset :: int
  wr_Batch :: bytes

definition encodeWALPayload :: "walRecord \<Rightarrow> bytes" where
  "encodeWALPayload rec =
     be_bytes 2 (u16 (int (length (wr_Topic rec)))) @ bytes_of_string (wr_Topic rec)
     @ be_bytes 4 (u32 (wr_Partition rec)) @ be_bytes 8 (u64 (wr_BaseOffset rec)) @ wr_Batch rec"

definition decodeWALPayload :: "bytes \<Rightarrow> goerror + walRecord" where
  "decodeWALPayload b =
     (if length b < 2 then Inl ErrWalPayload
      else
        let tl = nat (be_uint (take 2 b)) in
        if 2 + tl + 12 > length b then Inl ErrWalPayload
        else Inr \<lparr>wr_Topic = string_of_bytes (take tl (drop 2 b)),
                  wr_Partition = i32 (be_uint (take 4 (drop (2 + tl) b))),
                  wr_BaseOffset = i64 (be_uint (take 8 (drop (2 + tl + 4) b))),
                  wr_Batch = drop (2 + tl + 12) b\<rparr>)"

text \<open>The frame \<open>append\<close> writes: magic, checksum, length, payload.\<close>

definition wal_frame :: "walRecord \<Rightarrow> bytes" where
  "wal_frame rec =
     (let payload = encodeWALPayload rec in
      walMagic # be_bytes 4 (crc32c payload) @ be_bytes 4 (u32 (int (length payload))) @ payload)"

type_synonym 's callback = "walRecord \<Rightarrow> 's \<Rightarrow> goerror option \<times> 's"

function replaySegment :: "bytes \<Rightarrow> nat \<Rightarrow> 's callback \<Rightarrow> 's \<Rightarrow> goerror option \<times> 's" where
  "replaySegment data p fn s =
     (if p < length data then
        if data ! p \<noteq> walMagic then (None, s)
        else if p + 9 > length data then (None, s)
        else
          let crc = be_uint (take 4 (drop (p + 1) data));
              n = nat (be_uint (take 4 (drop (p + 5) data)))
          in if p + 9 + n > length data then (None, s)
             else
               let payload = take n (drop (p + 9) data) in
               if crc32c payload \<noteq> crc then (None, s)
               else case decodeWALPayload payload of
                 Inl e \<Rightarrow> (Some e, s)
               | Inr rec \<Rightarrow>
                   (case fn rec s of
                      (Some e, s') \<Rightarrow> (Some e, s')
                    | (None, s') \<Rightarrow> replaySegment data (p + 9 + n) fn s')
      else (None, s))"
  by pat_completeness auto

termination
  by (relation "measure (\<lambda>(data, p, _). length data - p)") auto

declare replaySegment.simps [simp del]

section \<open>The directory of segments\<close>

text \<open>\<open>strconv.ParseUint(s, 10, 64)\<close>.\<close>

definition parse_uint :: "string \<Rightarrow> int option" where
  "parse_uint s =
     (if s = [] then None
      else case parse_digits 0 s of None \<Rightarrow> None | Some n \<Rightarrow> if int n < 2 ^ 64 then Some (int n) else None)"

record wal =
  wl_dir :: dir
  wl_activeSeq :: int

definition segPath :: "int \<Rightarrow> string" where
  "segPath sq = fmt_020d sq @ ''.wal''"

definition wal_seq :: "string \<Rightarrow> int option" where
  "wal_seq name = (if \<not> has_suffix name ''.wal'' then None else parse_uint (trim_suffix name ''.wal''))"

definition segmentSeqs :: "dir \<Rightarrow> int list" where
  "segmentSeqs d = sort (List.map_filter wal_seq (map fst d))"

text \<open>\<open>os.OpenFile\<close> with \<open>O_CREATE\<close> and \<open>O_APPEND\<close>: an existing file is kept.\<close>

definition openActive :: "dir \<Rightarrow> int \<Rightarrow> wal" where
  "openActive d sq =
     \<lparr>wl_dir = (case fget d (segPath sq) of None \<Rightarrow> fput d (segPath sq) [] | Some _ \<Rightarrow> d), wl_activeSeq = sq\<rparr>"

definition openWAL :: "dir \<Rightarrow> wal" where
  "openWAL d =
     (let seqs = segmentSeqs d;
          nxt = (if length seqs > 0 then u64 (seqs ! (length seqs - 1) + 1) else 1)
      in openActive d nxt)"

definition wal_append :: "wal \<Rightarrow> walRecord \<Rightarrow> wal" where
  "wal_append w rec =
     (let name = segPath (wl_activeSeq w) in
      w\<lparr>wl_dir := fput (wl_dir w) name (fcontent (wl_dir w) name @ wal_frame rec)\<rparr>)"

definition wal_rotate :: "wal \<Rightarrow> int \<times> wal" where
  "wal_rotate w = (let sealed = wl_activeSeq w in (sealed, openActive (wl_dir w) (u64 (sealed + 1))))"

definition deleteThrough :: "wal \<Rightarrow> int \<Rightarrow> wal" where
  "deleteThrough w sealedThrough =
     w\<lparr>wl_dir := fold (\<lambda>sq d. if sq > sealedThrough then d else fdel d (segPath sq)) (segmentSeqs (wl_dir w)) (wl_dir w)\<rparr>"

fun replay_seqs :: "dir \<Rightarrow> int list \<Rightarrow> 's callback \<Rightarrow> 's \<Rightarrow> goerror option \<times> 's" where
  "replay_seqs d [] fn s = (None, s)"
| "replay_seqs d (sq # sqs) fn s =
     (case fget d (segPath sq) of
        None \<Rightarrow> (Some ErrNotExist, s)
      | Some data \<Rightarrow>
          (case replaySegment data 0 fn s of
             (Some e, s') \<Rightarrow> (Some e, s')
           | (None, s') \<Rightarrow> replay_seqs d sqs fn s'))"

definition wal_replay :: "wal \<Rightarrow> 's callback \<Rightarrow> 's \<Rightarrow> goerror option \<times> 's" where
  "wal_replay w fn s = replay_seqs (wl_dir w) (segmentSeqs (wl_dir w)) fn s"

section \<open>Frames are read back\<close>

definition rec_ok :: "walRecord \<Rightarrow> bool" where
  "rec_ok rec \<longleftrightarrow> length (wr_Topic rec) < 2 ^ 16 \<and> in_i32 (wr_Partition rec) \<and> in_i64 (wr_BaseOffset rec)
     \<and> int (length (encodeWALPayload rec)) < 2 ^ 32"

lemma i32_u32 [simp]: "in_i32 x \<Longrightarrow> i32 (u32 x) = x"
  by (simp add: u32_def i32_id)

lemma i64_u64 [simp]: "in_i64 x \<Longrightarrow> i64 (u64 x) = x"
  by (simp add: u64_def i64_id)

lemma decode_encode_payload:
  assumes "rec_ok rec"
  shows "decodeWALPayload (encodeWALPayload rec) = Inr rec"
proof -
  have "be_uint (be_bytes 2 (u16 (int (length (wr_Topic rec))))) = int (length (wr_Topic rec))"
    using assms by (simp add: u16_def rec_ok_def)
  then show ?thesis
    using assms
    by (simp add: decodeWALPayload_def encodeWALPayload_def Let_def rec_ok_def u32_def u64_def i32_id i64_id)
qed

lemma length_wal_frame: "length (wal_frame rec) = 9 + length (encodeWALPayload rec)"
  by (simp add: wal_frame_def Let_def)

text \<open>One step of the scan over a whole frame.\<close>

lemma replay_frame:
  assumes "rec_ok rec" and "p = length pre"
  shows "replaySegment (pre @ wal_frame rec @ post) p fn s =
    (case fn rec s of (Some e, s') \<Rightarrow> (Some e, s')
       | (None, s') \<Rightarrow> replaySegment (pre @ wal_frame rec @ post) (p + length (wal_frame rec)) fn s')"
proof -
  let ?pl = "encodeWALPayload rec" and ?d = "pre @ wal_frame rec @ post"
  have crc: "be_uint (be_bytes 4 (crc32c ?pl)) = crc32c ?pl"
    using crc32c_range [of ?pl] by simp
  have len: "be_uint (be_bytes 4 (u32 (int (length ?pl)))) = int (length ?pl)"
    using assms(1) by (simp add: rec_ok_def u32_def)
  have d: "?d ! p = walMagic" "take 4 (drop (p + 1) ?d) = be_bytes 4 (crc32c ?pl)"
    "take 4 (drop (p + 5) ?d) = be_bytes 4 (u32 (int (length ?pl)))" "take (length ?pl) (drop (p + 9) ?d) = ?pl"
    using assms(2) by (simp_all add: wal_frame_def Let_def nth_append)
  have l: "p + 9 + length ?pl \<le> length ?d" "length (wal_frame rec) = 9 + length ?pl"
    using assms(2) by (simp_all add: length_wal_frame)
  show ?thesis
    apply (subst replaySegment.simps)
    using l d crc len decode_encode_payload [OF assms(1)]
    by (simp add: Let_def add.assoc split: prod.split option.split)
qed

text \<open>A frame cut anywhere stops the scan without an error.\<close>

lemma replay_torn:
  assumes "rec_ok rec" and "k < length (wal_frame rec)"
  shows "replaySegment (pre @ take k (wal_frame rec)) (length pre) fn s = (None, s)"
proof -
  let ?pl = "encodeWALPayload rec" and ?d = "pre @ take k (wal_frame rec)"
  consider "k = 0" | "0 < k" "k < 9" | "9 \<le> k" by linarith
  then show ?thesis
  proof cases
    case 1
    then show ?thesis by (subst replaySegment.simps) simp
  next
    case 2
    then have "length ?d < length pre + 9" by simp
    then show ?thesis by (subst replaySegment.simps) simp
  next
    case 3
    have "take 4 (drop 5 (take k (wal_frame rec))) = be_bytes 4 (u32 (int (length ?pl)))"
      using 3 by (simp add: wal_frame_def Let_def drop_take min_def take_Cons' drop_Cons')
    moreover have "be_uint (be_bytes 4 (u32 (int (length ?pl)))) = int (length ?pl)"
      using assms(1) by (simp add: rec_ok_def u32_def)
    ultimately have n: "nat (be_uint (take 4 (drop 5 (take k (wal_frame rec))))) = length ?pl" by simp
    have "min (length (wal_frame rec)) k < 9 + length ?pl" using assms(2) by (simp add: length_wal_frame)
    then show ?thesis by (subst replaySegment.simps) (simp add: Let_def n)
  qed
qed

text \<open>What a replay should do: call the callback for the records in order, up to its first error.\<close>

fun replay_spec :: "'s callback \<Rightarrow> walRecord list \<Rightarrow> 's \<Rightarrow> goerror option \<times> 's" where
  "replay_spec fn [] s = (None, s)"
| "replay_spec fn (r # rs) s = (case fn r s of (Some e, s') \<Rightarrow> (Some e, s') | (None, s') \<Rightarrow> replay_spec fn rs s')"

lemma replay_spec_append:
  "replay_spec fn (xs @ ys) s = (case replay_spec fn xs s of (Some e, s') \<Rightarrow> (Some e, s') | (None, s') \<Rightarrow> replay_spec fn ys s')"
  by (induction xs arbitrary: s) (auto split: prod.split option.split)

definition frames :: "walRecord list \<Rightarrow> bytes" where
  "frames recs = concat (map wal_frame recs)"

definition torn_tail :: "bytes \<Rightarrow> bool" where
  "torn_tail t \<longleftrightarrow> t = [] \<or> (\<exists>rec k. rec_ok rec \<and> k < length (wal_frame rec) \<and> t = take k (wal_frame rec))"

lemma replay_tail: "torn_tail t \<Longrightarrow> replaySegment (pre @ t) (length pre) fn s = (None, s)"
  unfolding torn_tail_def
proof (elim disjE exE conjE)
  assume "t = []"
  then show ?thesis by (subst replaySegment.simps) simp
qed (simp add: replay_torn)

lemma replay_frames:
  assumes "list_all rec_ok recs" and "torn_tail t"
  shows "replaySegment (pre @ frames recs @ t) (length pre) fn s = replay_spec fn recs s"
  using assms(1)
proof (induction recs arbitrary: pre s)
  case Nil
  then show ?case by (simp add: frames_def replay_tail [OF assms(2)])
next
  case (Cons r recs)
  have split: "pre @ frames (r # recs) @ t = pre @ wal_frame r @ frames recs @ t"
    "pre @ wal_frame r @ frames recs @ t = (pre @ wal_frame r) @ frames recs @ t" by (simp_all add: frames_def)
  have "replaySegment (pre @ wal_frame r @ frames recs @ t) (length pre + length (wal_frame r)) fn s' = replay_spec fn recs s'"
    for s' using Cons.IH [of "pre @ wal_frame r" s'] Cons.prems by simp
  then show ?case
    using Cons.prems by (simp add: split(1) replay_frame split: prod.split option.split)
qed

text \<open>A log file cut at any position holds the whole frames before the cut and a torn tail.\<close>

lemma frames_cut:
  assumes "list_all rec_ok recs"
  shows "\<exists>m t. m \<le> length recs \<and> torn_tail t \<and> take k (frames recs) = frames (take m recs) @ t
    \<and> (length (frames recs) \<le> k \<longrightarrow> m = length recs)"
  using assms
proof (induction recs arbitrary: k)
  case Nil
  show ?case by (intro exI [of _ 0] exI [of _ "[]"]) (simp add: frames_def torn_tail_def)
next
  case (Cons r recs)
  show ?case
  proof (cases "k < length (wal_frame r)")
    case True
    with Cons.prems have "torn_tail (take k (wal_frame r))" by (auto simp: torn_tail_def)
    with True show ?thesis by (intro exI [of _ 0] exI [of _ "take k (wal_frame r)"]) (simp add: frames_def)
  next
    case False
    from Cons.IH [of "k - length (wal_frame r)"] Cons.prems obtain m t where mt: "m \<le> length recs" "torn_tail t"
      "take (k - length (wal_frame r)) (frames recs) = frames (take m recs) @ t"
      "length (frames recs) \<le> k - length (wal_frame r) \<longrightarrow> m = length recs" by auto
    with False show ?thesis by (intro exI [of _ "Suc m"] exI [of _ t]) (auto simp: frames_def)
  qed
qed

section \<open>Segment names\<close>

definition seq_ok :: "int \<Rightarrow> bool" where
  "seq_ok sq \<longleftrightarrow> 0 \<le> sq \<and> sq < 2 ^ 63 - 1"

lemma wal_seq_segPath [simp]: "seq_ok sq \<Longrightarrow> wal_seq (segPath sq) = Some sq"
proof -
  assume sq: "seq_ok sq"
  then have "fmt_020d sq = replicate (20 - length (show_nat (nat sq))) (CHR ''0'') @ show_nat (nat sq)"
    by (simp add: seq_ok_def fmt_020d_def Let_def)
  from padded_show_nat(1,2) [OF this] sq show ?thesis
    by (simp add: wal_seq_def segPath_def parse_uint_def seq_ok_def)
qed

lemma segPath_inj: "seq_ok a \<Longrightarrow> seq_ok b \<Longrightarrow> segPath a = segPath b \<longleftrightarrow> a = b"
  by (metis option.inject wal_seq_segPath)

lemma map_filter_Some: "List.map_filter (\<lambda>x. Some (f x)) xs = map f xs"
  by (induction xs) (simp_all add: List.map_filter_simps)

lemma segmentSeqs_keys:
  assumes "distinct (map fst d)" and "set (map fst d) = segPath ` set sqs" and "sorted_wrt (<) sqs"
    and "list_all seq_ok sqs"
  shows "segmentSeqs d = sqs"
proof -
  let ?f = "\<lambda>n. the (wal_seq n)"
  have f: "wal_seq n = Some (?f n)" if n: "n \<in> set (map fst d)" for n
    using n assms(4) unfolding assms(2) by (auto simp: list_all_iff)
  have "List.map_filter wal_seq (map fst d) = List.map_filter (\<lambda>n. Some (?f n)) (map fst d)"
    by (rule map_filter_eq) (rule f)
  then have "List.map_filter wal_seq (map fst d) = map ?f (map fst d)" by (simp add: map_filter_Some)
  moreover have "set (map ?f (map fst d)) = set sqs"
    unfolding set_map [of ?f] assms(2) using assms(4) by (force simp: list_all_iff image_image)
  moreover have "inj_on ?f (set (map fst d))"
    unfolding assms(2) using assms(4) by (auto simp: inj_on_def list_all_iff)
  then have "distinct (map ?f (map fst d))" using assms(1) by (simp only: distinct_map)
  ultimately show ?thesis
    using assms(3) unfolding segmentSeqs_def
    by (intro sorted_distinct_set_unique) (simp_all add: strict_sorted_iff)
qed

section \<open>The log as a list of segments\<close>

text \<open>\<open>wal_inv w segs\<close>: the directory holds exactly the segments \<open>segs\<close>, each with its records and possibly a
  torn tail from an earlier crash; the last one is active and ends with a whole frame.\<close>

type_synonym segs = "(int \<times> walRecord list) list"

definition dir_inv :: "dir \<Rightarrow> segs \<Rightarrow> bool" where
  "dir_inv d segs \<longleftrightarrow> distinct (map fst d) \<and> set (map fst d) = segPath ` set (map fst segs)
     \<and> sorted_wrt (<) (map fst segs) \<and> list_all seq_ok (map fst segs)
     \<and> (\<forall>(sq, recs) \<in> set segs. list_all rec_ok recs \<and> (\<exists>t. torn_tail t \<and> fget d (segPath sq) = Some (frames recs @ t)))"

definition wal_inv :: "wal \<Rightarrow> segs \<Rightarrow> bool" where
  "wal_inv w segs \<longleftrightarrow> dir_inv (wl_dir w) segs \<and> segs \<noteq> [] \<and> wl_activeSeq w = fst (last segs)
     \<and> fget (wl_dir w) (segPath (wl_activeSeq w)) = Some (frames (snd (last segs)))"

abbreviation records :: "segs \<Rightarrow> walRecord list" where
  "records segs \<equiv> concat (map snd segs)"

lemma dir_invD:
  assumes "dir_inv d segs"
  shows "segmentSeqs d = map fst segs"
    "(sq, recs) \<in> set segs \<Longrightarrow> seq_ok sq \<and> list_all rec_ok recs \<and> (\<exists>t. torn_tail t \<and> fget d (segPath sq) = Some (frames recs @ t))"
  using assms segmentSeqs_keys [of d "map fst segs"] by (auto simp: dir_inv_def list_all_iff)

lemma replay_seqs_dir:
  assumes "\<forall>(sq, recs) \<in> set segs. list_all rec_ok recs \<and> (\<exists>t. torn_tail t \<and> fget d (segPath sq) = Some (frames recs @ t))"
  shows "replay_seqs d (map fst segs) fn s = replay_spec fn (records segs) s"
  using assms
proof (induction segs arbitrary: s)
  case (Cons sr segs)
  obtain sq recs where sr: "sr = (sq, recs)" by fastforce
  from Cons.prems obtain t where "list_all rec_ok recs" "torn_tail t" "fget d (segPath sq) = Some (frames recs @ t)"
    by (auto simp: sr)
  moreover from this(1,2) have "replaySegment (frames recs @ t) 0 fn s = replay_spec fn recs s"
    using replay_frames [of recs t "[]" fn s] by simp
  ultimately show ?case using Cons by (simp add: sr replay_spec_append split: prod.split option.split)
qed simp

text \<open>A segment added after all others.\<close>

lemma dir_inv_snoc:
  assumes "dir_inv d segs" and "seq_ok sq" and "\<forall>s \<in> set (map fst segs). s < sq"
  shows "dir_inv (fput d (segPath sq) []) (segs @ [(sq, [])])"
proof -
  have new: "segPath s \<noteq> segPath sq" if "s \<in> set (map fst segs)" for s
  proof -
    have "seq_ok s" using that assms(1) by (auto simp: dir_inv_def list_all_iff)
    with assms(2,3) that show ?thesis by (auto simp: segPath_inj)
  qed
  have "\<exists>t. torn_tail t \<and> fget (fput d (segPath sq) []) (segPath s) = Some (frames recs @ t)" if "(s, recs) \<in> set segs" for s recs
    using dir_invD(2) [OF assms(1) that] new [of s] that by (force simp: fget_fput)
  moreover have "list_all rec_ok recs" if "(s, recs) \<in> set segs" for s recs
    using dir_invD(2) [OF assms(1) that] by blast
  ultimately show ?thesis
    using assms unfolding dir_inv_def
    by (auto simp: distinct_update update_keys sorted_wrt_append torn_tail_def frames_def fget_fput)
qed

lemma dir_inv_update:
  assumes "dir_inv d (segs @ [(sq, recs)])" and "list_all rec_ok recs'" and "torn_tail t"
  shows "dir_inv (fput d (segPath sq) (frames recs' @ t)) (segs @ [(sq, recs')])"
proof -
  have ok: "seq_ok sq" "sorted_wrt (<) (map fst segs @ [sq])" using assms(1) by (auto simp: dir_inv_def)
  have new: "segPath s \<noteq> segPath sq" if "(s, r) \<in> set segs" for s r
  proof -
    have "seq_ok s" using that dir_invD(2) [OF assms(1)] by auto
    moreover have "s < sq" using ok(2) that by (force simp: sorted_wrt_append)
    ultimately show ?thesis using ok(1) by (auto simp: segPath_inj)
  qed
  have "list_all rec_ok r \<and> (\<exists>t. torn_tail t \<and> fget (fput d (segPath sq) (frames recs' @ t')) (segPath s) = Some (frames r @ t))"
    if "(s, r) \<in> set segs" for s r t'
    using dir_invD(2) [OF assms(1), of s r] new [OF that] that by (auto simp: fget_fput)
  moreover have "segPath sq \<in> set (map fst d)" using assms(1) by (auto simp: dir_inv_def)
  ultimately show ?thesis
    using assms unfolding dir_inv_def by (auto simp: distinct_update update_keys fget_fput)
qed

definition abs_append :: "segs \<Rightarrow> walRecord \<Rightarrow> segs" where
  "abs_append segs r = butlast segs @ [(fst (last segs), snd (last segs) @ [r])]"

lemma wal_inv_split:
  assumes "wal_inv w segs"
  obtains pre a recs where "segs = pre @ [(a, recs)]" "wl_activeSeq w = a" "dir_inv (wl_dir w) (pre @ [(a, recs)])"
    "fget (wl_dir w) (segPath a) = Some (frames recs)"
proof -
  from assms have "segs \<noteq> []" by (simp add: wal_inv_def)
  then obtain pre x where "segs = pre @ [x]" by (meson rev_exhaust)
  then have "segs = pre @ [(fst x, snd x)]" by simp
  with assms show thesis by (intro that [of pre "fst x" "snd x"]) (auto simp: wal_inv_def)
qed

lemma wal_append_inv:
  assumes "wal_inv w segs" and "rec_ok r"
  shows "wal_inv (wal_append w r) (abs_append segs r)"
proof -
  obtain pre a recs where w: "segs = pre @ [(a, recs)]" "wl_activeSeq w = a" "dir_inv (wl_dir w) (pre @ [(a, recs)])"
    "fget (wl_dir w) (segPath a) = Some (frames recs)" using wal_inv_split [OF assms(1)] .
  have "list_all rec_ok (recs @ [r])" using dir_invD(2) [OF w(3), of a recs] assms(2) by auto
  from dir_inv_update [OF w(3) this, of "[]"] w(1,2,4) show ?thesis
    by (simp add: wal_inv_def wal_append_def abs_append_def Let_def frames_def torn_tail_def)
qed

lemma wal_rotate_inv:
  assumes "wal_inv w segs" and "seq_ok (wl_activeSeq w + 1)"
  shows "wal_rotate w = (wl_activeSeq w, snd (wal_rotate w))" "wal_inv (snd (wal_rotate w)) (segs @ [(wl_activeSeq w + 1, [])])"
proof -
  obtain pre a recs where w: "segs = pre @ [(a, recs)]" "wl_activeSeq w = a" "dir_inv (wl_dir w) (pre @ [(a, recs)])"
    using wal_inv_split [OF assms(1)] .
  let ?n = "a + 1"
  have n: "u64 ?n = ?n" using assms(2) w(2) by (simp add: u64_def seq_ok_def)
  have below: "\<forall>s \<in> set (map fst (pre @ [(a, recs)])). s < ?n" using w(3) by (force simp: dir_inv_def sorted_wrt_append)
  have "fget (wl_dir w) (segPath ?n) = None"
  proof -
    have "segPath ?n \<notin> segPath ` set (map fst (pre @ [(a, recs)]))"
      using below assms(2) w(2,3) by (force simp: dir_inv_def list_all_iff segPath_inj)
    then show ?thesis using w(3) by (simp add: dir_inv_def map_of_eq_None_iff)
  qed
  then have "snd (wal_rotate w) = \<lparr>wl_dir = fput (wl_dir w) (segPath ?n) [], wl_activeSeq = ?n\<rparr>"
    by (simp add: wal_rotate_def openActive_def Let_def w(2) n)
  with dir_inv_snoc [OF w(3) _ below] assms(2) w(1,2)
  show "wal_inv (snd (wal_rotate w)) (segs @ [(wl_activeSeq w + 1, [])])" by (simp add: wal_inv_def frames_def)
  show "wal_rotate w = (wl_activeSeq w, snd (wal_rotate w))" by (simp add: wal_rotate_def Let_def)
qed

lemma delete_fold:
  "fget (fold (\<lambda>sq d. if sq > t then d else fdel d (segPath sq)) sqs d) n =
     (if \<exists>sq \<in> set sqs. sq \<le> t \<and> n = segPath sq then None else fget d n)"
  "map fst (fold (\<lambda>sq d. if sq > t then d else fdel d (segPath sq)) sqs d) =
     filter (\<lambda>n. \<not> (\<exists>sq \<in> set sqs. sq \<le> t \<and> n = segPath sq)) (map fst d)"
proof (induction sqs arbitrary: d)
  case (Cons sq sqs)
  {
    case 1
    show ?case using Cons.IH(1) by (auto simp: fget_fdel)
  next
    case 2
    show ?case using Cons.IH(2) by (auto simp: delete_keys removeAll_filter_not_eq intro: filter_cong)
  }
qed simp_all

lemma image_filter_not: "(\<And>x. x \<in> S \<Longrightarrow> Q (f x) \<longleftrightarrow> P x) \<Longrightarrow> {n \<in> f ` S. \<not> Q n} = f ` {x \<in> S. \<not> P x}"
  by auto

lemma deleteThrough_inv:
  assumes "wal_inv w segs" and "t < wl_activeSeq w"
  shows "wal_inv (deleteThrough w t) (filter (\<lambda>(sq, _). sq > t) segs)"
proof -
  obtain pre a recs where w: "segs = pre @ [(a, recs)]" "wl_activeSeq w = a" "dir_inv (wl_dir w) (pre @ [(a, recs)])"
    "fget (wl_dir w) (segPath a) = Some (frames recs)" using wal_inv_split [OF assms(1)] .
  let ?d = "wl_dir w" and ?segs = "filter (\<lambda>(sq, _). sq > t) segs"
  let ?d' = "wl_dir (deleteThrough w t)"
  let ?S = "set (map fst segs)"
  have ok: "seq_ok x" if "x \<in> ?S" for x using w(1,3) that by (auto simp: dir_inv_def list_all_iff)
  have d': "fget ?d' n = (if \<exists>sq \<in> ?S. sq \<le> t \<and> n = segPath sq then None else fget ?d n)"
    "map fst ?d' = filter (\<lambda>n. \<not> (\<exists>sq \<in> ?S. sq \<le> t \<and> n = segPath sq)) (map fst ?d)" for n
    using delete_fold [of t "map fst segs" ?d] dir_invD(1) [OF w(3)] w(1) by (simp_all add: deleteThrough_def)
  have gone: "(\<exists>sq \<in> ?S. sq \<le> t \<and> segPath x = segPath sq) \<longleftrightarrow> x \<le> t" if "x \<in> ?S" for x
    using that segPath_inj [OF ok ok] by blast
  have keys: "set (map fst ?segs) = {x \<in> ?S. t < x}" by force
  have "set (map fst ?d) = segPath ` ?S" using w(1,3) by (simp add: dir_inv_def)
  then have "set (map fst ?d') = {n \<in> segPath ` ?S. \<not> (\<exists>sq \<in> ?S. sq \<le> t \<and> n = segPath sq)}"
    by (simp only: d'(2) set_filter)
  also have "\<dots> = segPath ` {x \<in> ?S. \<not> x \<le> t}" by (rule image_filter_not) (rule gone)
  finally have k: "set (map fst ?d') = segPath ` set (map fst ?segs)" by (simp only: keys not_le)
  have ds: "distinct (map fst ?d')" unfolding d'(2) using w(3) by (simp add: dir_inv_def)
  have so: "sorted_wrt (<) (map fst ?segs)"
    using w(3) unfolding w(1) [symmetric] dir_inv_def sorted_wrt_map by (blast intro: sorted_wrt_filter)
  have sq: "list_all seq_ok (map fst ?segs)" using ok by (auto simp: list_all_iff)
  have kept: "fget ?d' (segPath sq) = fget ?d (segPath sq)" if "(sq, r) \<in> set segs" "t < sq" for sq r
  proof -
    have "sq \<in> ?S" using that(1) by force
    from gone [OF this] that(2) show ?thesis by (simp only: d'(1)) simp
  qed
  have "list_all rec_ok r \<and> (\<exists>t. torn_tail t \<and> fget ?d' (segPath sq) = Some (frames r @ t))"
    if "(sq, r) \<in> set segs" "t < sq" for sq r
    using dir_invD(2) [OF w(3), of sq r] that(1) unfolding kept [OF that] w(1) by blast
  then have "\<forall>(sq, r) \<in> set ?segs. list_all rec_ok r \<and> (\<exists>t. torn_tail t \<and> fget ?d' (segPath sq) = Some (frames r @ t))"
    by (simp only: set_filter) blast
  with ds k so sq have "dir_inv ?d' ?segs" unfolding dir_inv_def by (intro conjI)
  moreover have "fget ?d' (segPath a) = Some (frames recs)" using kept [of a recs] assms(2) w(1,2,4) by simp
  ultimately show ?thesis
    using assms(2) w(1,2) by (simp add: wal_inv_def deleteThrough_def)
qed

definition next_seq :: "segs \<Rightarrow> int" where
  "next_seq segs = (if segs = [] then 1 else fst (last segs) + 1)"

lemma openWAL_inv:
  assumes "dir_inv d segs" and "seq_ok (next_seq segs)"
  shows "wal_inv (openWAL d) (segs @ [(next_seq segs, [])])"
proof -
  let ?n = "next_seq segs"
  have below: "\<forall>s \<in> set (map fst segs). s < ?n"
  proof (cases segs rule: rev_cases)
    case (snoc pre x)
    then show ?thesis using assms(1) by (force simp: dir_inv_def sorted_wrt_append next_seq_def)
  qed simp
  have "u64 ?n = ?n" using assms(2) by (simp add: u64_def seq_ok_def)
  then have open_n: "openWAL d = openActive d ?n"
    using dir_invD(1) [OF assms(1)] by (cases segs rule: rev_cases) (auto simp: openWAL_def next_seq_def nth_append)
  have "segPath ?n \<notin> segPath ` set (map fst segs)"
    using below assms by (force simp: dir_inv_def list_all_iff segPath_inj)
  then have "fget d (segPath ?n) = None" using assms(1) by (simp add: dir_inv_def map_of_eq_None_iff)
  with dir_inv_snoc [OF assms(1,2) below] show ?thesis
    by (simp add: open_n openActive_def wal_inv_def frames_def)
qed

lemma wal_replay_inv: "wal_inv w segs \<Longrightarrow> wal_replay w fn s = replay_spec fn (records segs) s"
  unfolding wal_replay_def wal_inv_def using dir_invD(1) [of "wl_dir w" segs]
  by (simp only:) (rule replay_seqs_dir, unfold dir_inv_def, elim conjE)

lemma crash_inv:
  assumes "wal_inv w (segs @ [(a, recs)])"
  shows "\<exists>m \<le> length recs. dir_inv (fput (wl_dir w) (segPath a) (take k (frames recs))) (segs @ [(a, take m recs)])
    \<and> (length (frames recs) \<le> k \<longrightarrow> m = length recs)"
proof -
  from assms have d: "dir_inv (wl_dir w) (segs @ [(a, recs)])" by (simp add: wal_inv_def)
  then have ok: "list_all rec_ok recs" by (auto simp: dir_inv_def)
  from frames_cut [OF this, of k] obtain m t where m: "m \<le> length recs" "torn_tail t"
    "take k (frames recs) = frames (take m recs) @ t" "length (frames recs) \<le> k \<longrightarrow> m = length recs" by blast
  have "list_all rec_ok (take m recs)" using ok by (auto simp: list_all_iff dest: in_set_takeD)
  from dir_inv_update [OF d this m(2)] m show ?thesis by (intro exI [of _ m]) simp
qed

text \<open>C36: the log implements a list of segments. Appending adds the record to the last segment, rotating
  seals it and opens the next one, trimming drops exactly the segments up to the sealed one, and a
  replay calls the callback for all records of all segments in order, up to its first error.\<close>

theorem wal_refines:
  assumes "wal_inv w segs" and "rec_ok r" and "seq_ok (wl_activeSeq w + 1)" and "t < wl_activeSeq w"
  shows "wal_inv (wal_append w r) (abs_append segs r)
    \<and> wal_rotate w = (wl_activeSeq w, snd (wal_rotate w))
    \<and> wal_inv (snd (wal_rotate w)) (segs @ [(wl_activeSeq w + 1, [])])
    \<and> wal_inv (deleteThrough w t) (filter (\<lambda>(sq, _). sq > t) segs)
    \<and> wal_replay w fn s = replay_spec fn (records segs) s"
  by (intro conjI wal_append_inv [OF assms(1,2)] wal_rotate_inv [OF assms(1,3)] deleteThrough_inv [OF assms(1,4)]
      wal_replay_inv [OF assms(1)])


text \<open>A concrete log: one record.\<close>

definition sample_rec :: walRecord where
  "sample_rec = \<lparr>wr_Topic = ''t'', wr_Partition = 0, wr_BaseOffset = 0, wr_Batch = [1, 2, 3]\<rparr>"

lemma sample_rec_ok: "rec_ok sample_rec"
  by (simp add: sample_rec_def rec_ok_def in_i32_def in_i64_def encodeWALPayload_def)

lemma sample_wal: "wal_inv (wal_append (openWAL []) sample_rec) [(1, [sample_rec])]"
proof -
  have "dir_inv [] []" by (simp add: dir_inv_def)
  from openWAL_inv [OF this] have "wal_inv (openWAL []) [(1, [])]" by (simp add: next_seq_def seq_ok_def)
  from wal_append_inv [OF this sample_rec_ok] show ?thesis by (simp add: abs_append_def)
qed

abbreviation collect_cb :: "walRecord list callback" where
  "collect_cb \<equiv> \<lambda>rec acc. (None, acc @ [rec])"

theorem wal_refines_witness:
  "\<exists>w segs. wal_inv w segs \<and> wl_activeSeq w = 1
     \<and> wal_inv (snd (wal_rotate w)) (segs @ [(2, [])]) \<and> wal_replay w collect_cb [] = (None, [sample_rec])"
proof -
  let ?w = "wal_append (openWAL []) sample_rec"
  have a: "wl_activeSeq ?w = 1" using sample_wal by (simp add: wal_inv_def)
  have "seq_ok (wl_activeSeq ?w + 1)" "0 < wl_activeSeq ?w" by (simp_all add: a seq_ok_def)
  from wal_refines [OF sample_wal sample_rec_ok this, of collect_cb "[]"] sample_wal a show ?thesis
    by (intro exI [of _ ?w] exI [of _ "[(1, [sample_rec])]"]) simp
qed


end
