(* ===== verification/Object_Store.thy ===== *)
theory Object_Store
  imports Gostd
begin

text \<open>
  \<open>internal/storage/object/store.go\<close>: the interface \<open>ObjectStore\<close> as a record of its methods over the
  state \<open>'o\<close> of the bucket, the contract its callers rely on, and the implementation \<open>minioStore\<close>.
  The client library minio-go is not part of the program: its calls are the record \<open>minio_client\<close>, a
  parameter, and \<open>client_ok\<close> states the documented behaviour of these calls.
\<close>

record 'o ObjectStore =
  os_Put :: "'o \<Rightarrow> string \<Rightarrow> bytes \<Rightarrow> goerror option \<times> 'o"
  os_Get :: "'o \<Rightarrow> string \<Rightarrow> int \<Rightarrow> int \<Rightarrow> goerror + bytes"
  os_List :: "'o \<Rightarrow> string \<Rightarrow> goerror + string list"
  os_Delete :: "'o \<Rightarrow> string \<Rightarrow> goerror option \<times> 'o"

text \<open>The contract, \<open>obj s\<close> being the objects of the bucket: a successful \<open>Put\<close> stores the object, a
  ranged \<open>Get\<close> inside an object returns the bytes of the range, a successful \<open>Delete\<close> removes the
  object, and no call touches another key (a failed one may or may not have had its effect).\<close>

definition object_store_ok :: "'o ObjectStore \<Rightarrow> ('o \<Rightarrow> string \<Rightarrow> bytes option) \<Rightarrow> bool" where
  "object_store_ok O' obj \<longleftrightarrow>
     (\<forall>s k d. \<forall>e s'. os_Put O' s k d = (e, s') \<longrightarrow>
        (e = None \<longrightarrow> obj s' k = Some d) \<and> (\<forall>k'. k' \<noteq> k \<longrightarrow> obj s' k' = obj s k'))
     \<and> (\<forall>s k d off len. obj s k = Some d \<longrightarrow> 0 \<le> off \<longrightarrow> 0 < len \<longrightarrow> off + len \<le> int (length d) \<longrightarrow>
          off + len < 2 ^ 63 \<longrightarrow> os_Get O' s k off len = Inr (take (nat len) (drop (nat off) d)))
     \<and> (\<forall>s k e s'. os_Delete O' s k = (e, s') \<longrightarrow>
          (e = None \<longrightarrow> obj s' k = None) \<and> (\<forall>k'. k' \<noteq> k \<longrightarrow> obj s' k' = obj s k'))"

lemma object_storeD:
  assumes "object_store_ok O' obj"
  shows "os_Put O' s k d = (None, s') \<Longrightarrow> obj s' k = Some d"
    and "os_Put O' s k d = (e, s') \<Longrightarrow> k' \<noteq> k \<Longrightarrow> obj s' k' = obj s k'"
    and "obj s k = Some d \<Longrightarrow> 0 \<le> off \<Longrightarrow> 0 < len \<Longrightarrow> off + len \<le> int (length d) \<Longrightarrow> off + len < 2 ^ 63 \<Longrightarrow>
      os_Get O' s k off len = Inr (take (nat len) (drop (nat off) d))"
    and "os_Delete O' s k = (e, s') \<Longrightarrow> k' \<noteq> k \<Longrightarrow> obj s' k' = obj s k'"
  using assms unfolding object_store_ok_def by blast+

section \<open>The minio implementation\<close>

text \<open>The calls of the client on a bucket: \<open>'r\<close> are the options of a read, \<open>mc_all\<close> those with no range.
  \<open>mc_GetObject\<close> is the read of an object to its end.\<close>

record ('c, 'r) minio_client =
  mc_PutObject :: "'c \<Rightarrow> string \<Rightarrow> string \<Rightarrow> bytes \<Rightarrow> goerror option \<times> 'c"
  mc_all :: 'r
  mc_SetRange :: "int \<Rightarrow> int \<Rightarrow> goerror + 'r"
  mc_GetObject :: "'c \<Rightarrow> string \<Rightarrow> string \<Rightarrow> 'r \<Rightarrow> goerror + bytes"
  mc_ListObjects :: "'c \<Rightarrow> string \<Rightarrow> string \<Rightarrow> (goerror + string) list"
  mc_RemoveObject :: "'c \<Rightarrow> string \<Rightarrow> string \<Rightarrow> goerror option \<times> 'c"

definition splitScheme :: "string \<Rightarrow> string \<times> bool" where
  "splitScheme endpoint =
     (if take 8 endpoint = ''https://'' then (drop 8 endpoint, True)
      else if take 7 endpoint = ''http://'' then (drop 7 endpoint, False)
      else (endpoint, False))"

definition minio_Put :: "('c, 'r) minio_client \<Rightarrow> string \<Rightarrow> 'c \<Rightarrow> string \<Rightarrow> bytes \<Rightarrow> goerror option \<times> 'c" where
  "minio_Put C bucket c key data = mc_PutObject C c bucket key data"

definition minio_Get :: "('c, 'r) minio_client \<Rightarrow> string \<Rightarrow> 'c \<Rightarrow> string \<Rightarrow> int \<Rightarrow> int \<Rightarrow> goerror + bytes" where
  "minio_Get C bucket c key off len =
     (case (if off > 0 \<or> len > 0 then mc_SetRange C off (if len > 0 then i64 (i64 (off + len) - 1) else 0)
            else Inr (mc_all C)) of
        Inl e \<Rightarrow> Inl e
      | Inr opts \<Rightarrow> mc_GetObject C c bucket key opts)"

text \<open>The keys up to the first error.\<close>

fun list_keys :: "(goerror + string) list \<Rightarrow> string list \<Rightarrow> goerror + string list" where
  "list_keys [] keys = Inr keys"
| "list_keys (Inl e # objs) keys = Inl e"
| "list_keys (Inr key # objs) keys = list_keys objs (keys @ [key])"

definition minio_List :: "('c, 'r) minio_client \<Rightarrow> string \<Rightarrow> 'c \<Rightarrow> string \<Rightarrow> goerror + string list" where
  "minio_List C bucket c pfx = list_keys (mc_ListObjects C c bucket pfx) []"

definition minio_Delete :: "('c, 'r) minio_client \<Rightarrow> string \<Rightarrow> 'c \<Rightarrow> string \<Rightarrow> goerror option \<times> 'c" where
  "minio_Delete C bucket c key = mc_RemoveObject C c bucket key"

definition minioStore :: "('c, 'r) minio_client \<Rightarrow> string \<Rightarrow> 'c ObjectStore" where
  "minioStore C bucket =
     \<lparr>os_Put = minio_Put C bucket, os_Get = minio_Get C bucket, os_List = minio_List C bucket,
      os_Delete = minio_Delete C bucket\<rparr>"

text \<open>\<open>Config\<close> and \<open>NewMinIO\<close>: \<open>new\<close> stands for \<open>minio.New\<close>, on the host, the two keys, the TLS flag and the region.\<close>

record ObjectConfig =
  oc_Endpoint :: string
  oc_Bucket :: string
  oc_AccessKey :: string
  oc_SecretKey :: string
  oc_Region :: string

definition NewMinIO :: "(string \<Rightarrow> string \<Rightarrow> string \<Rightarrow> bool \<Rightarrow> string \<Rightarrow> goerror + ('c, 'r) minio_client) \<Rightarrow> ObjectConfig
    \<Rightarrow> goerror + 'c ObjectStore" where
  "NewMinIO new conf =
     (let (endpoint, secure) = splitScheme (oc_Endpoint conf)
      in case new endpoint (oc_AccessKey conf) (oc_SecretKey conf) secure (oc_Region conf) of
           Inl e \<Rightarrow> Inl e
         | Inr client \<Rightarrow> Inr (minioStore client (oc_Bucket conf)))"

text \<open>The documented behaviour of the client: \<open>SetRange\<close> takes the first and the last byte of a range, both
  inclusive, and a put or remove concerns its key only.\<close>

definition client_ok :: "('c, 'r) minio_client \<Rightarrow> ('c \<Rightarrow> string \<Rightarrow> string \<Rightarrow> bytes option) \<Rightarrow> bool" where
  "client_ok C cobj \<longleftrightarrow>
     (\<forall>c b k d e c'. mc_PutObject C c b k d = (e, c') \<longrightarrow>
        (e = None \<longrightarrow> cobj c' b k = Some d) \<and> (\<forall>k'. k' \<noteq> k \<longrightarrow> cobj c' b k' = cobj c b k'))
     \<and> (\<forall>lo hi. 0 \<le> lo \<longrightarrow> lo \<le> hi \<longrightarrow> (\<exists>r. mc_SetRange C lo hi = Inr r \<and>
          (\<forall>c b k d. cobj c b k = Some d \<longrightarrow> hi < int (length d) \<longrightarrow>
             mc_GetObject C c b k r = Inr (take (nat (hi - lo + 1)) (drop (nat lo) d)))))
     \<and> (\<forall>c b k e c'. mc_RemoveObject C c b k = (e, c') \<longrightarrow>
          (e = None \<longrightarrow> cobj c' b k = None) \<and> (\<forall>k'. k' \<noteq> k \<longrightarrow> cobj c' b k' = cobj c b k'))"

lemma client_range:
  assumes "client_ok C cobj" and "0 \<le> lo" and "lo \<le> hi" and "cobj c b k = Some d" and "hi < int (length d)"
  shows "\<exists>r. mc_SetRange C lo hi = Inr r \<and> mc_GetObject C c b k r = Inr (take (nat (hi - lo + 1)) (drop (nat lo) d))"
proof -
  from assms(1-3) have "\<exists>r. mc_SetRange C lo hi = Inr r \<and>
      (\<forall>c b k d. cobj c b k = Some d \<longrightarrow> hi < int (length d) \<longrightarrow>
         mc_GetObject C c b k r = Inr (take (nat (hi - lo + 1)) (drop (nat lo) d)))"
    unfolding client_ok_def by (elim conjE allE [of _ lo] allE [of _ hi]) simp
  with assms(4,5) show ?thesis by blast
qed

lemma client_keys:
  assumes "client_ok C cobj"
  shows "mc_PutObject C c b k d = (None, c') \<Longrightarrow> cobj c' b k = Some d"
    and "mc_PutObject C c b k d = (e, c') \<Longrightarrow> k' \<noteq> k \<Longrightarrow> cobj c' b k' = cobj c b k'"
    and "mc_RemoveObject C c b k = (None, c') \<Longrightarrow> cobj c' b k = None"
    and "mc_RemoveObject C c b k = (e, c') \<Longrightarrow> k' \<noteq> k \<Longrightarrow> cobj c' b k' = cobj c b k'"
  using assms unfolding client_ok_def by blast+

lemma minio_Get_range:
  assumes "client_ok C cobj" and "cobj c bucket k = Some d" and "0 \<le> off" and "0 < len"
    and "off + len \<le> int (length d)" and "off + len < 2 ^ 63"
  shows "minio_Get C bucket c k off len = Inr (take (nat len) (drop (nat off) d))"
proof -
  have w: "i64 (i64 (off + len) - 1) = off + len - 1" using assms(3,4,6) by (simp add: i64_id in_i64_def)
  have "0 \<le> off + len - 1 - off" using assms(4) by simp
  then obtain r where r: "mc_SetRange C off (off + len - 1) = Inr r"
    "mc_GetObject C c bucket k r = Inr (take (nat (off + len - 1 - off + 1)) (drop (nat off) d))"
    using client_range [OF assms(1,3), of "off + len - 1" c bucket k d] assms(2,5) by auto
  with assms(4) w show ?thesis by (simp add: minio_Get_def)
qed

text \<open>The implementation meets the contract over every client that behaves as documented.\<close>

lemma minioStore_ok:
  assumes "client_ok C cobj"
  shows "object_store_ok (minioStore C bucket) (\<lambda>c. cobj c bucket)"
  unfolding object_store_ok_def
proof (intro conjI allI impI)
  fix s k d e s' k'
  assume put: "os_Put (minioStore C bucket) s k d = (e, s')"
  show "cobj s' bucket k = Some d" if "e = None" using client_keys(1) [OF assms] put that by (simp add: minioStore_def minio_Put_def)
  show "cobj s' bucket k' = cobj s bucket k'" if "k' \<noteq> k"
    using client_keys(2) [OF assms] put that by (simp add: minioStore_def minio_Put_def)
next
  fix s k d off len
  assume "cobj s bucket k = Some d" "0 \<le> off" "0 < len" "off + len \<le> int (length d)" "off + len < 2 ^ 63"
  then show "os_Get (minioStore C bucket) s k off len = Inr (take (nat len) (drop (nat off) d))"
    using minio_Get_range [OF assms] by (simp add: minioStore_def)
next
  fix s k e s' k'
  assume del: "os_Delete (minioStore C bucket) s k = (e, s')"
  show "cobj s' bucket k = None" if "e = None" using client_keys(3) [OF assms] del that by (simp add: minioStore_def minio_Delete_def)
  show "cobj s' bucket k' = cobj s bucket k'" if "k' \<noteq> k"
    using client_keys(4) [OF assms] del that by (simp add: minioStore_def minio_Delete_def)
qed

section \<open>A client that keeps the objects in memory\<close>

definition map_client :: "((string \<times> string \<Rightarrow> bytes option), int \<times> int) minio_client" where
  "map_client =
     \<lparr>mc_PutObject = (\<lambda>c b k d. (None, c((b, k) \<mapsto> d))),
      mc_all = (0, -1),
      mc_SetRange = (\<lambda>lo hi. if 0 \<le> lo \<and> lo \<le> hi then Inr (lo, hi) else Inl ErrTooShort),
      mc_GetObject = (\<lambda>c b k (lo, hi). case c (b, k) of None \<Rightarrow> Inl ErrNotExist
        | Some d \<Rightarrow> Inr (if hi < lo then d else take (nat (hi - lo + 1)) (drop (nat lo) d))),
      mc_ListObjects = (\<lambda>c b pfx. []),
      mc_RemoveObject = (\<lambda>c b k. (None, c((b, k) := None)))\<rparr>"

abbreviation map_store :: "(string \<times> string \<Rightarrow> bytes option) ObjectStore" where
  "map_store \<equiv> minioStore map_client ''mq''"

abbreviation map_obj :: "(string \<times> string \<Rightarrow> bytes option) \<Rightarrow> string \<Rightarrow> bytes option" where
  "map_obj c k \<equiv> c (''mq'', k)"

lemma map_client_ok: "client_ok map_client (\<lambda>c b k. c (b, k))"
  by (auto simp: client_ok_def map_client_def)

lemma map_store_ok: "object_store_ok map_store map_obj"
  using minioStore_ok [OF map_client_ok] .

end
