(* ===== verification/Object_Index.thy ===== *)
theory Object_Index
  imports Gostd "HOL-Library.Finite_Map"
begin

text \<open>
  \<open>internal/storage/object/index.go\<close>: the index of the object backend, which maps the offset ranges
  of a partition to byte spans of uploaded objects. The durable home of the index is the
  interface \<open>IndexStore\<close>, a locale here; its in-memory implementation is an instance (the
  controller's implementation is another, in theory \<open>Controller\<close>). \<open>Index\<close> is the sorted cache over a
  store; the operations it calls on the store are its parameters.
\<close>

record SegmentRef =
  sg_Key :: string
  sg_BaseOffset :: int
  sg_NextOffset :: int
  sg_Position :: int
  sg_Length :: int
  sg_UploadedMs :: int

definition indexKey :: "string \<Rightarrow> int \<Rightarrow> string" where
  "indexKey topic partition' = topic @ [CHR 0x00] @ itoa partition'"

type_synonym refmap = "(string, SegmentRef list) fmap"

text \<open>A Go map read: the zero value, a nil slice, for a missing key.\<close>

definition refs_at :: "refmap \<Rightarrow> string \<Rightarrow> SegmentRef list" where
  "refs_at m k = (case fmlookup m k of None \<Rightarrow> [] | Some rs \<Rightarrow> rs)"

section \<open>The in-memory store\<close>

definition Mem_Commit :: "refmap \<Rightarrow> string \<Rightarrow> int \<Rightarrow> SegmentRef \<Rightarrow> goerror option \<times> refmap" where
  "Mem_Commit m topic partition' ref =
     (let k = indexKey topic partition' in (None, fmupd k (refs_at m k @ [ref]) m))"

definition Mem_Load :: "refmap \<Rightarrow> string \<Rightarrow> int \<Rightarrow> goerror + SegmentRef list" where
  "Mem_Load m topic partition' = Inr (refs_at m (indexKey topic partition'))"

definition Mem_Prune :: "refmap \<Rightarrow> string \<Rightarrow> int \<Rightarrow> int \<Rightarrow> (goerror + SegmentRef list) \<times> refmap" where
  "Mem_Prune m topic partition' cutoff =
     (let k = indexKey topic partition';
          dropped = filter (\<lambda>r. sg_NextOffset r \<le> cutoff) (refs_at m k);
          kept = filter (\<lambda>r. \<not> sg_NextOffset r \<le> cutoff) (refs_at m k)
      in (Inr dropped, fmupd k kept m))"

definition Mem_Referenced :: "refmap \<Rightarrow> string \<Rightarrow> goerror + bool" where
  "Mem_Referenced m key = Inr (fBex (fmran m) (\<lambda>refs. list_ex (\<lambda>r. sg_Key r = key) refs))"

section \<open>The cache\<close>

record 's Index =
  ix_store :: 's
  ix_refs :: refmap

definition newIndex :: "'s \<Rightarrow> 's Index" where
  "newIndex s = \<lparr>ix_store = s, ix_refs = fmempty\<rparr>"

definition Index_load :: "('s \<Rightarrow> string \<Rightarrow> int \<Rightarrow> goerror + SegmentRef list) \<Rightarrow>
    's Index \<Rightarrow> string \<Rightarrow> int \<Rightarrow> goerror option \<times> 's Index" where
  "Index_load Load ix topic partition' =
     (case Load (ix_store ix) topic partition' of
        Inl e \<Rightarrow> (Some e, ix)
      | Inr refs \<Rightarrow>
          (None, ix\<lparr>ix_refs := fmupd (indexKey topic partition') (sort_key sg_BaseOffset refs) (ix_refs ix)\<rparr>))"

definition Index_commit :: "('s \<Rightarrow> string \<Rightarrow> int \<Rightarrow> SegmentRef \<Rightarrow> goerror option \<times> 's) \<Rightarrow>
    's Index \<Rightarrow> string \<Rightarrow> int \<Rightarrow> SegmentRef \<Rightarrow> goerror option \<times> 's Index" where
  "Index_commit Commit ix topic partition' ref =
     (case Commit (ix_store ix) topic partition' ref of
        (Some e, s) \<Rightarrow> (Some e, ix\<lparr>ix_store := s\<rparr>)
      | (None, s) \<Rightarrow>
          let k = indexKey topic partition' in
          (None, ix\<lparr>ix_store := s, ix_refs := fmupd k (refs_at (ix_refs ix) k @ [ref]) (ix_refs ix)\<rparr>))"

definition refsFor :: "'s Index \<Rightarrow> string \<Rightarrow> int \<Rightarrow> SegmentRef list" where
  "refsFor ix topic partition' = refs_at (ix_refs ix) (indexKey topic partition')"

definition refFor :: "'s Index \<Rightarrow> string \<Rightarrow> int \<Rightarrow> int \<Rightarrow> SegmentRef option" where
  "refFor ix topic partition' offset =
     (let refs = refs_at (ix_refs ix) (indexKey topic partition');
          i = go_search (length refs) (\<lambda>i. sg_BaseOffset (refs ! i) > offset)
      in if i = 0 then None
         else
           let ref = refs ! (i - 1) in
           if offset \<ge> sg_NextOffset ref then None else Some ref)"

definition Index_prune :: "('s \<Rightarrow> string \<Rightarrow> int \<Rightarrow> int \<Rightarrow> (goerror + SegmentRef list) \<times> 's) \<Rightarrow>
    's Index \<Rightarrow> string \<Rightarrow> int \<Rightarrow> int \<Rightarrow> (goerror + SegmentRef list) \<times> 's Index" where
  "Index_prune Prune ix topic partition' cutoff =
     (case Prune (ix_store ix) topic partition' cutoff of
        (Inl e, s) \<Rightarrow> (Inl e, ix\<lparr>ix_store := s\<rparr>)
      | (Inr dropped, s) \<Rightarrow>
          let k = indexKey topic partition' in
          (Inr dropped, ix\<lparr>ix_store := s,
             ix_refs := fmupd k (filter (\<lambda>r. sg_NextOffset r > cutoff) (refs_at (ix_refs ix) k)) (ix_refs ix)\<rparr>))"

definition Index_referenced :: "('s \<Rightarrow> string \<Rightarrow> goerror + bool) \<Rightarrow> 's Index \<Rightarrow> string \<Rightarrow> bool" where
  "Index_referenced Referenced ix key =
     (case Referenced (ix_store ix) key of Inl e \<Rightarrow> True | Inr ok \<Rightarrow> ok)"

definition Index_earliest :: "'s Index \<Rightarrow> string \<Rightarrow> int \<Rightarrow> int option" where
  "Index_earliest ix topic partition' =
     (let refs = refs_at (ix_refs ix) (indexKey topic partition') in
      if length refs = 0 then None else Some (sg_BaseOffset (refs ! 0)))"

definition Index_latest :: "'s Index \<Rightarrow> string \<Rightarrow> int \<Rightarrow> int option" where
  "Index_latest ix topic partition' =
     (let refs = refs_at (ix_refs ix) (indexKey topic partition') in
      if length refs = 0 then None else Some (sg_NextOffset (refs ! (length refs - 1))))"

section \<open>Keys\<close>

lemma itoa_no_nul: "CHR 0x00 \<notin> set (itoa p)"
proof -
  have "CHR 0x00 \<notin> set (show_nat n)" for n
  proof
    assume "CHR 0x00 \<in> set (show_nat n)"
    then obtain d where "d < 10" "CHR 0x00 = digit_char d" using show_nat_digits by blast
    then have "char_digit (CHR 0x00) = Some d" by simp
    then show False by (simp add: char_digit_def split: if_splits)
  qed
  then show ?thesis by (simp add: itoa_def)
qed

lemma indexKey_inj:
  assumes "indexKey t p = indexKey t' p'" and "in_i32 p" and "in_i32 p'"
  shows "t = t' \<and> p = p'"
proof -
  have "last_index_char (CHR 0x00) (indexKey t p) = Some (length t)"
    "last_index_char (CHR 0x00) (indexKey t' p') = Some (length t')"
    by (simp_all add: indexKey_def last_index_char_split itoa_no_nul)
  with assms(1) have len: "length t = length t'" by simp
  with assms(1) have "t = t'" "itoa p = itoa p'" by (simp_all add: indexKey_def)
  moreover have "in_i64 p" "in_i64 p'" using assms(2,3) by (simp_all add: in_i32_def in_i64_def)
  ultimately show ?thesis using itoa_inj by blast
qed

section \<open>The contract of an index store\<close>

text \<open>\<open>committed s t p\<close> are the references the store holds for a partition.\<close>

locale index_store =
  fixes inv :: "'s \<Rightarrow> bool"
    and committed :: "'s \<Rightarrow> string \<Rightarrow> int \<Rightarrow> SegmentRef list"
    and Commit :: "'s \<Rightarrow> string \<Rightarrow> int \<Rightarrow> SegmentRef \<Rightarrow> goerror option \<times> 's"
    and Load :: "'s \<Rightarrow> string \<Rightarrow> int \<Rightarrow> goerror + SegmentRef list"
    and Prune :: "'s \<Rightarrow> string \<Rightarrow> int \<Rightarrow> int \<Rightarrow> (goerror + SegmentRef list) \<times> 's"
    and Referenced :: "'s \<Rightarrow> string \<Rightarrow> goerror + bool"
  assumes commit_law: "inv s \<Longrightarrow> in_i32 p \<Longrightarrow> \<exists>s'. Commit s t p r = (None, s') \<and> inv s'
      \<and> (\<forall>t' p'. in_i32 p' \<longrightarrow> committed s' t' p' =
           (if t' = t \<and> p' = p then committed s t p @ [r] else committed s t' p'))"
    and load_law: "inv s \<Longrightarrow> in_i32 p \<Longrightarrow> Load s t p = Inr (committed s t p)"
    and prune_law: "inv s \<Longrightarrow> in_i32 p \<Longrightarrow>
      \<exists>s'. Prune s t p c = (Inr (filter (\<lambda>r. sg_NextOffset r \<le> c) (committed s t p)), s') \<and> inv s'
      \<and> (\<forall>t' p'. in_i32 p' \<longrightarrow> committed s' t' p' =
           (if t' = t \<and> p' = p then filter (\<lambda>r. sg_NextOffset r > c) (committed s t p) else committed s t' p'))"
    and referenced_law: "inv s \<Longrightarrow>
      \<exists>b. Referenced s k = Inr b \<and> (b \<longleftrightarrow> (\<exists>t p r. in_i32 p \<and> r \<in> set (committed s t p) \<and> sg_Key r = k))"
begin

text \<open>An object that no partition refers to stays unreferenced when references are pruned, and a
  pruned partition refers to nothing below the cutoff.\<close>

lemma prune_unreferenced:
  assumes "inv s" and "in_i32 p" and "Prune s t p c = (Inr dropped, s')" and "Referenced s k = Inr False"
  shows "Referenced s' k = Inr False"
proof -
  from prune_law [OF assms(1,2), of t c] assms(3) have s': "inv s'"
    and c: "\<And>t' p'. in_i32 p' \<Longrightarrow> committed s' t' p' =
      (if t' = t \<and> p' = p then filter (\<lambda>r. sg_NextOffset r > c) (committed s t p) else committed s t' p')"
    by auto
  from referenced_law [OF assms(1), of k] assms(4)
  have no: "\<not> (\<exists>t p r. in_i32 p \<and> r \<in> set (committed s t p) \<and> sg_Key r = k)" by simp
  from referenced_law [OF s', of k] obtain b where b: "Referenced s' k = Inr b"
    "b \<longleftrightarrow> (\<exists>t p r. in_i32 p \<and> r \<in> set (committed s' t p) \<and> sg_Key r = k)" by blast
  have "\<not> b" using no b(2) c by (auto split: if_splits)
  with b(1) show ?thesis by simp
qed

lemma load_after_commit:
  assumes "inv s" and "in_i32 p" and "Commit s t p r = (e, s')"
  shows "Load s' t p = Inr (committed s t p @ [r])"
  using commit_law [OF assms(1,2), of t r] assms(3) load_law [of s' p t] assms(2) by auto

end

text \<open>The in-memory store: every key of the map is the key of a partition.\<close>

definition mem_inv :: "refmap \<Rightarrow> bool" where
  "mem_inv m \<longleftrightarrow> (\<forall>k. k |\<in>| fmdom m \<longrightarrow> (\<exists>t p. in_i32 p \<and> k = indexKey t p))"

abbreviation mem_committed :: "refmap \<Rightarrow> string \<Rightarrow> int \<Rightarrow> SegmentRef list" where
  "mem_committed m t p \<equiv> refs_at m (indexKey t p)"

lemma refs_at_upd: "refs_at (fmupd k v m) k' = (if k' = k then v else refs_at m k')"
  by (simp add: refs_at_def)

lemma mem_inv_upd: "mem_inv m \<Longrightarrow> in_i32 p \<Longrightarrow> mem_inv (fmupd (indexKey t p) v m)"
  by (auto simp: mem_inv_def)

lemma refs_referenced:
  assumes "mem_inv m"
  shows "fBex (fmran m) (\<lambda>refs. list_ex (\<lambda>r. sg_Key r = key) refs) \<longleftrightarrow>
    (\<exists>t p r. in_i32 p \<and> r \<in> set (mem_committed m t p) \<and> sg_Key r = key)"
proof
  assume "fBex (fmran m) (\<lambda>refs. list_ex (\<lambda>r. sg_Key r = key) refs)"
  then obtain refs k where k: "fmlookup m k = Some refs" "list_ex (\<lambda>r. sg_Key r = key) refs"
    by (auto elim!: fmranE)
  then obtain t p where "in_i32 p" "k = indexKey t p"
    using assms fmdomI [OF k(1)] unfolding mem_inv_def by blast
  moreover from this k(1) have "mem_committed m t p = refs" by (simp add: refs_at_def)
  ultimately show "\<exists>t p r. in_i32 p \<and> r \<in> set (mem_committed m t p) \<and> sg_Key r = key"
    using k(2) unfolding list_ex_iff by metis
next
  assume "\<exists>t p r. in_i32 p \<and> r \<in> set (mem_committed m t p) \<and> sg_Key r = key"
  then obtain t p r where "r \<in> set (mem_committed m t p)" "sg_Key r = key" by blast
  then show "fBex (fmran m) (\<lambda>refs. list_ex (\<lambda>r. sg_Key r = key) refs)"
    by (auto simp: refs_at_def list_ex_iff split: option.splits intro!: fmranI bexI)
qed

interpretation mem_store: index_store mem_inv mem_committed Mem_Commit Mem_Load Mem_Prune Mem_Referenced
proof unfold_locales
  fix s p t r
  assume "mem_inv s" "in_i32 p"
  then show "\<exists>s'. Mem_Commit s t p r = (None, s') \<and> mem_inv s' \<and> (\<forall>t' p'. in_i32 p' \<longrightarrow> mem_committed s' t' p' =
      (if t' = t \<and> p' = p then mem_committed s t p @ [r] else mem_committed s t' p'))"
    using indexKey_inj by (auto simp: Mem_Commit_def Let_def refs_at_upd mem_inv_upd)
next
  fix s p t c
  assume "mem_inv s" "in_i32 p"
  then show "\<exists>s'. Mem_Prune s t p c = (Inr (filter (\<lambda>r. sg_NextOffset r \<le> c) (mem_committed s t p)), s') \<and> mem_inv s'
      \<and> (\<forall>t' p'. in_i32 p' \<longrightarrow> mem_committed s' t' p' =
          (if t' = t \<and> p' = p then filter (\<lambda>r. sg_NextOffset r > c) (mem_committed s t p) else mem_committed s t' p'))"
    using indexKey_inj by (auto simp: Mem_Prune_def Let_def refs_at_upd mem_inv_upd not_le)
next
  fix s k
  assume "mem_inv s"
  then show "\<exists>b. Mem_Referenced s k = Inr b
      \<and> (b \<longleftrightarrow> (\<exists>t p r. in_i32 p \<and> r \<in> set (mem_committed s t p) \<and> sg_Key r = k))"
    by (auto simp: Mem_Referenced_def refs_referenced)
qed (simp add: Mem_Load_def)

section \<open>Looking up an offset\<close>

text \<open>The references of a partition as uploads create them: non-empty ranges in offset order.\<close>

definition ranges_ok :: "SegmentRef list \<Rightarrow> bool" where
  "ranges_ok refs \<longleftrightarrow> list_all (\<lambda>r. sg_BaseOffset r < sg_NextOffset r) refs
     \<and> sorted_wrt (\<lambda>a b. sg_NextOffset a \<le> sg_BaseOffset b) refs"

lemma ranges_okD:
  assumes "ranges_ok refs" and "i < j" and "j < length refs"
  shows "sg_NextOffset (refs ! i) \<le> sg_BaseOffset (refs ! j)" "sg_BaseOffset (refs ! i) < sg_BaseOffset (refs ! j)"
proof -
  show le: "sg_NextOffset (refs ! i) \<le> sg_BaseOffset (refs ! j)"
    using assms sorted_wrt_nth_less unfolding ranges_ok_def by blast
  have "sg_BaseOffset (refs ! i) < sg_NextOffset (refs ! i)"
    using assms by (simp add: ranges_ok_def list_all_length)
  with le show "sg_BaseOffset (refs ! i) < sg_BaseOffset (refs ! j)" by simp
qed

lemma find_unique:
  assumes "k < length xs" and "P (xs ! k)" and "\<And>j. j < length xs \<Longrightarrow> P (xs ! j) \<Longrightarrow> j = k"
  shows "find P xs = Some (xs ! k)"
proof -
  have "\<not> P (xs ! j)" if "j < k" for j using assms(1) assms(3) [of j] that by auto
  with assms(1,2) show ?thesis by (subst find_Some_iff) blast
qed

lemma refFor_find:
  assumes ok: "ranges_ok (refsFor ix t p)"
  shows "refFor ix t p off = find (\<lambda>r. sg_BaseOffset r \<le> off \<and> off < sg_NextOffset r) (refsFor ix t p)"
proof -
  define refs where "refs = refsFor ix t p"
  define f where "f i \<longleftrightarrow> sg_BaseOffset (refs ! i) > off" for i
  define i where "i = go_search (length refs) f"
  note D = ranges_okD [OF ok [folded refs_def]]
  have "f b" if "f a" "a \<le> b" "b < length refs" for a b
    using D(2) [of a b] that by (cases "a = b") (simp_all add: f_def)
  then have "mono_pred (length refs) f" by (simp add: mono_pred_def)
  from go_search_spec [OF this] have i: "i \<le> length refs" "\<And>j. j < i \<Longrightarrow> \<not> f j"
    "\<And>j. i \<le> j \<Longrightarrow> j < length refs \<Longrightarrow> f j"
    by (simp_all add: i_def)
  have step: "refFor ix t p off = (if i = 0 then None
      else if off \<ge> sg_NextOffset (refs ! (i - 1)) then None else Some (refs ! (i - 1)))"
    by (simp add: refFor_def refsFor_def refs_def i_def f_def [abs_def] Let_def)
  have only: "j = i - 1 \<and> 0 < i" if "j < length refs" "sg_BaseOffset (refs ! j) \<le> off" "off < sg_NextOffset (refs ! j)" for j
  proof -
    have ji: "j < i" using i(3) [of j] that by (cases "j < i") (simp_all add: f_def)
    have "sg_BaseOffset (refs ! (i - 1)) \<le> off" using i(2) [of "i - 1"] ji by (simp add: f_def not_less)
    moreover have "sg_NextOffset (refs ! j) \<le> sg_BaseOffset (refs ! (i - 1))" if "j < i - 1"
      using D(1) [OF that] i(1) ji by simp
    ultimately have "\<not> j < i - 1" using that(3) by linarith
    with ji show ?thesis by simp
  qed
  show ?thesis
  proof (cases "0 < i \<and> off < sg_NextOffset (refs ! (i - 1))")
    case True
    then have "sg_BaseOffset (refs ! (i - 1)) \<le> off" "i - 1 < length refs"
      using i(1) i(2) [of "i - 1"] by (auto simp: f_def)
    then have "find (\<lambda>r. sg_BaseOffset r \<le> off \<and> off < sg_NextOffset r) refs = Some (refs ! (i - 1))"
      using True only by (intro find_unique) blast+
    with True step show ?thesis by (simp add: refs_def)
  next
    case False
    then have "find (\<lambda>r. sg_BaseOffset r \<le> off \<and> off < sg_NextOffset r) refs = None"
      using only unfolding find_None_iff in_set_conv_nth by metis
    with False step show ?thesis by (auto simp: refs_def)
  qed
qed

text \<open>On the ranges uploads create, the binary search \<open>refFor\<close> returns exactly the reference
  whose offset range holds the offset, and none if no uploaded object holds it.\<close>

theorem refFor_correct:
  assumes "ranges_ok (refsFor ix topic p)"
  shows "refFor ix topic p off = find (\<lambda>r. sg_BaseOffset r \<le> off \<and> off < sg_NextOffset r) (refsFor ix topic p)"
  using assms by (rule refFor_find)

abbreviation sample_ref :: "int \<Rightarrow> int \<Rightarrow> SegmentRef" where
  "sample_ref a b \<equiv> \<lparr>sg_Key = ''k'', sg_BaseOffset = a, sg_NextOffset = b, sg_Position = 0, sg_Length = 61, sg_UploadedMs = 0\<rparr>"

theorem refFor_correct_witness:
  "\<exists>ix. ranges_ok (refsFor (ix :: refmap Index) ''t'' 0)
     \<and> refFor ix ''t'' 0 6 = Some (sample_ref 4 9) \<and> refFor ix ''t'' 0 9 = None"
proof -
  define ix :: "refmap Index" where
    "ix = \<lparr>ix_store = fmempty, ix_refs = fmupd (indexKey ''t'' 0) [sample_ref 0 4, sample_ref 4 9] fmempty\<rparr>"
  have refs: "refsFor ix ''t'' 0 = [sample_ref 0 4, sample_ref 4 9]"
    by (simp add: ix_def refsFor_def refs_at_upd)
  then have ok: "ranges_ok (refsFor ix ''t'' 0)" by (simp add: ranges_ok_def)
  have "refFor ix ''t'' 0 6 = Some (sample_ref 4 9)" "refFor ix ''t'' 0 9 = None"
    unfolding refFor_correct [OF ok] by (simp_all add: refs)
  with ok show ?thesis by (intro exI [of _ ix] conjI)
qed

end
