(* ===== verification/Object_Storage.thy ===== *)
theory Object_Storage
  imports Backend Object_Wal Object_Store Object_Index "HOL-Library.Char_ord" "HOL-Library.List_Lexorder"
begin

text \<open>
  \<open>internal/storage/object/storage.go\<close>, \<open>read.go\<close> and \<open>retention.go\<close>: the node storage of the object
  backend, which owns the write-ahead log, the batches that are not uploaded yet, the index and
  the uploader. The object store and the index store are the interfaces of theories \<open>Object_Store\<close>
  and \<open>Object_Index\<close>: records of operations on their states, which are part of the storage state.
\<close>

section \<open>State\<close>

record 's IndexStore =
  is_Commit :: "'s \<Rightarrow> string \<Rightarrow> int \<Rightarrow> SegmentRef \<Rightarrow> goerror option \<times> 's"
  is_Load :: "'s \<Rightarrow> string \<Rightarrow> int \<Rightarrow> goerror + SegmentRef list"
  is_Prune :: "'s \<Rightarrow> string \<Rightarrow> int \<Rightarrow> int \<Rightarrow> (goerror + SegmentRef list) \<times> 's"
  is_Referenced :: "'s \<Rightarrow> string \<Rightarrow> goerror + bool"

record StorageConfig =
  sc_NodeID :: string
  sc_UploadBytes :: int
  sc_UploadMS :: int

record pendingPart =
  pp_topic :: string
  pp_partition :: int
  pp_baseOffset :: int
  pp_nextOffset :: int
  pp_batches :: "bytes list"
  pp_bytes :: int

type_synonym pending = "(string, pendingPart) fmap"

text \<open>\<open>st_notify\<close>: a nudge of the uploader waits in the channel of capacity one.\<close>

record ('o, 's) Storage =
  st_store :: 'o
  st_wal :: wal
  st_index :: "'s Index"
  st_cfg :: StorageConfig
  st_pending :: pending
  st_pendingBytes :: int
  st_uploadSeq :: int
  st_recBase :: "(string, int) fmap"
  st_recNext :: "(string, int) fmap"
  st_notify :: bool

section \<open>Appending\<close>

definition add_batch :: "pendingPart option \<Rightarrow> walRecord \<Rightarrow> int \<Rightarrow> pendingPart" where
  "add_batch old rec nxt =
     (let pp = (case old of Some pp \<Rightarrow> pp
                | None \<Rightarrow> \<lparr>pp_topic = wr_Topic rec, pp_partition = wr_Partition rec, pp_baseOffset = wr_BaseOffset rec,
                           pp_nextOffset = 0, pp_batches = [], pp_bytes = 0\<rparr>)
      in pp\<lparr>pp_batches := pp_batches pp @ [wr_Batch rec], pp_nextOffset := nxt,
            pp_bytes := i64 (pp_bytes pp + int (length (wr_Batch rec)))\<rparr>)"

definition appendPendingLocked :: "('o, 's) Storage \<Rightarrow> walRecord \<Rightarrow> int \<Rightarrow> ('o, 's) Storage" where
  "appendPendingLocked st rec nxt =
     (let k = indexKey (wr_Topic rec) (wr_Partition rec)
      in st\<lparr>st_pending := fmupd k (add_batch (fmlookup (st_pending st) k) rec nxt) (st_pending st),
            st_pendingBytes := i64 (st_pendingBytes st + int (length (wr_Batch rec)))\<rparr>)"

definition triggerUpload :: "('o, 's) Storage \<Rightarrow> ('o, 's) Storage" where
  "triggerUpload st = st\<lparr>st_notify := True\<rparr>"

definition st_append :: "('o, 's) Storage \<Rightarrow> walRecord \<Rightarrow> int \<Rightarrow> ('o, 's) Storage" where
  "st_append st rec nxt =
     (let st1 = appendPendingLocked (st\<lparr>st_wal := wal_append (st_wal st) rec\<rparr>) rec nxt;
          full = sc_UploadBytes (st_cfg st1) > 0 \<and> st_pendingBytes st1 \<ge> sc_UploadBytes (st_cfg st1)
      in if full then triggerUpload st1 else st1)"

section \<open>Opening\<close>

text \<open>The callback of \<open>replay\<close>.\<close>

definition replay_rec :: "('o, 's) Storage callback" where
  "replay_rec rec st =
     (case ParseHeader (wr_Batch rec) of
        (h, Some e) \<Rightarrow> (Some e, st)
      | (h, None) \<Rightarrow>
          let nxt = i64 (LastOffset h + 1);
              st1 = appendPendingLocked st rec nxt;
              k = indexKey (wr_Topic rec) (wr_Partition rec);
              base = (case fmlookup (st_recBase st1) k of
                        None \<Rightarrow> fmupd k (wr_BaseOffset rec) (st_recBase st1)
                      | Some _ \<Rightarrow> st_recBase st1)
          in (None, st1\<lparr>st_recBase := base, st_recNext := fmupd k nxt (st_recNext st1)\<rparr>))"

definition st_replay :: "('o, 's) Storage \<Rightarrow> goerror option \<times> ('o, 's) Storage" where
  "st_replay st = wal_replay (st_wal st) replay_rec st"

text \<open>\<open>walDir\<close> are the files of the directory of the write-ahead log.\<close>

definition NewStorage :: "'o \<Rightarrow> 's \<Rightarrow> StorageConfig \<Rightarrow> dir \<Rightarrow> goerror + ('o, 's) Storage" where
  "NewStorage store idx conf walDir =
     (case st_replay \<lparr>st_store = store, st_wal = openWAL walDir, st_index = newIndex idx, st_cfg = conf,
             st_pending = fmempty, st_pendingBytes = 0, st_uploadSeq = 0, st_recBase = fmempty,
             st_recNext = fmempty, st_notify = False\<rparr> of
        (Some e, st) \<Rightarrow> Inl e
      | (None, st) \<Rightarrow> Inr st)"

section \<open>Uploading\<close>

definition sortedKeys :: "pending \<Rightarrow> string list" where
  "sortedKeys m = sorted_list_of_fset (fmdom m)"

definition merge_part :: "pending \<Rightarrow> string \<Rightarrow> pendingPart \<Rightarrow> pendingPart" where
  "merge_part cur k pp =
     (case fmlookup cur k of
        None \<Rightarrow> pp
      | Some c \<Rightarrow> pp\<lparr>pp_batches := pp_batches pp @ pp_batches c, pp_nextOffset := pp_nextOffset c,
                     pp_bytes := i64 (pp_bytes pp + pp_bytes c)\<rparr>)"

definition restore :: "pending \<Rightarrow> ('o, 's) Storage \<Rightarrow> ('o, 's) Storage" where
  "restore snap st =
     (let m = fmadd (st_pending st) (fmmap_keys (merge_part (st_pending st)) snap)
      in st\<lparr>st_pending := m,
            st_pendingBytes := foldl (\<lambda>n k. i64 (n + pp_bytes (the (fmlookup m k)))) 0 (sortedKeys m)\<rparr>)"

definition object_key :: "StorageConfig \<Rightarrow> int \<Rightarrow> string" where
  "object_key conf sq = ''data/sso/'' @ sc_NodeID conf @ ''/'' @ fmt_020d sq"

text \<open>The object and the references to commit: the batches of the parts one after the other.\<close>

fun build :: "string \<Rightarrow> int \<Rightarrow> pendingPart list \<Rightarrow> bytes \<times> (string \<times> int \<times> SegmentRef) list
    \<Rightarrow> bytes \<times> (string \<times> int \<times> SegmentRef) list" where
  "build key uploadedMs [] acc = acc"
| "build key uploadedMs (pp # pps) (buf, commits) =
     (let buf' = buf @ concat (pp_batches pp);
          ref = \<lparr>sg_Key = key, sg_BaseOffset = pp_baseOffset pp, sg_NextOffset = pp_nextOffset pp,
                 sg_Position = int (length buf), sg_Length = int (length buf') - int (length buf),
                 sg_UploadedMs = uploadedMs\<rparr>
      in build key uploadedMs pps (buf', commits @ [(pp_topic pp, pp_partition pp, ref)]))"

fun commit_all :: "'s IndexStore \<Rightarrow> 's Index \<Rightarrow> (string \<times> int \<times> SegmentRef) list \<Rightarrow> goerror option \<times> 's Index" where
  "commit_all I ix [] = (None, ix)"
| "commit_all I ix ((t, p, ref) # cs) =
     (case Index_commit (is_Commit I) ix t p ref of
        (Some e, ix') \<Rightarrow> (Some e, ix')
      | (None, ix') \<Rightarrow> commit_all I ix' cs)"

text \<open>The critical section that takes the snapshot: the parts to upload and the sequence number.\<close>

definition upload_snapshot :: "('o, 's) Storage \<Rightarrow> (pending \<times> int \<times> ('o, 's) Storage) option" where
  "upload_snapshot st =
     (if fmdom (st_pending st) = {||} then None
      else
        let sq = u64 (st_uploadSeq st + 1)
        in Some (st_pending st, sq, st\<lparr>st_pending := fmempty, st_pendingBytes := 0, st_uploadSeq := sq\<rparr>))"

text \<open>Sealing the write-ahead log; \<open>syncErr\<close> is the failure of its \<open>Sync\<close>, which leaves the log as it is.\<close>

definition upload_rotate :: "goerror option \<Rightarrow> pending \<Rightarrow> ('o, 's) Storage \<Rightarrow> (goerror + int) \<times> ('o, 's) Storage" where
  "upload_rotate syncErr snap st =
     (case syncErr of
        Some e \<Rightarrow> (Inl e, restore snap st)
      | None \<Rightarrow> let (sealed, w) = wal_rotate (st_wal st) in (Inr sealed, st\<lparr>st_wal := w\<rparr>))"

text \<open>Writing the object, committing its references and trimming the log.\<close>

definition upload_finish :: "'o ObjectStore \<Rightarrow> 's IndexStore \<Rightarrow> int \<Rightarrow> pending \<Rightarrow> int \<Rightarrow> int \<Rightarrow> ('o, 's) Storage
    \<Rightarrow> goerror option \<times> ('o, 's) Storage" where
  "upload_finish O' I uploadedMs snap sq sealed st =
     (let key = object_key (st_cfg st) sq;
          (buf, commits) = build key uploadedMs (map (\<lambda>k. the (fmlookup snap k)) (sortedKeys snap)) ([], [])
      in case os_Put O' (st_store st) key buf of
           (Some e, s) \<Rightarrow> (Some e, restore snap (st\<lparr>st_store := s\<rparr>))
         | (None, s) \<Rightarrow>
             let st1 = st\<lparr>st_store := s\<rparr> in
             (case commit_all I (st_index st1) commits of
                (Some e, ix) \<Rightarrow> (Some e, st1\<lparr>st_index := ix\<rparr>)
              | (None, ix) \<Rightarrow> (None, st1\<lparr>st_index := ix, st_wal := deleteThrough (st_wal st1) sealed\<rparr>)))"

definition upload :: "'o ObjectStore \<Rightarrow> 's IndexStore \<Rightarrow> goerror option \<Rightarrow> int \<Rightarrow> ('o, 's) Storage
    \<Rightarrow> goerror option \<times> ('o, 's) Storage" where
  "upload O' I syncErr uploadedMs st =
     (case upload_snapshot st of
        None \<Rightarrow> (None, st)
      | Some (snap, sq, st1) \<Rightarrow>
          (case upload_rotate syncErr snap st1 of
             (Inl e, st2) \<Rightarrow> (Some e, st2)
           | (Inr sealed, st2) \<Rightarrow> upload_finish O' I uploadedMs snap sq sealed st2))"

text \<open>One turn of the background uploader, woken by the ticker or by a nudge, and its period in
  nanoseconds.\<close>

definition run_turn :: "'o ObjectStore \<Rightarrow> 's IndexStore \<Rightarrow> goerror option \<Rightarrow> int \<Rightarrow> bool \<Rightarrow> ('o, 's) Storage \<Rightarrow> ('o, 's) Storage" where
  "run_turn O' I syncErr uploadedMs nudged st =
     snd (upload O' I syncErr uploadedMs (if nudged then st\<lparr>st_notify := False\<rparr> else st))"

definition run_interval :: "StorageConfig \<Rightarrow> int" where
  "run_interval conf = (let interval = i64 (sc_UploadMS conf * 1000000) in if interval \<le> 0 then 250 * 1000000 else interval)"

text \<open>\<open>Flush\<close> and \<open>Close\<close>, once the uploader has stopped: a last upload, then the file of the log is closed.\<close>

definition st_Flush :: "'o ObjectStore \<Rightarrow> 's IndexStore \<Rightarrow> goerror option \<Rightarrow> int \<Rightarrow> ('o, 's) Storage
    \<Rightarrow> goerror option \<times> ('o, 's) Storage" where
  "st_Flush = upload"

definition st_Close :: "'o ObjectStore \<Rightarrow> 's IndexStore \<Rightarrow> goerror option \<Rightarrow> goerror option \<Rightarrow> int \<Rightarrow> ('o, 's) Storage
    \<Rightarrow> goerror option \<times> ('o, 's) Storage" where
  "st_Close O' I syncErr closeErr uploadedMs st =
     (case upload O' I syncErr uploadedMs st of
        (Some e, st') \<Rightarrow> (Some e, st')
      | (None, st') \<Rightarrow> (closeErr, st'))"

section \<open>Reading\<close>

text \<open>\<open>None\<close> is non-termination, which a header of total size 0 causes.\<close>

partial_function (option) slice_loop ::
  "bytes \<Rightarrow> int \<Rightarrow> int \<Rightarrow> int \<Rightarrow> bytes \<Rightarrow> (bytes \<times> goerror option) go option" where
  "slice_loop data wantOffset maxBytes p out =
     (if p < int (length data) then
        if p < 0 then Some Panic
        else
        (case ParseHeader (drop (nat p) data) of
           (h, Some e) \<Rightarrow> Some (Ret (out, Some e))
         | (h, None) \<Rightarrow>
             let total = TotalSize h in
             if p + total > int (length data) then Some (Ret (out, None))
             else if LastOffset h < wantOffset then slice_loop data wantOffset maxBytes (p + total) out
             else if length out > 0 \<and> i32 (i32 (int (length out)) + i32 total) > maxBytes then Some (Ret (out, None))
             else if total < 0 then Some Panic
             else
               let out' = out @ take (nat total) (drop (nat p) data) in
               if i32 (int (length out')) \<ge> maxBytes then Some (Ret (out', None))
               else slice_loop data wantOffset maxBytes (p + total) out')
      else Some (Ret (out, None)))"

definition sliceBatches :: "bytes \<Rightarrow> int \<Rightarrow> int \<Rightarrow> (bytes \<times> goerror option) go option" where
  "sliceBatches data wantOffset maxBytes = slice_loop data wantOffset maxBytes 0 []"

definition st_read :: "'o ObjectStore \<Rightarrow> ('o, 's) Storage \<Rightarrow> string \<Rightarrow> int \<Rightarrow> int \<Rightarrow> int
    \<Rightarrow> (bytes \<times> goerror option) go option" where
  "st_read O' st topic p offset maxBytes =
     (let pendingData =
            (case fmlookup (st_pending st) (indexKey topic p) of
               None \<Rightarrow> []
             | Some pp \<Rightarrow> if length (pp_batches pp) > 0 \<and> offset \<ge> pp_baseOffset pp then concat (pp_batches pp) else [])
      in if pendingData \<noteq> [] then sliceBatches pendingData offset maxBytes
         else case refFor (st_index st) topic p offset of
           None \<Rightarrow> Some (Ret ([], None))
         | Some ref \<Rightarrow>
             (case os_Get O' (st_store st) (sg_Key ref) (sg_Position ref) (sg_Length ref) of
                Inl e \<Rightarrow> Some (Ret ([], Some e))
              | Inr data \<Rightarrow> sliceBatches data offset maxBytes))"

partial_function (option) scan_loop :: "bytes \<Rightarrow> int \<Rightarrow> int \<Rightarrow> (int \<times> bool) go option" where
  "scan_loop data ts p =
     (if p < int (length data) then
        if p < 0 then Some Panic
        else
        (case ParseHeader (drop (nat p) data) of
           (h, Some e) \<Rightarrow> Some (Ret (0, False))
         | (h, None) \<Rightarrow>
             if MaxTimestamp h \<ge> ts then Some (Ret (BaseOffset h, True))
             else scan_loop data ts (p + TotalSize h))
      else Some (Ret (0, False)))"

definition scanTimestamp :: "bytes \<Rightarrow> int \<Rightarrow> (int \<times> bool) go option" where
  "scanTimestamp data ts = scan_loop data ts 0"

fun scan_refs :: "'o ObjectStore \<Rightarrow> 'o \<Rightarrow> int \<Rightarrow> SegmentRef list \<Rightarrow> (int \<times> bool) go option \<Rightarrow> (int \<times> bool) go option" where
  "scan_refs O' s ts [] tail = tail"
| "scan_refs O' s ts (ref # refs) tail =
     (case os_Get O' s (sg_Key ref) (sg_Position ref) (sg_Length ref) of
        Inl e \<Rightarrow> Some (Ret (0, False))
      | Inr data \<Rightarrow>
          (case scanTimestamp data ts of
             Some (Ret (off, False)) \<Rightarrow> scan_refs O' s ts refs tail
           | r \<Rightarrow> r))"

definition st_offsetForTimestamp :: "'o ObjectStore \<Rightarrow> ('o, 's) Storage \<Rightarrow> string \<Rightarrow> int \<Rightarrow> int \<Rightarrow> (int \<times> bool) go option" where
  "st_offsetForTimestamp O' st topic p ts =
     scan_refs O' (st_store st) ts (refsFor (st_index st) topic p)
       (scanTimestamp (case fmlookup (st_pending st) (indexKey topic p) of None \<Rightarrow> [] | Some pp \<Rightarrow> concat (pp_batches pp)) ts)"

section \<open>Retention\<close>

definition pending_bytes :: "('o, 's) Storage \<Rightarrow> string \<Rightarrow> int \<Rightarrow> int" where
  "pending_bytes st topic p = (case fmlookup (st_pending st) (indexKey topic p) of None \<Rightarrow> 0 | Some pp \<Rightarrow> pp_bytes pp)"

definition st_size :: "('o, 's) Storage \<Rightarrow> string \<Rightarrow> int \<Rightarrow> int" where
  "st_size st topic p =
     i64 (foldl (\<lambda>total r. i64 (total + sg_Length r)) 0 (refsFor (st_index st) topic p) + pending_bytes st topic p)"

text \<open>How many references the loop drops.\<close>

fun drop_count :: "int \<Rightarrow> int \<Rightarrow> int \<Rightarrow> int \<Rightarrow> SegmentRef list \<Rightarrow> nat" where
  "drop_count nowMs maxAgeMs maxBytes sz [] = 0"
| "drop_count nowMs maxAgeMs maxBytes sz (r # rs) =
     (let expired = maxAgeMs > 0 \<and> i64 (nowMs - sg_UploadedMs r) > maxAgeMs;
          overSize = maxBytes > 0 \<and> sz > maxBytes
      in if \<not> expired \<and> \<not> overSize then 0
         else Suc (drop_count nowMs maxAgeMs maxBytes (i64 (sz - sg_Length r)) rs))"

text \<open>Deleting the objects no partition refers to any more; a failure of \<open>Delete\<close> is ignored.\<close>

fun collect_objects :: "'o ObjectStore \<Rightarrow> (string \<Rightarrow> bool) \<Rightarrow> string list \<Rightarrow> SegmentRef list \<Rightarrow> 'o \<Rightarrow> 'o" where
  "collect_objects O' referenced seen [] s = s"
| "collect_objects O' referenced seen (r # rs) s =
     (if sg_Key r \<in> set seen then collect_objects O' referenced seen rs s
      else collect_objects O' referenced (sg_Key r # seen) rs
             (if \<not> referenced (sg_Key r) then snd (os_Delete O' s (sg_Key r)) else s))"

definition st_enforceRetention :: "'o ObjectStore \<Rightarrow> 's IndexStore \<Rightarrow> ('o, 's) Storage \<Rightarrow> string \<Rightarrow> int \<Rightarrow> int \<Rightarrow> int \<Rightarrow> int
    \<Rightarrow> (goerror + int \<times> bool) \<times> ('o, 's) Storage" where
  "st_enforceRetention O' I st topic p nowMs maxAgeMs maxBytes =
     (let refs = refsFor (st_index st) topic p in
      if length refs = 0 then (Inr (0, False), st)
      else
        let dropped = drop_count nowMs maxAgeMs maxBytes (st_size st topic p) refs in
        if dropped = 0 then (Inr (0, False), st)
        else
          let cutoff = sg_NextOffset (refs ! (dropped - 1)) in
          (case Index_prune (is_Prune I) (st_index st) topic p cutoff of
             (Inl e, ix) \<Rightarrow> (Inl e, st\<lparr>st_index := ix\<rparr>)
           | (Inr gone, ix) \<Rightarrow>
               (Inr (cutoff, True),
                st\<lparr>st_index := ix,
                   st_store := collect_objects O' (Index_referenced (is_Referenced I) ix) [] gone (st_store st)\<rparr>)))"

section \<open>Slices of whole batches\<close>

lemma wf_batch_nonempty: "wf_batch b \<Longrightarrow> b \<noteq> []"
  using wf_batch_size(1) [of b] by (auto simp: HeaderSize_def)

lemma concat_wf_nonempty: "list_all wf_batch bs \<Longrightarrow> bs \<noteq> [] \<Longrightarrow> concat bs \<noteq> []"
  using wf_batch_nonempty by (cases bs) auto

lemma slice_loop_step:
  assumes b: "wf_batch b" and data: "data = pre @ b @ post" and p: "p = int (length pre)"
    and size: "length data < 2 ^ 31" and out: "length out \<le> length pre"
  shows "slice_loop data want maxb p out =
    (if LastOffset (header b) < want then slice_loop data want maxb (p + int (length b)) out
     else if 0 < length out \<and> int (length out + length b) > maxb then Some (Ret (out, None))
     else if int (length out + length b) \<ge> maxb then Some (Ret (out @ b, None))
     else slice_loop data want maxb (p + int (length b)) (out @ b))"
proof -
  have len: "HeaderSize \<le> length b" using b by (rule wf_batch_size)
  have "drop (nat p) data = b @ post" using p by (simp add: data)
  moreover have "i32 (int (length out)) = int (length out)" "i32 (int (length b)) = int (length b)"
    "i32 (int (length out) + int (length b)) = int (length out) + int (length b)"
    using size out p by (simp_all add: data i32_id in_i32_def)
  moreover have "p < int (length data)" using len p by (simp add: data HeaderSize_def)
  ultimately show ?thesis
    using p by (subst slice_loop.simps) (simp add: Let_def wf_batch_ParseHeader [OF b] wf_batch_TotalSize [OF b] data)
qed

lemma slice_loop_collect:
  assumes "list_all wf_batch bs" and "data = pre @ concat bs" and "p = int (length pre)"
    and "length data < 2 ^ 31" and "length out \<le> length pre"
  shows "slice_loop data want maxb p out = Some (Ret (out @ concat (collect want maxb (length out) bs), None))"
  using assms
proof (induction bs arbitrary: pre p out)
  case Nil
  then show ?case by (subst slice_loop.simps) simp
next
  case (Cons b bs)
  have b: "wf_batch b" and data: "data = pre @ b @ concat bs" using Cons.prems by auto
  have IH: "slice_loop data want maxb (p + int (length b)) o' =
      Some (Ret (o' @ concat (collect want maxb (length o') bs), None))"
    if "length o' \<le> length (pre @ b)" for o'
    using Cons.prems that by (intro Cons.IH [of "pre @ b"]) auto
  from slice_loop_step [OF b data Cons.prems(3-5), of want maxb] IH [of out] IH [of "out @ b"] Cons.prems(5)
  show ?case by (cases "out = []") auto
qed

lemma sliceBatches_run:
  assumes "batch_run o' bs n" and "0 \<le> o'" and "n < 2 ^ 63" and "o' \<le> want" and "want < n"
    and "length (concat bs) < 2 ^ 31"
  shows "\<exists>out. sliceBatches (concat bs) want maxb = Some (Ret (out, None)) \<and> read_post bs want maxb out"
  using slice_loop_collect [OF batch_run_wf [OF assms(1)], of "concat bs" "[]" 0 "[]" want maxb]
    collect_post [OF assms(1-5), of maxb] assms(6)
  by (simp add: sliceBatches_def)

text \<open>The scan for a timestamp finds the first batch that reaches it.\<close>

definition first_at :: "int \<Rightarrow> bytes list \<Rightarrow> int \<times> bool" where
  "first_at ts bs = (case find (\<lambda>b. MaxTimestamp (header b) \<ge> ts) bs of
     None \<Rightarrow> (0, False) | Some b \<Rightarrow> (BaseOffset (header b), True))"

lemma scan_loop_find:
  assumes "list_all wf_batch bs" and "data = pre @ concat bs" and "p = int (length pre)"
  shows "scan_loop data ts p = Some (Ret (first_at ts bs))"
  using assms
proof (induction bs arbitrary: pre p)
  case Nil
  then show ?case by (subst scan_loop.simps) (simp add: first_at_def)
next
  case (Cons b bs)
  have b: "wf_batch b" and d: "drop (nat p) data = b @ concat bs" using Cons.prems by simp_all
  have "scan_loop data ts (p + int (length b)) = Some (Ret (first_at ts bs))"
    using Cons.prems by (intro Cons.IH [of "pre @ b"]) simp_all
  moreover have "p < int (length data)" using Cons.prems(2,3) wf_batch_nonempty [OF b] by (cases b) simp_all
  ultimately show ?case
    using Cons.prems(2,3) by (subst scan_loop.simps)
      (simp add: d wf_batch_ParseHeader [OF b] wf_batch_TotalSize [OF b] first_at_def)
qed

lemma scanTimestamp_find: "list_all wf_batch bs \<Longrightarrow> scanTimestamp (concat bs) ts = Some (Ret (first_at ts bs))"
  using scan_loop_find [of bs "concat bs" "[]" 0 ts] by (simp add: scanTimestamp_def)

section \<open>The contents of a partition\<close>

text \<open>A partition is the batches of its references, read from the objects, followed by its pending
  batches. \<open>part_inv\<close>: the references cover the offsets from \<open>lo\<close> on without gap or overlap, the pending
  batches follow and end at \<open>n\<close>.\<close>

definition ref_bytes :: "(string \<Rightarrow> bytes option) \<Rightarrow> SegmentRef \<Rightarrow> bytes" where
  "ref_bytes obj r = (case obj (sg_Key r) of None \<Rightarrow> []
     | Some d \<Rightarrow> take (nat (sg_Length r)) (drop (nat (sg_Position r)) d))"

definition ref_batches :: "(string \<Rightarrow> bytes option) \<Rightarrow> SegmentRef \<Rightarrow> bytes list" where
  "ref_batches obj r = split_batches (ref_bytes obj r)"

definition ref_ok :: "(string \<Rightarrow> bytes option) \<Rightarrow> SegmentRef \<Rightarrow> bool" where
  "ref_ok obj r \<longleftrightarrow> (\<exists>d. obj (sg_Key r) = Some d \<and> 0 \<le> sg_Position r \<and> sg_Position r + sg_Length r \<le> int (length d)
       \<and> sg_Position r + sg_Length r < 2 ^ 63)
     \<and> sg_Length r = int (length (ref_bytes obj r)) \<and> sg_Length r < 2 ^ 31
     \<and> ref_bytes obj r = concat (ref_batches obj r) \<and> ref_batches obj r \<noteq> []
     \<and> batch_run (sg_BaseOffset r) (ref_batches obj r) (sg_NextOffset r)"

fun chain :: "int \<Rightarrow> SegmentRef list \<Rightarrow> int \<Rightarrow> bool" where
  "chain lo [] n \<longleftrightarrow> n = lo"
| "chain lo (r # rs) n \<longleftrightarrow> sg_BaseOffset r = lo \<and> chain (sg_NextOffset r) rs n"

fun tail_ok :: "int \<Rightarrow> pendingPart option \<Rightarrow> int \<Rightarrow> bool" where
  "tail_ok m None n \<longleftrightarrow> n = m"
| "tail_ok m (Some pp) n \<longleftrightarrow> pp_baseOffset pp = m \<and> pp_nextOffset pp = n \<and> pp_batches pp \<noteq> []
     \<and> batch_run m (pp_batches pp) n \<and> length (concat (pp_batches pp)) < 2 ^ 31"

fun tail_batches :: "pendingPart option \<Rightarrow> bytes list" where
  "tail_batches None = []"
| "tail_batches (Some pp) = pp_batches pp"

definition part_inv :: "(string \<Rightarrow> bytes option) \<Rightarrow> SegmentRef list \<Rightarrow> pendingPart option \<Rightarrow> int \<Rightarrow> int \<Rightarrow> bool" where
  "part_inv obj refs pend lo n \<longleftrightarrow> 0 \<le> lo \<and> n < 2 ^ 63 \<and> list_all (ref_ok obj) refs
     \<and> (\<exists>m. chain lo refs m \<and> tail_ok m pend n)"

definition contents :: "(string \<Rightarrow> bytes option) \<Rightarrow> SegmentRef list \<Rightarrow> pendingPart option \<Rightarrow> bytes list" where
  "contents obj refs pend = concat (map (ref_batches obj) refs) @ tail_batches pend"

lemma chain_append: "chain lo (rs @ qs) n \<longleftrightarrow> (\<exists>m. chain lo rs m \<and> chain m qs n)"
  by (induction rs arbitrary: lo) auto

lemma ref_ok_run:
  assumes "ref_ok obj r"
  shows "batch_run (sg_BaseOffset r) (ref_batches obj r) (sg_NextOffset r)" "sg_BaseOffset r < sg_NextOffset r"
  using assms batch_run_less [of "sg_BaseOffset r" "ref_batches obj r" "sg_NextOffset r"] by (auto simp: ref_ok_def)

lemma chain_run: "list_all (ref_ok obj) refs \<Longrightarrow> chain lo refs m \<Longrightarrow> batch_run lo (concat (map (ref_batches obj) refs)) m"
  by (induction refs arbitrary: lo) (auto simp: batch_run_append dest: ref_ok_run(1))

lemma chain_bounds:
  assumes "list_all (ref_ok obj) refs" and "chain lo refs m"
  shows "lo \<le> m" "r \<in> set refs \<Longrightarrow> lo \<le> sg_BaseOffset r \<and> sg_NextOffset r \<le> m"
proof -
  show le: "lo \<le> m" by (rule batch_run_le [OF chain_run [OF assms]])
  show "lo \<le> sg_BaseOffset r \<and> sg_NextOffset r \<le> m" if r: "r \<in> set refs"
  proof -
    from r obtain a b where "refs = a @ r # b" by (auto dest: split_list)
    with assms obtain m1 where c: "chain lo a m1" "sg_BaseOffset r = m1" "chain (sg_NextOffset r) b m"
      "list_all (ref_ok obj) a" "list_all (ref_ok obj) b" by (auto simp: chain_append)
    from batch_run_le [OF chain_run [OF c(4,1)]] batch_run_le [OF chain_run [OF c(5,3)]] c(2) show ?thesis by simp
  qed
qed

lemma chain_ranges:
  assumes "list_all (ref_ok obj) refs" and "chain lo refs m"
  shows "ranges_ok refs"
  using assms
proof (induction refs arbitrary: lo)
  case (Cons r refs)
  from Cons.prems have c: "ref_ok obj r" "list_all (ref_ok obj) refs" "chain (sg_NextOffset r) refs m" by auto
  from Cons.IH [OF c(2,3)] chain_bounds(2) [OF c(2,3)] ref_ok_run(2) [OF c(1)] show ?case by (auto simp: ranges_ok_def)
qed (simp add: ranges_ok_def)

lemma tail_run: "tail_ok m pend n \<Longrightarrow> batch_run m (tail_batches pend) n"
  by (cases pend) auto

lemma part_run: "part_inv obj refs pend lo n \<Longrightarrow> batch_run lo (contents obj refs pend) n"
  by (auto simp: part_inv_def contents_def batch_run_append dest: chain_run tail_run)

lemma part_bounds: "part_inv obj refs pend lo n \<Longrightarrow> 0 \<le> lo \<and> lo \<le> n \<and> n < 2 ^ 63"
  using batch_run_le [OF part_run, of obj refs pend lo n] by (simp add: part_inv_def)

text \<open>Reading inside the range: the pending batches or one object hold the offset.\<close>

lemma ref_ok_Get:
  assumes "object_store_ok O' obj" and "ref_ok (obj s) r"
  shows "os_Get O' s (sg_Key r) (sg_Position r) (sg_Length r) = Inr (concat (ref_batches (obj s) r))"
proof -
  from assms(2) obtain d where d: "obj s (sg_Key r) = Some d" "0 \<le> sg_Position r"
    "sg_Position r + sg_Length r \<le> int (length d)" "sg_Position r + sg_Length r < 2 ^ 63"
    unfolding ref_ok_def by blast
  have "ref_bytes (obj s) r \<noteq> []"
  proof
    assume "ref_bytes (obj s) r = []"
    then have "ref_batches (obj s) r = []" by (simp add: ref_batches_def split_batches_torn torn_def)
    with assms(2) show False by (simp add: ref_ok_def)
  qed
  then have "0 < sg_Length r" using assms(2) by (simp add: ref_ok_def)
  from object_storeD(3) [OF assms(1) d(1,2) this d(3,4)] d(1) assms(2) show ?thesis
    by (simp add: ref_ok_def ref_bytes_def)
qed

lemma read_refs:
  assumes "object_store_ok O' obj" and "list_all (ref_ok (obj s)) refs" and "chain lo refs m"
    and "0 \<le> lo" and "m < 2 ^ 63" and "lo \<le> off" and "off < m"
  shows "\<exists>r out. find (\<lambda>r. sg_BaseOffset r \<le> off \<and> off < sg_NextOffset r) refs = Some r
    \<and> (case os_Get O' s (sg_Key r) (sg_Position r) (sg_Length r) of Inl e \<Rightarrow> False
       | Inr data \<Rightarrow> sliceBatches data off maxb = Some (Ret (out, None)))
    \<and> read_post (concat (map (ref_batches (obj s)) refs)) off maxb out"
  using assms(2-7)
proof (induction refs arbitrary: lo)
  case (Cons r refs)
  then have r: "ref_ok (obj s) r" "sg_BaseOffset r = lo" "chain (sg_NextOffset r) refs m" "list_all (ref_ok (obj s)) refs"
    by auto
  have le: "sg_NextOffset r \<le> m" using chain_bounds(1) [OF r(4,3)] .
  show ?case
  proof (cases "off < sg_NextOffset r")
    case True
    have "length (concat (ref_batches (obj s) r)) < 2 ^ 31" using r(1) unfolding ref_ok_def by fastforce
    with sliceBatches_run [OF ref_ok_run(1) [OF r(1)], of off maxb] r(2) True Cons.prems le obtain out where
      out: "sliceBatches (concat (ref_batches (obj s) r)) off maxb = Some (Ret (out, None))"
      "read_post (ref_batches (obj s) r) off maxb out" by auto
    have "read_post (concat (map (ref_batches (obj s)) (r # refs))) off maxb out"
      using read_post_context [OF out(2), of "[]"] by simp
    with out(1) True r(2) Cons.prems(5) show ?thesis by (simp add: ref_ok_Get [OF assms(1) r(1)] exI [of _ out])
  next
    case False
    with Cons.IH [OF r(4,3)] Cons.prems ref_ok_run(2) [OF r(1)] r(2) obtain r' out where
      r': "find (\<lambda>r. sg_BaseOffset r \<le> off \<and> off < sg_NextOffset r) refs = Some r'"
      "case os_Get O' s (sg_Key r') (sg_Position r') (sg_Length r') of Inl e \<Rightarrow> False
       | Inr data \<Rightarrow> sliceBatches data off maxb = Some (Ret (out, None))"
      "read_post (concat (map (ref_batches (obj s)) refs)) off maxb out" by auto
    have "read_post (concat (map (ref_batches (obj s)) (r # refs))) off maxb out"
      using read_post_context [OF r'(3), of "ref_batches (obj s) r" "[]"] by simp
    with r'(1,2) False show ?thesis by (intro exI [of _ r'] exI [of _ out]) simp
  qed
qed simp

lemma st_read_ok:
  assumes "object_store_ok O' obj"
    and inv: "part_inv (obj (st_store st)) (refsFor (st_index st) t p) (fmlookup (st_pending st) (indexKey t p)) lo n"
    and "lo \<le> off" and "off < n"
  shows "\<exists>out. st_read O' st t p off maxb = Some (Ret (out, None))
    \<and> read_post (contents (obj (st_store st)) (refsFor (st_index st) t p) (fmlookup (st_pending st) (indexKey t p))) off maxb out"
proof -
  let ?refs = "refsFor (st_index st) t p" and ?pend = "fmlookup (st_pending st) (indexKey t p)" and ?o = "obj (st_store st)"
  from inv obtain m where m: "0 \<le> lo" "n < 2 ^ 63" "list_all (ref_ok ?o) ?refs" "chain lo ?refs m" "tail_ok m ?pend n"
    unfolding part_inv_def by blast
  have mn: "m \<le> n" by (rule batch_run_le [OF tail_run [OF m(5)]])
  have lom: "lo \<le> m" by (rule chain_bounds(1) [OF m(3,4)])
  show ?thesis
  proof (cases "off < m")
    case True
    with read_refs [OF assms(1) m(3,4,1), of off maxb] m(2) mn assms(3) obtain r out where
      r: "find (\<lambda>r. sg_BaseOffset r \<le> off \<and> off < sg_NextOffset r) ?refs = Some r"
      "case os_Get O' (st_store st) (sg_Key r) (sg_Position r) (sg_Length r) of Inl e \<Rightarrow> False
       | Inr data \<Rightarrow> sliceBatches data off maxb = Some (Ret (out, None))"
      "read_post (concat (map (ref_batches ?o) ?refs)) off maxb out" by auto
    have "refFor (st_index st) t p off = Some r"
      using refFor_find [OF chain_ranges [OF m(3,4)]] r(1) by simp
    moreover have "\<not> (case ?pend of None \<Rightarrow> False | Some pp \<Rightarrow> pp_baseOffset pp \<le> off)"
      using m(5) True by (cases ?pend) auto
    ultimately have "st_read O' st t p off maxb = Some (Ret (out, None))"
      using r(2) by (auto simp: st_read_def Let_def split: option.splits sum.splits)
    with read_post_context [OF r(3), of "[]" "tail_batches ?pend"] show ?thesis by (auto simp: contents_def)
  next
    case False
    with assms(4) m(5) obtain pp where pp: "?pend = Some pp" "pp_baseOffset pp = m" "pp_batches pp \<noteq> []"
      "batch_run m (pp_batches pp) n" "length (concat (pp_batches pp)) < 2 ^ 31" by (cases ?pend) auto
    from sliceBatches_run [OF pp(4), of off maxb] m(1,2) lom False assms(4) pp(5) obtain out where
      out: "sliceBatches (concat (pp_batches pp)) off maxb = Some (Ret (out, None))"
      "read_post (pp_batches pp) off maxb out" by auto
    have "concat (pp_batches pp) \<noteq> []" by (rule concat_wf_nonempty [OF batch_run_wf [OF pp(4)] pp(3)])
    then have "st_read O' st t p off maxb = Some (Ret (out, None))"
      using out(1) pp(1-3) False by (simp add: st_read_def Let_def)
    with read_post_context [OF out(2), of "concat (map (ref_batches ?o) ?refs)" "[]"] pp(1) show ?thesis
      by (auto simp: contents_def)
  qed
qed

end
