(* ===== verification/Object_Upload.thy ===== *)
theory Object_Upload
  imports Object_Storage
begin

text \<open>
  What an upload does to the partitions of a node: every partition keeps its contents, which move
  from the pending buffer to one object, and the write-ahead log shrinks to an empty segment; a
  failed upload changes nothing. The index store is any implementation of the contract \<open>index_store\<close>.
\<close>

abbreviation index_ok :: "('s \<Rightarrow> bool) \<Rightarrow> ('s \<Rightarrow> string \<Rightarrow> int \<Rightarrow> SegmentRef list) \<Rightarrow> 's IndexStore \<Rightarrow> bool" where
  "index_ok ok crefs I \<equiv> index_store ok crefs (is_Commit I) (is_Load I) (is_Prune I) (is_Referenced I)"

section \<open>The object an upload builds\<close>

abbreviation part_bytes :: "pendingPart \<Rightarrow> bytes" where
  "part_bytes pp \<equiv> concat (pp_batches pp)"

definition part_ref :: "string \<Rightarrow> int \<Rightarrow> nat \<Rightarrow> pendingPart \<Rightarrow> SegmentRef" where
  "part_ref key ms n pp =
     \<lparr>sg_Key = key, sg_BaseOffset = pp_baseOffset pp, sg_NextOffset = pp_nextOffset pp, sg_Position = int n,
      sg_Length = int (length (part_bytes pp)), sg_UploadedMs = ms\<rparr>"

fun part_refs :: "string \<Rightarrow> int \<Rightarrow> nat \<Rightarrow> pendingPart list \<Rightarrow> (string \<times> int \<times> SegmentRef) list" where
  "part_refs key ms n [] = []"
| "part_refs key ms n (pp # pps) =
     (pp_topic pp, pp_partition pp, part_ref key ms n pp) # part_refs key ms (n + length (part_bytes pp)) pps"

lemma build_eq:
  "build key ms pps (buf, cs) = (buf @ concat (map part_bytes pps), cs @ part_refs key ms (length buf) pps)"
  by (induction pps arbitrary: buf cs) (simp_all add: Let_def part_ref_def)

lemma part_refs_append:
  "part_refs key ms n (pps @ qqs) =
     part_refs key ms n pps @ part_refs key ms (n + length (concat (map part_bytes pps))) qqs"
  by (induction pps arbitrary: n) (simp_all add: add.assoc)

definition refs_of :: "string \<Rightarrow> int \<Rightarrow> (string \<times> int \<times> SegmentRef) list \<Rightarrow> SegmentRef list" where
  "refs_of t p cs = map (\<lambda>(_, _, r). r) (filter (\<lambda>(t', p', _). t' = t \<and> p' = p) cs)"

lemma refs_of_simps [simp]:
  "refs_of t p [] = []"
  "refs_of t p ((t', p', r) # cs) = (if t' = t \<and> p' = p then r # refs_of t p cs else refs_of t p cs)"
  by (simp_all add: refs_of_def)

lemma refs_of_append: "refs_of t p (cs @ ds) = refs_of t p cs @ refs_of t p ds"
  by (simp add: refs_of_def)

lemma refs_of_none: "\<forall>pp \<in> set pps. \<not> (pp_topic pp = t \<and> pp_partition pp = p) \<Longrightarrow> refs_of t p (part_refs key ms n pps) = []"
  by (induction pps arbitrary: n) auto

text \<open>Every pending part is filed under its own key.\<close>

definition pend_ok :: "pending \<Rightarrow> bool" where
  "pend_ok m \<longleftrightarrow> fmpred (\<lambda>k pp. k = indexKey (pp_topic pp) (pp_partition pp) \<and> in_i32 (pp_partition pp)) m"

lemma pend_okD:
  assumes "pend_ok m" and "fmlookup m k = Some pp"
  shows "k = indexKey (pp_topic pp) (pp_partition pp)" "in_i32 (pp_partition pp)"
  using assms by (auto simp: pend_ok_def dest: fmpredD)

abbreviation snap_parts :: "pending \<Rightarrow> pendingPart list" where
  "snap_parts m \<equiv> map (\<lambda>k. the (fmlookup m k)) (sortedKeys m)"

lemma sortedKeys_set: "set (sortedKeys m) = fset (fmdom m)" "distinct (sortedKeys m)"
  by (simp_all add: sortedKeys_def sorted_list_of_fset.rep_eq)

lemma snap_parts_mem: "pp \<in> set (snap_parts m) \<Longrightarrow> \<exists>k. fmlookup m k = Some pp"
  by (auto simp: sortedKeys_set fmdom_notD elim!: fmdomE)

lemma snap_parts_i32: "pend_ok m \<Longrightarrow> pp \<in> set (snap_parts m) \<Longrightarrow> in_i32 (pp_partition pp)"
  using snap_parts_mem pend_okD(2) by blast

text \<open>The references for one partition: none if it has nothing pending, one if it has.\<close>

lemma snap_refs_none:
  assumes "pend_ok m" and "fmlookup m (indexKey t p) = None"
  shows "refs_of t p (part_refs key ms n (snap_parts m)) = []"
proof (rule refs_of_none, safe)
  fix pp
  assume "pp \<in> set (snap_parts m)" and t: "t = pp_topic pp" "p = pp_partition pp"
  then obtain k where k: "fmlookup m k = Some pp" using snap_parts_mem by blast
  from pend_okD(1) [OF assms(1) k] k t assms(2) show False by simp
qed

lemma snap_refs_one:
  assumes "pend_ok m" and pp: "fmlookup m (indexKey t p) = Some pp" and p: "in_i32 p"
  shows "\<exists>pre post. concat (map part_bytes (snap_parts m)) = pre @ part_bytes pp @ post
    \<and> refs_of t p (part_refs key ms 0 (snap_parts m)) = [part_ref key ms (length pre) pp]"
proof -
  let ?k = "indexKey t p"
  have tp: "pp_topic pp = t \<and> pp_partition pp = p"
    using indexKey_inj [of t p "pp_topic pp" "pp_partition pp"] pend_okD [OF assms(1) pp] p by auto
  have "?k \<in> set (sortedKeys m)" using pp by (simp add: sortedKeys_set fmdomI)
  then obtain a b where ab: "sortedKeys m = a @ ?k # b" by (auto dest: split_list)
  let ?f = "\<lambda>k. the (fmlookup m k)"
  have other: "\<not> (pp_topic (?f k) = t \<and> pp_partition (?f k) = p)" if "k \<in> set (a @ b)" for k
  proof -
    have "k \<noteq> ?k" using that sortedKeys_set(2) [of m] ab by auto
    moreover from that ab have "k \<in> fset (fmdom m)" using sortedKeys_set(1) [of m] by auto
    then obtain q where "fmlookup m k = Some q" by (auto elim!: fmdomE)
    ultimately show ?thesis using pend_okD(1) [OF assms(1)] by fastforce
  qed
  have "refs_of t p (part_refs key ms 0 (map ?f (sortedKeys m))) =
      [part_ref key ms (length (concat (map part_bytes (map ?f a)))) pp]"
    unfolding ab using other tp pp by (simp add: part_refs_append refs_of_append refs_of_none)
  moreover have "concat (map part_bytes (map ?f (sortedKeys m))) =
      concat (map part_bytes (map ?f a)) @ part_bytes pp @ concat (map part_bytes (map ?f b))"
    unfolding ab using pp by simp
  ultimately show ?thesis by blast
qed

section \<open>Committing the references\<close>

lemma commit_all_ok:
  assumes "index_ok ok crefs I" and "ok (ix_store ix)" and "\<forall>(t, p, r) \<in> set cs. in_i32 p"
  shows "\<exists>ix'. commit_all I ix cs = (None, ix') \<and> ok (ix_store ix')
    \<and> (\<forall>t p. in_i32 p \<longrightarrow> refsFor ix' t p = refsFor ix t p @ refs_of t p cs
         \<and> crefs (ix_store ix') t p = crefs (ix_store ix) t p @ refs_of t p cs)"
  using assms(2,3)
proof (induction cs arbitrary: ix)
  case (Cons c cs)
  obtain t p r where c: "c = (t, p, r)" by (cases c)
  with Cons.prems have p: "in_i32 p" "\<forall>(t, p, r) \<in> set cs. in_i32 p" by auto
  from index_store.commit_law [OF assms(1) Cons.prems(1) p(1), of t r] obtain s where
    s: "is_Commit I (ix_store ix) t p r = (None, s)" "ok s"
    "\<And>t' p'. in_i32 p' \<Longrightarrow> crefs s t' p' =
       (if t' = t \<and> p' = p then crefs (ix_store ix) t p @ [r] else crefs (ix_store ix) t' p')" by blast
  define ix1 where "ix1 = ix\<lparr>ix_store := s, ix_refs := fmupd (indexKey t p) (refsFor ix t p @ [r]) (ix_refs ix)\<rparr>"
  have one: "Index_commit (is_Commit I) ix t p r = (None, ix1)"
    by (simp add: Index_commit_def s(1) Let_def ix1_def refsFor_def)
  have refs1: "refsFor ix1 t' p' = (if t' = t \<and> p' = p then refsFor ix t p @ [r] else refsFor ix t' p')" if "in_i32 p'" for t' p'
    using indexKey_inj [of t' p' t p] that p(1) by (auto simp: ix1_def refsFor_def refs_at_upd)
  have "ok (ix_store ix1)" "ix_store ix1 = s" using s(2) by (simp_all add: ix1_def)
  with Cons.IH [of ix1] p(2) obtain ix' where ix': "commit_all I ix1 cs = (None, ix')" "ok (ix_store ix')"
    "\<forall>t p. in_i32 p \<longrightarrow> refsFor ix' t p = refsFor ix1 t p @ refs_of t p cs
       \<and> crefs (ix_store ix') t p = crefs s t p @ refs_of t p cs" by auto
  then show ?case using one refs1 s(3) by (intro exI [of _ ix']) (simp add: c)
qed simp

section \<open>The pending buffer and the write-ahead log\<close>

text \<open>The buffer is a function of the records in the log: \<open>pend_of\<close> files each batch under its
  partition, in order.\<close>

definition rec_key :: "walRecord \<Rightarrow> string" where
  "rec_key rec = indexKey (wr_Topic rec) (wr_Partition rec)"

definition rec_next :: "walRecord \<Rightarrow> int" where
  "rec_next rec = i64 (LastOffset (header (wr_Batch rec)) + 1)"

definition add_rec :: "walRecord \<Rightarrow> pending \<Rightarrow> pending" where
  "add_rec rec m = fmupd (rec_key rec) (add_batch (fmlookup m (rec_key rec)) rec (rec_next rec)) m"

definition pend_of :: "walRecord list \<Rightarrow> pending" where
  "pend_of recs = fold add_rec recs fmempty"

lemma pend_of_simps [simp]: "pend_of [] = fmempty" "pend_of (recs @ [r]) = add_rec r (pend_of recs)"
  by (simp_all add: pend_of_def)

lemma pend_of_ok: "list_all rec_ok recs \<Longrightarrow> pend_ok (pend_of recs)"
proof (induction recs rule: rev_induct)
  case (snoc r recs)
  then have IH: "pend_ok (pend_of recs)" and r: "in_i32 (wr_Partition r)" by (auto simp: rec_ok_def)
  let ?m = "pend_of recs"
  have "rec_key r = indexKey (pp_topic pp) (pp_partition pp) \<and> in_i32 (pp_partition pp)"
    if "pp = add_batch (fmlookup ?m (rec_key r)) r (rec_next r)" for pp
    using that r pend_okD [OF IH, of "rec_key r"]
    by (cases "fmlookup ?m (rec_key r)") (simp_all add: add_batch_def Let_def rec_key_def)
  with IH show ?case by (simp add: pend_ok_def add_rec_def fmpred_upd)
qed (simp add: pend_ok_def)

text \<open>The part of one partition, in terms of its own records.\<close>

lemma pend_of_lookup:
  "fmlookup (pend_of recs) k =
     (let rs = filter (\<lambda>r. rec_key r = k) recs in
      if rs = [] then None
      else Some \<lparr>pp_topic = wr_Topic (hd rs), pp_partition = wr_Partition (hd rs), pp_baseOffset = wr_BaseOffset (hd rs),
                 pp_nextOffset = rec_next (last rs), pp_batches = map wr_Batch rs,
                 pp_bytes = i64 (int (length (concat (map wr_Batch rs))))\<rparr>)"
proof (induction recs rule: rev_induct)
  case (snoc r recs)
  have bytes: "i64 (i64 a + b) = i64 (a + b)" for a b by (simp add: i64_def mod_simps algebra_simps)
  show ?case
  proof (cases "rec_key r = k")
    case True
    then show ?thesis using snoc.IH by (simp add: add_rec_def add_batch_def Let_def bytes)
  next
    case False
    then show ?thesis using snoc.IH by (simp add: add_rec_def)
  qed
qed simp

definition wal_synced :: "('o, 's) Storage \<Rightarrow> segs \<Rightarrow> bool" where
  "wal_synced st segs \<longleftrightarrow> wal_inv (st_wal st) segs \<and> st_pending st = pend_of (records segs)
     \<and> list_all (\<lambda>r. wf_batch (wr_Batch r)) (records segs)"

lemma wal_inv_recs: "wal_inv w segs \<Longrightarrow> list_all rec_ok (records segs)"
  unfolding wal_inv_def using dir_invD(2) by (fastforce simp: list_all_iff)

lemma wal_synced_pend_ok: "wal_synced st segs \<Longrightarrow> pend_ok (st_pending st)"
  using pend_of_ok [OF wal_inv_recs] by (auto simp: wal_synced_def)

lemma records_abs_append: "segs \<noteq> [] \<Longrightarrow> records (abs_append segs r) = records segs @ [r]"
  by (cases segs rule: rev_cases) (simp_all add: abs_append_def)

lemma st_append_synced:
  assumes "wal_synced st segs" and "rec_ok r" and "nxt = rec_next r" and "wf_batch (wr_Batch r)"
  shows "wal_synced (st_append st r nxt) (abs_append segs r)"
proof -
  have "segs \<noteq> []" using assms(1) by (simp add: wal_synced_def wal_inv_def)
  with wal_append_inv [of "st_wal st" segs r] assms show ?thesis
    by (simp add: wal_synced_def st_append_def appendPendingLocked_def triggerUpload_def Let_def records_abs_append
        add_rec_def rec_key_def)
qed

section \<open>Moving a partition into an object\<close>

lemma ref_frame:
  assumes "obj' (sg_Key r) = obj (sg_Key r)"
  shows "ref_ok obj' r = ref_ok obj r" "ref_batches obj' r = ref_batches obj r"
proof -
  have b: "ref_bytes obj' r = ref_bytes obj r" by (simp add: ref_bytes_def assms)
  then show r: "ref_batches obj' r = ref_batches obj r" by (simp add: ref_batches_def)
  show "ref_ok obj' r = ref_ok obj r" by (simp only: ref_ok_def assms b r)
qed

lemma part_frame:
  assumes "\<forall>r \<in> set refs. obj' (sg_Key r) = obj (sg_Key r)"
  shows "list_all (ref_ok obj') refs = list_all (ref_ok obj) refs"
    and "map (ref_batches obj') refs = map (ref_batches obj) refs"
    and "part_inv obj' refs pend lo n = part_inv obj refs pend lo n"
    and "contents obj' refs pend = contents obj refs pend"
proof -
  show l: "list_all (ref_ok obj') refs = list_all (ref_ok obj) refs"
    by (rule list.pred_cong [OF refl], rule ref_frame(1), rule bspec [OF assms])
  show m: "map (ref_batches obj') refs = map (ref_batches obj) refs"
    by (rule map_cong [OF refl], rule ref_frame(2), rule bspec [OF assms])
  show "part_inv obj' refs pend lo n = part_inv obj refs pend lo n" by (simp add: part_inv_def l)
  show "contents obj' refs pend = contents obj refs pend" by (simp add: contents_def m)
qed

lemma part_ref_ok:
  assumes "obj key = Some (pre @ part_bytes pp @ post)" and "length (pre @ part_bytes pp @ post) < 2 ^ 63"
    and "tail_ok m (Some pp) n"
  shows "ref_ok obj (part_ref key ms (length pre) pp)" "ref_batches obj (part_ref key ms (length pre) pp) = pp_batches pp"
proof -
  let ?r = "part_ref key ms (length pre) pp"
  have f: "sg_Key ?r = key" "sg_BaseOffset ?r = pp_baseOffset pp" "sg_NextOffset ?r = pp_nextOffset pp"
    "sg_Position ?r = int (length pre)" "sg_Length ?r = int (length (part_bytes pp))" by (simp_all add: part_ref_def)
  have bytes: "ref_bytes obj ?r = part_bytes pp" using assms(1) by (simp add: ref_bytes_def f)
  have run: "batch_run m (pp_batches pp) n" using assms(3) by simp
  show b: "ref_batches obj ?r = pp_batches pp" using batch_run_wf [OF run] by (simp add: ref_batches_def bytes)
  have "int (length pre) + int (length (part_bytes pp)) \<le> int (length (pre @ part_bytes pp @ post))" by simp
  moreover have "int (length pre) + int (length (part_bytes pp)) < 2 ^ 63" using assms(2) by simp
  moreover have "int (length (part_bytes pp)) < 2 ^ 31" using assms(3) by simp
  ultimately show "ref_ok obj ?r"
    unfolding ref_ok_def f bytes b using assms(1,3) run by (intro conjI exI [of _ "pre @ part_bytes pp @ post"]) simp_all
qed

lemma part_move:
  assumes "part_inv obj refs (Some pp) lo n" and "\<forall>r \<in> set refs. obj' (sg_Key r) = obj (sg_Key r)"
    and "obj' key = Some (pre @ part_bytes pp @ post)" and "length (pre @ part_bytes pp @ post) < 2 ^ 63"
  shows "part_inv obj' (refs @ [part_ref key ms (length pre) pp]) None lo n"
    and "contents obj' (refs @ [part_ref key ms (length pre) pp]) None = contents obj refs (Some pp)"
proof -
  from assms(1) obtain m where m: "0 \<le> lo" "n < 2 ^ 63" "list_all (ref_ok obj) refs" "chain lo refs m" "tail_ok m (Some pp) n"
    unfolding part_inv_def by blast
  note r = part_ref_ok [of obj' key pre pp post, OF assms(3,4) m(5), of ms]
  have "chain m [part_ref key ms (length pre) pp] n" using m(5) by (simp add: part_ref_def)
  with m(4) have "chain lo (refs @ [part_ref key ms (length pre) pp]) n" by (simp only: chain_append) blast
  moreover have "list_all (ref_ok obj') (refs @ [part_ref key ms (length pre) pp])"
    using m(3) r(1) part_frame(1) [OF assms(2)] by (simp only: list_all_append list.pred_inject simp_thms)
  ultimately show "part_inv obj' (refs @ [part_ref key ms (length pre) pp]) None lo n"
    unfolding part_inv_def using m(1,2) by (intro conjI exI [of _ n]) simp_all
  show "contents obj' (refs @ [part_ref key ms (length pre) pp]) None = contents obj refs (Some pp)"
    by (simp add: contents_def r(2) part_frame(2) [OF assms(2)] del: map_eq_conv)
qed

lemma restore_empty: "st_pending st = fmempty \<Longrightarrow> st_pending (restore snap st) = snap"
proof -
  assume e: "st_pending st = fmempty"
  have "merge_part fmempty k = (\<lambda>pp. pp)" for k by (rule ext) (simp add: merge_part_def)
  with e show ?thesis by (intro fmap_ext) (simp add: restore_def Let_def option.map_ident)
qed

lemma restore_fields [simp]:
  "st_store (restore snap st) = st_store st" "st_index (restore snap st) = st_index st"
  "st_wal (restore snap st) = st_wal st" "st_cfg (restore snap st) = st_cfg st"
  by (simp_all add: restore_def Let_def)

text \<open>The states an upload can end in. \<open>snap_object\<close> is the object it writes.\<close>

definition snap_object :: "('o, 's) Storage \<Rightarrow> bytes" where
  "snap_object st = concat (map part_bytes (snap_parts (st_pending st)))"

definition upload_key :: "('o, 's) Storage \<Rightarrow> string" where
  "upload_key st = object_key (st_cfg st) (u64 (st_uploadSeq st + 1))"

lemma fmdom_empty_iff: "fmdom m = {||} \<longleftrightarrow> m = fmempty"
proof
  assume "fmdom m = {||}"
  then show "m = fmempty" by (intro fmap_ext) (simp add: fmdom_notD)
qed simp

lemma upload_empty: "st_pending st = fmempty \<Longrightarrow> upload O' I syncErr ms st = (None, st)"
  by (simp add: upload_def upload_snapshot_def)

lemma upload_eq:
  assumes "st_pending st \<noteq> fmempty"
    and st1: "st1 = st\<lparr>st_pending := fmempty, st_pendingBytes := 0, st_uploadSeq := u64 (st_uploadSeq st + 1)\<rparr>"
    and rot: "wal_rotate (st_wal st) = (sealed, w)"
    and put: "os_Put O' (st_store st) (upload_key st) (snap_object st) = (pe, s)"
    and com: "commit_all I (st_index st) (part_refs (upload_key st) ms 0 (snap_parts (st_pending st))) = (None, ix)"
  shows "upload O' I syncErr ms st =
    (case syncErr of Some e \<Rightarrow> (Some e, restore (st_pending st) st1)
     | None \<Rightarrow>
         (case pe of Some e \<Rightarrow> (Some e, restore (st_pending st) (st1\<lparr>st_wal := w, st_store := s\<rparr>))
          | None \<Rightarrow> (None, st1\<lparr>st_store := s, st_index := ix, st_wal := deleteThrough w sealed\<rparr>)))"
proof -
  have snap: "upload_snapshot st = Some (st_pending st, u64 (st_uploadSeq st + 1), st1)"
    using assms(1) by (simp add: upload_snapshot_def fmdom_empty_iff st1 Let_def)
  have f: "st_cfg st1 = st_cfg st" "st_wal st1 = st_wal st" "st_store st1 = st_store st" "st_index st1 = st_index st"
    by (simp_all add: st1)
  have fin: "upload_finish O' I ms (st_pending st) (u64 (st_uploadSeq st + 1)) sealed (st1\<lparr>st_wal := w\<rparr>) =
      (case pe of Some e \<Rightarrow> (Some e, restore (st_pending st) (st1\<lparr>st_wal := w, st_store := s\<rparr>))
       | None \<Rightarrow> (None, st1\<lparr>st_store := s, st_index := ix, st_wal := deleteThrough w sealed\<rparr>))"
    using put com by (cases pe) (simp_all add: upload_finish_def Let_def build_eq f upload_key_def snap_object_def)
  show ?thesis
    by (cases syncErr) (simp_all add: upload_def snap upload_rotate_def f rot fin)
qed

lemma upload_cases:
  assumes up: "upload O' I syncErr ms st = (e, st')" and ne: "st_pending st \<noteq> fmempty"
    and ok: "index_ok ok crefs I" "ok (ix_store (st_index st))" "pend_ok (st_pending st)"
  obtains
    (sync) err where "syncErr = Some err" "e = Some err" "st_pending st' = st_pending st"
      "st_store st' = st_store st" "st_index st' = st_index st" "st_wal st' = st_wal st"
  | (put) err where "syncErr = None" "e = Some err" "st_pending st' = st_pending st"
      "os_Put O' (st_store st) (upload_key st) (snap_object st) = (Some err, st_store st')"
      "st_index st' = st_index st" "st_wal st' = snd (wal_rotate (st_wal st))"
  | (finished) "syncErr = None" "e = None" "st_pending st' = fmempty"
      "os_Put O' (st_store st) (upload_key st) (snap_object st) = (None, st_store st')"
      "st_wal st' = deleteThrough (snd (wal_rotate (st_wal st))) (fst (wal_rotate (st_wal st)))"
      "ok (ix_store (st_index st'))"
      "\<And>t p. in_i32 p \<Longrightarrow> refsFor (st_index st') t p = refsFor (st_index st) t p
         @ refs_of t p (part_refs (upload_key st) ms 0 (snap_parts (st_pending st)))
       \<and> crefs (ix_store (st_index st')) t p = crefs (ix_store (st_index st)) t p
         @ refs_of t p (part_refs (upload_key st) ms 0 (snap_parts (st_pending st)))"
proof -
  let ?cs = "part_refs (upload_key st) ms 0 (snap_parts (st_pending st))"
  have "\<forall>(t, p, r) \<in> set (part_refs k ms n pps). in_i32 p" if "\<forall>pp \<in> set pps. in_i32 (pp_partition pp)" for k n pps
    using that by (induction pps arbitrary: n) auto
  then have i32: "\<forall>(t, p, r) \<in> set ?cs. in_i32 p" using snap_parts_i32 [OF ok(3)] by blast
  from commit_all_ok [OF ok(1,2) i32] obtain ix' where ix': "commit_all I (st_index st) ?cs = (None, ix')"
    "ok (ix_store ix')" "\<And>t p. in_i32 p \<Longrightarrow> refsFor ix' t p = refsFor (st_index st) t p @ refs_of t p ?cs
         \<and> crefs (ix_store ix') t p = crefs (ix_store (st_index st)) t p @ refs_of t p ?cs" by blast
  obtain sealed w where rot: "wal_rotate (st_wal st) = (sealed, w)" by fastforce
  obtain pe s where p: "os_Put O' (st_store st) (upload_key st) (snap_object st) = (pe, s)" by fastforce
  note res = up [unfolded upload_eq [OF ne refl rot p ix'(1), of syncErr], symmetric]
  show thesis
  proof (cases syncErr)
    case (Some err)
    with res show thesis by (intro sync [of err]) (simp_all add: restore_empty)
  next
    case None
    note n = None
    show thesis
    proof (cases pe)
      case (Some err)
      with res n p show thesis by (intro put [of err]) (simp_all add: restore_empty rot)
    next
      case None
      with res n p ix' show thesis by (intro finished) (simp_all add: rot)
    qed
  qed
qed

section \<open>Uploads keep every partition\<close>

definition st_inv :: "('o \<Rightarrow> string \<Rightarrow> bytes option) \<Rightarrow> ('o, 's) Storage \<Rightarrow> string \<Rightarrow> int \<Rightarrow> int \<Rightarrow> int \<Rightarrow> bool" where
  "st_inv obj st t p lo n \<longleftrightarrow>
     part_inv (obj (st_store st)) (refsFor (st_index st) t p) (fmlookup (st_pending st) (indexKey t p)) lo n"

definition st_contents :: "('o \<Rightarrow> string \<Rightarrow> bytes option) \<Rightarrow> ('o, 's) Storage \<Rightarrow> string \<Rightarrow> int \<Rightarrow> bytes list" where
  "st_contents obj st t p =
     contents (obj (st_store st)) (refsFor (st_index st) t p) (fmlookup (st_pending st) (indexKey t p))"

definition key_fresh :: "('o, 's) Storage \<Rightarrow> string \<Rightarrow> int \<Rightarrow> bool" where
  "key_fresh st t p \<longleftrightarrow> (\<forall>r \<in> set (refsFor (st_index st) t p). sg_Key r \<noteq> upload_key st)"

lemma wal_trim:
  assumes "wal_inv w segs" and "seq_ok (wl_activeSeq w + 1)"
  shows "wal_inv (deleteThrough (snd (wal_rotate w)) (fst (wal_rotate w))) [(wl_activeSeq w + 1, [])]"
proof -
  let ?a = "wl_activeSeq w"
  note rot = wal_rotate_inv [OF assms]
  have act: "wl_activeSeq (snd (wal_rotate w)) = ?a + 1" using rot(2) by (simp add: wal_inv_def)
  have fst: "fst (wal_rotate w) = ?a" by (metis rot(1) fst_conv)
  from deleteThrough_inv [OF rot(2), of ?a] act
  have "wal_inv (deleteThrough (snd (wal_rotate w)) ?a) (filter (\<lambda>(sq, _). sq > ?a) (segs @ [(?a + 1, [])]))" by simp
  moreover have "filter (\<lambda>(sq, _). sq > ?a) segs = []"
  proof -
    obtain pre recs where w: "segs = pre @ [(?a, recs)]" "dir_inv (wl_dir w) (pre @ [(?a, recs)])"
      using wal_inv_split [OF assms(1)] by metis
    then show ?thesis by (fastforce simp: dir_inv_def sorted_wrt_append filter_empty_conv)
  qed
  ultimately show ?thesis by (simp add: fst)
qed

text \<open>The part of a partition a finished upload leaves.\<close>

lemma upload_part:
  assumes os: "object_store_ok O' obj"
    and put: "os_Put O' (st_store st) (upload_key st) (snap_object st) = (None, st_store st')"
    and "st_pending st' = fmempty" and pend: "pend_ok (st_pending st)" and p: "in_i32 p"
    and refs: "refsFor (st_index st') t p = refsFor (st_index st) t p
       @ refs_of t p (part_refs (upload_key st) ms 0 (snap_parts (st_pending st)))"
    and size: "length (snap_object st) < 2 ^ 63" and inv: "st_inv obj st t p lo n" and fresh: "key_fresh st t p"
  shows "st_inv obj st' t p lo n \<and> st_contents obj st' t p = st_contents obj st t p"
proof -
  let ?refs = "refsFor (st_index st) t p" and ?k = "indexKey t p"
  have same: "\<forall>r \<in> set ?refs. obj (st_store st') (sg_Key r) = obj (st_store st) (sg_Key r)"
    using object_storeD(2) [OF os put] fresh by (auto simp: key_fresh_def)
  show ?thesis
  proof (cases "fmlookup (st_pending st) ?k")
    case None
    with inv part_frame(3,4) [OF same] show ?thesis
      by (simp add: st_inv_def st_contents_def assms(3) refs snap_refs_none [OF pend])
  next
    case (Some pp)
    from snap_refs_one [OF pend Some p, of "upload_key st" ms] obtain pre post where
      pre: "snap_object st = pre @ part_bytes pp @ post"
      "refs_of t p (part_refs (upload_key st) ms 0 (snap_parts (st_pending st))) = [part_ref (upload_key st) ms (length pre) pp]"
      unfolding snap_object_def by blast
    have obj': "obj (st_store st') (upload_key st) = Some (pre @ part_bytes pp @ post)"
      using object_storeD(1) [OF os put] by (simp only: pre(1))
    have "part_inv (obj (st_store st)) ?refs (Some pp) lo n" using inv Some by (simp add: st_inv_def)
    note mv = part_move [OF this same obj' size [unfolded pre(1)], of ms]
    then show ?thesis by (simp add: st_inv_def st_contents_def assms(3) refs pre(2) Some)
  qed
qed

text \<open>An upload keeps every partition, whether it succeeds or fails.\<close>

lemma st_inv_upload:
  assumes "object_store_ok O' obj" and "index_ok ok crefs I" and "ok (ix_store (st_index st))"
    and "wal_synced st segs" and "seq_ok (wl_activeSeq (st_wal st) + 1)" and "length (snap_object st) < 2 ^ 63"
    and "in_i32 p" and "st_inv obj st t p lo n" and "key_fresh st t p"
    and "upload O' I syncErr ms st = (e, st')"
  shows "st_inv obj st' t p lo n \<and> st_contents obj st' t p = st_contents obj st t p \<and> ok (ix_store (st_index st'))
    \<and> (\<exists>segs'. wal_synced st' segs' \<and> records segs' = (if e = None then [] else records segs))"
proof (cases "st_pending st = fmempty")
  case True
  have "records segs = []"
  proof (rule ccontr)
    assume "records segs \<noteq> []"
    then obtain r where "r \<in> set (records segs)" by (meson last_in_set)
    then have "fmlookup (pend_of (records segs)) (rec_key r) \<noteq> None" by (auto simp: pend_of_lookup Let_def filter_empty_conv)
    with assms(4) True show False by (simp add: wal_synced_def)
  qed
  with True assms show ?thesis by (auto simp: upload_empty)
next
  case False
  have w: "wal_inv (st_wal st) segs" using assms(4) by (simp add: wal_synced_def)
  from assms(10) False assms(2,3) wal_synced_pend_ok [OF assms(4)] show ?thesis
  proof (cases rule: upload_cases)
    case (sync err)
    then have "wal_synced st' segs" using assms(4) by (simp add: wal_synced_def)
    then have "\<exists>segs'. wal_synced st' segs' \<and> records segs' = (if e = None then [] else records segs)" using sync(2) by auto
    with sync assms(3,8) show ?thesis by (simp add: st_inv_def st_contents_def)
  next
    case (put err)
    have same: "\<forall>r \<in> set (refsFor (st_index st) t p). obj (st_store st') (sg_Key r) = obj (st_store st) (sg_Key r)"
      using object_storeD(2) [OF assms(1) put(4)] assms(9) by (auto simp: key_fresh_def)
    have "wal_synced st' (segs @ [(wl_activeSeq (st_wal st) + 1, [])])"
      using wal_rotate_inv(2) [OF w assms(5)] assms(4) put(3,6) by (simp add: wal_synced_def)
    then have "\<exists>segs'. wal_synced st' segs' \<and> records segs' = (if e = None then [] else records segs)" using put(2) by auto
    with part_frame(3,4) [OF same] put(3,5) assms(3,8) show ?thesis by (simp add: st_inv_def st_contents_def)
  next
    case finished
    have "wal_synced st' [(wl_activeSeq (st_wal st) + 1, [])]"
      using wal_trim [OF w assms(5)] finished(3,5) by (simp add: wal_synced_def)
    then have "\<exists>segs'. wal_synced st' segs' \<and> records segs' = (if e = None then [] else records segs)" using finished(2) by auto
    with upload_part [OF assms(1) finished(4,3) wal_synced_pend_ok [OF assms(4)] assms(7) _ assms(6,8,9)] finished(6,7) assms(7)
    show ?thesis by blast
  qed
qed

end
