(* ===== verification/Object_Log.thy ===== *)
theory Object_Log
  imports Object_Upload
begin

text \<open>
  \<open>internal/storage/object/log.go\<close> and \<open>Storage.Log\<close>: the handle of one partition over the node storage.
  A handle holds the offsets of the partition; the operations act on the handle and the storage.
  The handle implements the contract \<open>partition_backend\<close> of the file log, and a node that restarts
  recovers every partition from the index and the write-ahead log.
\<close>

record ObjectLog =
  ol_topic :: string
  ol_partition :: int
  ol_nextOffset :: int
  ol_highWatermark :: int
  ol_holdHWM :: bool
  ol_earliest :: int

type_synonym ('o, 's) olog = "ObjectLog \<times> ('o, 's) Storage"

definition Storage_Log :: "'s IndexStore \<Rightarrow> ('o, 's) Storage \<Rightarrow> string \<Rightarrow> int \<Rightarrow> goerror + ('o, 's) olog" where
  "Storage_Log I st topic p =
     (case Index_load (is_Load I) (st_index st) topic p of
        (Some e, ix) \<Rightarrow> Inl e
      | (None, ix) \<Rightarrow>
          let k = indexKey topic p;
              nxt0 = (case Index_latest ix topic p of Some l \<Rightarrow> l | None \<Rightarrow> 0);
              nxt = (case fmlookup (st_recNext st) k of Some r \<Rightarrow> (if r > nxt0 then r else nxt0) | None \<Rightarrow> nxt0);
              earliest = (case Index_earliest ix topic p of Some e \<Rightarrow> e
                          | None \<Rightarrow> (case fmlookup (st_recBase st) k of Some b \<Rightarrow> b | None \<Rightarrow> nxt))
          in Inr (\<lparr>ol_topic = topic, ol_partition = p, ol_nextOffset = nxt, ol_highWatermark = nxt,
                   ol_holdHWM = False, ol_earliest = earliest\<rparr>, st\<lparr>st_index := ix\<rparr>))"

definition ol_record :: "ObjectLog \<Rightarrow> int \<Rightarrow> bytes \<Rightarrow> walRecord" where
  "ol_record l base b = \<lparr>wr_Topic = ol_topic l, wr_Partition = ol_partition l, wr_BaseOffset = base, wr_Batch = b\<rparr>"

definition ObjectLog_Append :: "('o, 's) olog \<Rightarrow> bytes \<Rightarrow> (int \<times> goerror option \<times> ('o, 's) olog) go" where
  "ObjectLog_Append = (\<lambda>(l, st) batch0.
     (let base = ol_nextOffset l in
      go_bind (go_bind (SetBaseOffset batch0 base) RecomputeCRC) (\<lambda>batch.
      case ParseHeader batch of
        (h, Some e) \<Rightarrow> Ret (0, Some e, (l, st))
      | (h, None) \<Rightarrow>
          let nxt = i64 (LastOffset h + 1);
              st' = st_append st (ol_record l base batch) nxt;
              l1 = l\<lparr>ol_nextOffset := nxt\<rparr>;
              l2 = (if \<not> ol_holdHWM l1 then l1\<lparr>ol_highWatermark := nxt\<rparr> else l1)
          in Ret (base, None, (l2, st')))))"

definition ObjectLog_HighWatermark :: "('o, 's) olog \<Rightarrow> int" where
  "ObjectLog_HighWatermark = (\<lambda>(l, st). ol_highWatermark l)"

definition ObjectLog_SetHighWatermark :: "('o, 's) olog \<Rightarrow> int \<Rightarrow> ('o, 's) olog" where
  "ObjectLog_SetHighWatermark = (\<lambda>(l, st) hwm0.
     (let hwm = (if hwm0 > ol_nextOffset l then ol_nextOffset l else hwm0)
      in if hwm > ol_highWatermark l then (l\<lparr>ol_highWatermark := hwm\<rparr>, st) else (l, st)))"

definition ObjectLog_HoldHighWatermark :: "('o, 's) olog \<Rightarrow> ('o, 's) olog" where
  "ObjectLog_HoldHighWatermark = (\<lambda>(l, st). (l\<lparr>ol_holdHWM := True\<rparr>, st))"

definition ObjectLog_EarliestOffset :: "('o, 's) olog \<Rightarrow> int" where
  "ObjectLog_EarliestOffset = (\<lambda>(l, st). ol_earliest l)"

definition ObjectLog_LatestOffset :: "('o, 's) olog \<Rightarrow> int" where
  "ObjectLog_LatestOffset = (\<lambda>(l, st). ol_nextOffset l)"

definition ObjectLog_Read :: "'o ObjectStore \<Rightarrow> ('o, 's) olog \<Rightarrow> int \<Rightarrow> int \<Rightarrow> (bytes \<times> goerror option) go option" where
  "ObjectLog_Read O' = (\<lambda>(l, st) offset maxBytes.
     (if offset = ol_nextOffset l then Some (Ret ([], None))
      else if offset > ol_nextOffset l \<or> offset < ol_earliest l then Some (Ret ([], Some ErrOffsetOutOfRange))
      else st_read O' st (ol_topic l) (ol_partition l) offset maxBytes))"

definition ObjectLog_OffsetForTimestamp :: "'o ObjectStore \<Rightarrow> ('o, 's) olog \<Rightarrow> int \<Rightarrow> (int \<times> bool) go option" where
  "ObjectLog_OffsetForTimestamp O' = (\<lambda>(l, st) ts. st_offsetForTimestamp O' st (ol_topic l) (ol_partition l) ts)"

definition ObjectLog_AppendReplica :: "('o, 's) olog \<Rightarrow> bytes \<Rightarrow> int \<times> goerror option \<times> ('o, 's) olog" where
  "ObjectLog_AppendReplica = (\<lambda>(l, st) batch.
     (case ParseHeader batch of
        (h, Some e) \<Rightarrow> (0, Some e, (l, st))
      | (h, None) \<Rightarrow>
          if BaseOffset h < ol_nextOffset l then (ol_nextOffset l, None, (l, st))
          else if BaseOffset h > ol_nextOffset l then
            (ol_nextOffset l, Some (ErrReplicaGap (BaseOffset h) (ol_nextOffset l)), (l, st))
          else
            let nxt = i64 (LastOffset h + 1);
                st' = st_append st (ol_record l (BaseOffset h) batch) nxt
            in (nxt, None, (l\<lparr>ol_nextOffset := nxt\<rparr>, st'))))"

definition ObjectLog_Size :: "('o, 's) olog \<Rightarrow> int" where
  "ObjectLog_Size = (\<lambda>(l, st). st_size st (ol_topic l) (ol_partition l))"

definition ObjectLog_EnforceRetention :: "'o ObjectStore \<Rightarrow> 's IndexStore \<Rightarrow> ('o, 's) olog \<Rightarrow> int \<Rightarrow> int \<Rightarrow> int
    \<Rightarrow> goerror option \<times> ('o, 's) olog" where
  "ObjectLog_EnforceRetention O' I = (\<lambda>(l, st) nowMs maxAgeMs maxBytes.
     (case st_enforceRetention O' I st (ol_topic l) (ol_partition l) nowMs maxAgeMs maxBytes of
        (Inl e, st') \<Rightarrow> (Some e, (l, st'))
      | (Inr (newEarliest, changed), st') \<Rightarrow>
          (None, (if changed \<and> newEarliest > ol_earliest l then l\<lparr>ol_earliest := newEarliest\<rparr> else l, st'))))"

section \<open>The invariant and the appends\<close>

definition olog_inv :: "('o \<Rightarrow> string \<Rightarrow> bytes option) \<Rightarrow> ('o, 's) olog \<Rightarrow> bool" where
  "olog_inv obj = (\<lambda>(l, st). st_inv obj st (ol_topic l) (ol_partition l) (ol_earliest l) (ol_nextOffset l)
     \<and> 0 \<le> ol_highWatermark l \<and> ol_highWatermark l \<le> ol_nextOffset l)"

definition olog_batches :: "('o \<Rightarrow> string \<Rightarrow> bytes option) \<Rightarrow> ('o, 's) olog \<Rightarrow> bytes list" where
  "olog_batches obj = (\<lambda>(l, st). st_contents obj st (ol_topic l) (ol_partition l))"

text \<open>What an append needs: the offsets and the pending bytes of the partition stay in range.\<close>

definition olog_fits :: "('o, 's) olog \<Rightarrow> bytes \<Rightarrow> bool" where
  "olog_fits = (\<lambda>(l, st) b. ol_nextOffset l + span b < 2 ^ 63
     \<and> length (concat (tail_batches (fmlookup (st_pending st) (indexKey (ol_topic l) (ol_partition l))))) + length b < 2 ^ 31)"

lemma st_append_fields [simp]:
  "st_store (st_append st r nxt) = st_store st" "st_index (st_append st r nxt) = st_index st"
  "st_pending (st_append st r nxt) = fmupd (rec_key r) (add_batch (fmlookup (st_pending st) (rec_key r)) r nxt) (st_pending st)"
  by (simp_all add: st_append_def appendPendingLocked_def triggerUpload_def Let_def rec_key_def)

lemma append_part:
  assumes inv: "st_inv obj st t p lo n" and b: "wf_records b" "BaseOffset (header b) = n" and fits: "n + span b < 2 ^ 63"
    "length (concat (tail_batches (fmlookup (st_pending st) (indexKey t p)))) + length b < 2 ^ 31"
    and r: "r = \<lparr>wr_Topic = t, wr_Partition = p, wr_BaseOffset = n, wr_Batch = b\<rparr>"
  shows "st_inv obj (st_append st r (n + span b)) t p lo (n + span b)"
    and "st_contents obj (st_append st r (n + span b)) t p = st_contents obj st t p @ [b]"
proof -
  let ?k = "indexKey t p" and ?n = "n + span b"
  let ?pp = "add_batch (fmlookup (st_pending st) ?k) r ?n"
  have pend: "fmlookup (st_pending (st_append st r ?n)) ?k = Some ?pp" by (simp add: r rec_key_def)
  have bs: "pp_batches ?pp = tail_batches (fmlookup (st_pending st) ?k) @ [b]"
    by (cases "fmlookup (st_pending st) ?k") (simp_all add: add_batch_def Let_def r)
  from inv obtain m where m: "0 \<le> lo" "list_all (ref_ok (obj (st_store st))) (refsFor (st_index st) t p)"
    "chain lo (refsFor (st_index st) t p) m" "tail_ok m (fmlookup (st_pending st) ?k) n"
    unfolding st_inv_def part_inv_def by blast
  have "batch_run m (tail_batches (fmlookup (st_pending st) ?k) @ [b]) ?n"
    using tail_run [OF m(4)] b by (auto simp: batch_run_append)
  moreover have "pp_baseOffset ?pp = m \<and> pp_nextOffset ?pp = ?n"
    using m(4) by (cases "fmlookup (st_pending st) ?k") (simp_all add: add_batch_def Let_def r)
  ultimately have "tail_ok m (Some ?pp) ?n" using fits(2) by (simp add: bs)
  with m fits(1) show "st_inv obj (st_append st r ?n) t p lo ?n"
    unfolding st_inv_def part_inv_def pend by (auto simp del: st_append_fields(3))
  show "st_contents obj (st_append st r ?n) t p = st_contents obj st t p @ [b]"
    unfolding st_contents_def contents_def pend by (simp add: bs del: st_append_fields(3))
qed

lemma Append_olog:
  assumes inv: "olog_inv obj (l, st)" and b: "wf_records b" and fits: "olog_fits (l, st) b"
  shows "\<exists>l' st'. ObjectLog_Append (l, st) b = Ret (ol_nextOffset l, None, (l', st')) \<and> olog_inv obj (l', st')
    \<and> olog_batches obj (l', st') = olog_batches obj (l, st) @ [patched b (ol_nextOffset l)]
    \<and> ol_nextOffset l' = ol_nextOffset l + span b \<and> ol_earliest l' = ol_earliest l \<and> ol_topic l' = ol_topic l
    \<and> ol_partition l' = ol_partition l
    \<and> st' = st_append st (ol_record l (ol_nextOffset l) (patched b (ol_nextOffset l))) (ol_nextOffset l')"
proof -
  let ?n = "ol_nextOffset l"
  note pb = wf_records_patched [OF b, of ?n]
  have si: "st_inv obj st (ol_topic l) (ol_partition l) (ol_earliest l) ?n" using inv by (simp add: olog_inv_def)
  have n0: "0 \<le> ?n" using part_bounds [OF si [unfolded st_inv_def]] by simp
  have lt: "?n + span b < 2 ^ 63" using fits by (simp add: olog_fits_def)
  have len: "HeaderSize \<le> length b" by (rule wf_batch_size [OF wf_records_batch [OF b]])
  have base: "BaseOffset (header (patched b ?n)) = ?n"
    using n0 lt span_pos [OF b] by (simp add: header_patched [OF len] i64_id in_i64_def)
  have last: "LastOffset (header (patched b ?n)) = ?n + span b - 1"
    using LastOffset_run [OF pb(1) base n0] lt by (simp add: pb(2))
  have nxt: "i64 (?n + span b) = ?n + span b" using n0 lt span_pos [OF b] by (simp add: i64_id in_i64_def)
  obtain h where h: "ParseHeader (patched b ?n) = (h, None)"
    using wf_batch_ParseHeader [OF wf_records_batch [OF pb(1)], of "[]"] by simp
  with last have last_h: "LastOffset h = ?n + span b - 1" by simp
  define r where "r = ol_record l ?n (patched b ?n)"
  define l' where "l' = (if ol_holdHWM l then l\<lparr>ol_nextOffset := ?n + span b\<rparr>
    else l\<lparr>ol_nextOffset := ?n + span b, ol_highWatermark := ?n + span b\<rparr>)"
  have app: "ObjectLog_Append (l, st) b = Ret (?n, None, (l', st_append st r (?n + span b)))"
    using patch_eq [OF len, of ?n] by (simp add: ObjectLog_Append_def patch_def Let_def h last_h nxt r_def l'_def)
  have l': "ol_nextOffset l' = ?n + span b" "ol_earliest l' = ol_earliest l" "ol_topic l' = ol_topic l"
    "ol_partition l' = ol_partition l" by (simp_all add: l'_def)
  have fits': "?n + span (patched b ?n) < 2 ^ 63"
    "length (concat (tail_batches (fmlookup (st_pending st) (indexKey (ol_topic l) (ol_partition l))))) + length (patched b ?n) < 2 ^ 31"
    using fits pb(2,3) by (simp_all add: olog_fits_def)
  note ap = append_part [OF si pb(1) base fits' refl, folded ol_record_def, folded r_def, unfolded pb(2)]
  have "0 \<le> ol_highWatermark l' \<and> ol_highWatermark l' \<le> ol_nextOffset l'"
    using inv n0 span_pos [OF b] by (auto simp: l'_def olog_inv_def)
  with ap(1) have "olog_inv obj (l', st_append st r (?n + span b))" by (simp add: olog_inv_def l')
  moreover have "olog_batches obj (l', st_append st r (?n + span b)) = olog_batches obj (l, st) @ [patched b ?n]"
    using ap(2) by (simp add: olog_batches_def l')
  ultimately show ?thesis
    using app l' by (intro exI [of _ l'] exI [of _ "st_append st r (?n + span b)"]) (simp only: r_def simp_thms)
qed

section \<open>The backend contract\<close>

locale object_env =
  fixes O' :: "'o ObjectStore" and obj :: "'o \<Rightarrow> string \<Rightarrow> bytes option"
  assumes store_law: "object_store_ok O' obj"

lemma olog_bounds: "olog_inv obj (l, st) \<Longrightarrow> 0 \<le> ol_earliest l \<and> ol_earliest l \<le> ol_nextOffset l \<and> ol_nextOffset l < 2 ^ 63"
  using part_bounds by (fastforce simp: olog_inv_def st_inv_def)

lemma olog_below:
  assumes "olog_inv obj (l, st)" and "b \<in> set (olog_batches obj (l, st))"
  shows "LastOffset (header b) < ol_nextOffset l"
proof -
  from assms(1) have "part_inv (obj (st_store st)) (refsFor (st_index st) (ol_topic l) (ol_partition l))
      (fmlookup (st_pending st) (indexKey (ol_topic l) (ol_partition l))) (ol_earliest l) (ol_nextOffset l)"
    by (simp add: olog_inv_def st_inv_def)
  from batch_run_LastOffset [OF part_run [OF this], of b] olog_bounds [OF assms(1)] assms(2) show ?thesis
    by (simp add: olog_batches_def st_contents_def)
qed

sublocale object_env \<subseteq> olog: partition_backend "olog_inv obj" "olog_batches obj" ObjectLog_EarliestOffset
  ObjectLog_LatestOffset ObjectLog_HighWatermark "\<lambda>l b. wf_records b \<and> olog_fits l b"
  "ObjectLog_Append :: ('o, 's) olog \<Rightarrow> _" "ObjectLog_Read O'" ObjectLog_SetHighWatermark
proof unfold_locales
  fix ls :: "('o, 's) olog" and b
  obtain l st where ls: "ls = (l, st)" by (cases ls)
  assume "olog_inv obj ls" "wf_records b \<and> olog_fits ls b"
  then show "\<exists>l'. ObjectLog_Append ls b = Ret (ObjectLog_LatestOffset ls, None, l') \<and> olog_inv obj l'
      \<and> olog_batches obj l' = olog_batches obj ls @ [patched b (ObjectLog_LatestOffset ls)]
      \<and> ObjectLog_LatestOffset ls < ObjectLog_LatestOffset l'"
    using Append_olog [of obj l st b] span_pos [of b] unfolding ls ObjectLog_LatestOffset_def by fastforce
next
  fix ls :: "('o, 's) olog" and off maxb
  obtain l st where ls: "ls = (l, st)" by (cases ls)
  assume "olog_inv obj ls" "ObjectLog_EarliestOffset ls \<le> off" "off < ObjectLog_LatestOffset ls"
  then show "\<exists>out. ObjectLog_Read O' ls off maxb = Some (Ret (out, None)) \<and> read_post (olog_batches obj ls) off maxb out"
    using st_read_ok [OF store_law, of st "ol_topic l" "ol_partition l" "ol_earliest l" "ol_nextOffset l" off maxb] unfolding ls
    by (simp add: ObjectLog_Read_def olog_inv_def olog_batches_def st_inv_def st_contents_def
        ObjectLog_EarliestOffset_def ObjectLog_LatestOffset_def)
next
  fix ls :: "('o, 's) olog" and b off l'
  obtain l st where ls: "ls = (l, st)" by (cases ls)
  assume "olog_inv obj ls" "wf_records b \<and> olog_fits ls b" "ObjectLog_Append ls b = Ret (off, None, l')"
  then show "ObjectLog_EarliestOffset l' = ObjectLog_EarliestOffset ls"
    using Append_olog [of obj l st b] unfolding ls ObjectLog_EarliestOffset_def by fastforce
next
  fix ls :: "('o, 's) olog" and h
  assume "olog_inv obj ls"
  then show "olog_inv obj (ObjectLog_SetHighWatermark ls h) \<and> olog_batches obj (ObjectLog_SetHighWatermark ls h) = olog_batches obj ls
      \<and> ObjectLog_HighWatermark (ObjectLog_SetHighWatermark ls h) = max (ObjectLog_HighWatermark ls) (min h (ObjectLog_LatestOffset ls))"
    by (cases ls) (auto simp: ObjectLog_SetHighWatermark_def ObjectLog_HighWatermark_def ObjectLog_LatestOffset_def
        olog_inv_def olog_batches_def Let_def)
next
  fix ls :: "('o, 's) olog" and b
  assume "olog_inv obj ls" "b \<in> set (olog_batches obj ls)"
  then show "LastOffset (header b) < ObjectLog_LatestOffset ls"
    using olog_below by (cases ls) (auto simp: ObjectLog_LatestOffset_def)
next
  fix ls :: "('o, 's) olog"
  assume "olog_inv obj ls"
  then show "ObjectLog_EarliestOffset ls \<le> ObjectLog_LatestOffset ls"
    using olog_bounds by (cases ls) (fastforce simp: ObjectLog_EarliestOffset_def ObjectLog_LatestOffset_def)
next
  fix ls :: "('o, 's) olog"
  assume "olog_inv obj ls"
  then show "ObjectLog_HighWatermark ls \<le> ObjectLog_LatestOffset ls"
    by (cases ls) (simp add: ObjectLog_HighWatermark_def ObjectLog_LatestOffset_def olog_inv_def)
qed

context object_env
begin

text \<open>What an append acknowledged at an offset is read there, in any later state of the storage that keeps
  the contents of the partition.\<close>

lemma read_appended:
  assumes "olog_inv obj (l, st)" and "wf_records b" and "olog_fits (l, st) b"
    and "ObjectLog_Append (l, st) b = Ret (off, None, (l1, st1))"
    and "olog_inv obj (l1, st2)" and "olog_batches obj (l1, st2) = olog_batches obj (l1, st1)"
  shows "ObjectLog_Read O' (l1, st2) off maxb = Some (Ret (patched b off, None))"
proof -
  from Append_olog [OF assms(1-3)] assms(4) have a: "off = ol_nextOffset l" "ol_nextOffset l1 = ol_nextOffset l + span b"
    "ol_earliest l1 = ol_earliest l" "olog_batches obj (l1, st1) = olog_batches obj (l, st) @ [patched b off]" by auto
  with olog.read_last [OF assms(5), of "olog_batches obj (l, st)" "patched b off" off maxb] assms(6)
    olog.below [OF assms(1)] olog_bounds [OF assms(1)] span_pos [OF assms(2)]
  show ?thesis by (simp add: ObjectLog_LatestOffset_def ObjectLog_EarliestOffset_def)
qed

end

interpretation minio_env: object_env map_store map_obj
  by unfold_locales (rule map_store_ok)

end
