(* ===== verification/Object_Recovery.thy ===== *)
theory Object_Recovery
  imports Object_Log
begin

text \<open>
  The object backend as a whole: what was appended is read back after an upload, and a node that
  restarts, possibly after a crash that tore the end of its write-ahead log, opens every partition
  with its uploaded batches followed by the whole batches of the log. The theory ends with runs of
  the model in which records are lost.
\<close>

section \<open>Replaying the log\<close>

text \<open>Replaying the records into an empty storage rebuilds the pending buffer, and the recovered offsets
  are those of the buffer.\<close>

definition rec_view :: "('o, 's) Storage \<Rightarrow> bool" where
  "rec_view st \<longleftrightarrow> (\<forall>k. fmlookup (st_recBase st) k = map_option pp_baseOffset (fmlookup (st_pending st) k)
     \<and> fmlookup (st_recNext st) k = map_option pp_nextOffset (fmlookup (st_pending st) k))"

definition same_node :: "('o, 's) Storage \<Rightarrow> ('o, 's) Storage \<Rightarrow> bool" where
  "same_node st st' \<longleftrightarrow> st_store st' = st_store st \<and> st_index st' = st_index st \<and> st_wal st' = st_wal st
     \<and> st_cfg st' = st_cfg st \<and> st_uploadSeq st' = st_uploadSeq st"

lemma replay_rec_ok:
  assumes "wf_batch (wr_Batch r)" and "rec_view st"
  shows "\<exists>st'. replay_rec r st = (None, st') \<and> st_pending st' = add_rec r (st_pending st) \<and> rec_view st' \<and> same_node st st'"
proof -
  obtain h where h: "ParseHeader (wr_Batch r) = (h, None)" using wf_batch_ParseHeader [OF assms(1), of "[]"] by simp
  then have nxt: "i64 (LastOffset h + 1) = rec_next r" by (simp add: rec_next_def)
  let ?pp = "add_batch (fmlookup (st_pending st) (rec_key r)) r (rec_next r)"
  have pp: "pp_nextOffset ?pp = rec_next r"
    "pp_baseOffset ?pp = (case fmlookup (st_pending st) (rec_key r) of None \<Rightarrow> wr_BaseOffset r | Some q \<Rightarrow> pp_baseOffset q)"
    by (simp_all add: add_batch_def Let_def split: option.split)
  obtain st' where st': "replay_rec r st = (None, st')" by (simp add: replay_rec_def h Let_def)
  have p: "st_pending st' = add_rec r (st_pending st)" and s: "same_node st st'"
    using st' by (auto simp: replay_rec_def h Let_def nxt appendPendingLocked_def add_rec_def rec_key_def same_node_def)
  have "fmlookup (st_recBase st') k = (if k = rec_key r \<and> fmlookup (st_recBase st) k = None then Some (wr_BaseOffset r)
      else fmlookup (st_recBase st) k)"
    "fmlookup (st_recNext st') k = (if k = rec_key r then Some (rec_next r) else fmlookup (st_recNext st) k)" for k
    using st' by (auto simp: replay_rec_def h Let_def nxt appendPendingLocked_def rec_key_def split: option.splits)
  with assms(2) have "rec_view st'"
    by (auto simp: rec_view_def p add_rec_def pp split: option.split)
  with st' p s show ?thesis by blast
qed

lemma replay_recs_ok:
  assumes "list_all (\<lambda>r. wf_batch (wr_Batch r)) recs" and "st_pending st = fmempty" and "rec_view st"
  shows "\<exists>st'. replay_spec replay_rec recs st = (None, st') \<and> st_pending st' = pend_of recs \<and> rec_view st' \<and> same_node st st'"
  using assms(1)
proof (induction recs rule: rev_induct)
  case Nil
  with assms show ?case by (simp add: same_node_def)
next
  case (snoc r recs)
  then obtain st1 where st1: "replay_spec replay_rec recs st = (None, st1)" "st_pending st1 = pend_of recs" "rec_view st1"
    "same_node st st1" by auto
  from replay_rec_ok [OF _ st1(3), of r] snoc.prems obtain st2 where st2: "replay_rec r st1 = (None, st2)"
    "st_pending st2 = add_rec r (st_pending st1)" "rec_view st2" "same_node st1 st2" by auto
  with st1 show ?case by (intro exI [of _ st2]) (simp add: replay_spec_append same_node_def)
qed

lemma NewStorage_ok:
  assumes "dir_inv d segs" and "seq_ok (next_seq segs)" and "list_all (\<lambda>r. wf_batch (wr_Batch r)) (records segs)"
  shows "\<exists>st. NewStorage s idx conf d = Inr st \<and> wal_synced st (segs @ [(next_seq segs, [])]) \<and> rec_view st
    \<and> st_store st = s \<and> st_index st = newIndex idx \<and> st_uploadSeq st = 0 \<and> st_cfg st = conf"
proof -
  let ?st0 = "\<lparr>st_store = s, st_wal = openWAL d, st_index = newIndex idx, st_cfg = conf,
             st_pending = fmempty, st_pendingBytes = 0, st_uploadSeq = 0, st_recBase = fmempty,
             st_recNext = fmempty, st_notify = False\<rparr>"
  note w = openWAL_inv [OF assms(1,2)]
  have "rec_view ?st0" by (simp add: rec_view_def)
  from replay_recs_ok [OF assms(3) _ this] obtain st where
    st: "replay_spec replay_rec (records segs) ?st0 = (None, st)" "st_pending st = pend_of (records segs)" "rec_view st"
    "same_node ?st0 st" by auto
  have "st_replay ?st0 = (None, st)" using wal_replay_inv [OF w, of replay_rec ?st0] st(1) by (simp add: st_replay_def)
  then have "NewStorage s idx conf d = Inr st" by (simp add: NewStorage_def)
  with st w assms(3) show ?thesis by (auto simp: wal_synced_def same_node_def)
qed

section \<open>Opening a partition\<close>

lemma chain_last: "chain lo refs m \<Longrightarrow> refs \<noteq> [] \<Longrightarrow> sg_NextOffset (last refs) = m \<and> sg_BaseOffset (hd refs) = lo"
  by (induction refs arbitrary: lo) auto

lemma ranges_sorted: "ranges_ok refs \<Longrightarrow> sort_key sg_BaseOffset refs = refs"
proof (rule sort_key_id_if_sorted)
  assume ok: "ranges_ok refs"
  have "sg_BaseOffset (refs ! i) \<le> sg_BaseOffset (refs ! j)" if "i < j" "j < length refs" for i j
    using ranges_okD(2) [OF ok that] by simp
  then show "sorted (map sg_BaseOffset refs)" by (simp add: sorted_iff_nth_mono_less)
qed

lemma Log_ok:
  assumes ix: "index_ok ok crefs I" "ok idx" and p: "in_i32 p" and st: "st_index st = newIndex idx" "rec_view st"
    and inv: "part_inv (obj (st_store st)) (crefs idx t p) (fmlookup (st_pending st) (indexKey t p)) lo n"
    and known: "crefs idx t p \<noteq> [] \<or> lo = 0"
  shows "\<exists>l st'. Storage_Log I st t p = Inr (l, st') \<and> olog_inv obj (l, st') \<and> ol_earliest l = lo \<and> ol_nextOffset l = n
    \<and> ol_topic l = t \<and> ol_partition l = p \<and> refsFor (st_index st') t p = crefs idx t p
    \<and> st_pending st' = st_pending st \<and> st_store st' = st_store st \<and> st_wal st' = st_wal st"
proof -
  let ?refs = "crefs idx t p" and ?pend = "fmlookup (st_pending st) (indexKey t p)"
  from inv obtain m where m: "0 \<le> lo" "n < 2 ^ 63" "list_all (ref_ok (obj (st_store st))) ?refs" "chain lo ?refs m" "tail_ok m ?pend n"
    unfolding part_inv_def by blast
  define ix' where "ix' = (newIndex idx)\<lparr>ix_refs := fmupd (indexKey t p) ?refs (ix_refs (newIndex idx))\<rparr>"
  have load: "Index_load (is_Load I) (st_index st) t p = (None, ix')"
    using index_store.load_law [OF ix p, of t] ranges_sorted [OF chain_ranges [OF m(3,4)]]
    by (simp add: Index_load_def st(1) newIndex_def ix'_def)
  have refs': "refsFor ix' t p = ?refs" by (simp add: ix'_def refsFor_def refs_at_upd)
  then have lt: "Index_latest ix' t p = (if ?refs = [] then None else Some m)"
    "Index_earliest ix' t p = (if ?refs = [] then None else Some lo)"
    using chain_last [OF m(4)] by (auto simp: Index_latest_def Index_earliest_def refsFor_def Let_def last_conv_nth hd_conv_nth)
  have rec: "fmlookup (st_recNext st) (indexKey t p) = map_option (\<lambda>_. n) ?pend"
    "fmlookup (st_recBase st) (indexKey t p) = map_option (\<lambda>_. m) ?pend"
    using st(2) m(5) by (cases ?pend; simp add: rec_view_def)+
  have mn: "?pend \<noteq> None \<Longrightarrow> m < n" using m(5) batch_run_less by (cases ?pend) auto
  have lm: "lo \<le> m" by (rule chain_bounds(1) [OF m(3,4)])
  have none: "?refs = [] \<Longrightarrow> m = lo \<and> lo = 0" using m(4) known by auto
  define l where "l = \<lparr>ol_topic = t, ol_partition = p, ol_nextOffset = n, ol_highWatermark = n, ol_holdHWM = False, ol_earliest = lo\<rparr>"
  have "Storage_Log I st t p = Inr (l, st\<lparr>st_index := ix'\<rparr>)"
  proof (cases ?pend)
    case None
    then have "n = m" using m(5) by simp
    with None show ?thesis using none by (cases "?refs = []") (simp_all add: Storage_Log_def load lt rec l_def)
  next
    case (Some pp)
    then have "m < n" using mn by simp
    with Some show ?thesis using none lm m(1) by (cases "?refs = []") (simp_all add: Storage_Log_def load lt rec l_def)
  qed
  moreover have "olog_inv obj (l, st\<lparr>st_index := ix'\<rparr>)"
    using inv part_bounds [OF inv] by (simp add: olog_inv_def st_inv_def l_def refs')
  ultimately show ?thesis by (intro exI [of _ l] exI [of _ "st\<lparr>st_index := ix'\<rparr>"]) (simp add: l_def refs')
qed

section \<open>Cutting the log\<close>

lemma run_next:
  assumes "batch_run o' bs n" and "bs \<noteq> []" and "0 \<le> o'" and "n < 2 ^ 63"
  shows "i64 (LastOffset (header (last bs)) + 1) = n"
proof -
  obtain cs b where bs: "bs = cs @ [b]" using assms(2) by (meson rev_exhaust)
  with assms(1) obtain m where m: "batch_run o' cs m" "wf_records b" "BaseOffset (header b) = m" "n = m + span b"
    by (auto simp: batch_run_append)
  have "0 \<le> m" using batch_run_le [OF m(1)] assms(3) by simp
  with LastOffset_run [OF m(2,3)] m(4) assms(4) span_pos [OF m(2)] show ?thesis by (simp add: bs i64_id in_i64_def)
qed

text \<open>A buffer rebuilt from a prefix of the records holds a prefix of the contents.\<close>

lemma tail_cut:
  assumes "tail_ok m (fmlookup (pend_of (rs @ rs')) k) n" and "0 \<le> m" and "n < 2 ^ 63"
  shows "\<exists>n'. tail_ok m (fmlookup (pend_of rs) k) n' \<and> n' \<le> n \<and> (rs' = [] \<longrightarrow> n' = n)
    \<and> prefix (tail_batches (fmlookup (pend_of rs) k)) (tail_batches (fmlookup (pend_of (rs @ rs')) k))"
proof -
  let ?f = "filter (\<lambda>r. rec_key r = k) rs" and ?g = "filter (\<lambda>r. rec_key r = k) rs'"
  show ?thesis
  proof (cases "?f = []")
    case True
    then have none: "fmlookup (pend_of rs) k = None" by (simp add: pend_of_lookup)
    moreover have "m \<le> n" using batch_run_le [OF tail_run [OF assms(1)]] .
    moreover have "rs' = [] \<longrightarrow> m = n" using assms(1) none by auto
    ultimately show ?thesis by (intro exI [of _ m]) simp
  next
    case False
    then have whole: "wr_BaseOffset (hd ?f) = m" "batch_run m (map wr_Batch ?f @ map wr_Batch ?g) n"
      "length (concat (map wr_Batch ?f)) + length (concat (map wr_Batch ?g)) < 2 ^ 31"
      using assms(1) by (simp_all add: pend_of_lookup Let_def split: if_splits)
    then obtain n' where n': "batch_run m (map wr_Batch ?f) n'" "batch_run n' (map wr_Batch ?g) n"
      by (auto simp: batch_run_append)
    have le: "n' \<le> n" using batch_run_le [OF n'(2)] .
    with run_next [OF n'(1)] False assms(2,3) have "rec_next (last ?f) = n'" by (simp add: rec_next_def last_map)
    with False whole n'(1) have "tail_ok m (fmlookup (pend_of rs) k) n'" by (simp add: pend_of_lookup Let_def)
    moreover have "rs' = [] \<longrightarrow> n' = n" using n'(2) by auto
    moreover have "prefix (tail_batches (fmlookup (pend_of rs) k)) (tail_batches (fmlookup (pend_of (rs @ rs')) k))"
      using False by (simp add: pend_of_lookup Let_def)
    ultimately show ?thesis using le by blast
  qed
qed

lemma part_cut:
  assumes "part_inv obj refs (fmlookup (pend_of (rs @ rs')) k) lo n"
  shows "\<exists>n'. part_inv obj refs (fmlookup (pend_of rs) k) lo n' \<and> n' \<le> n \<and> (rs' = [] \<longrightarrow> n' = n)
    \<and> prefix (contents obj refs (fmlookup (pend_of rs) k)) (contents obj refs (fmlookup (pend_of (rs @ rs')) k))"
proof -
  from assms obtain m where m: "0 \<le> lo" "n < 2 ^ 63" "list_all (ref_ok obj) refs" "chain lo refs m"
    "tail_ok m (fmlookup (pend_of (rs @ rs')) k) n" unfolding part_inv_def by blast
  have "0 \<le> m" using chain_bounds(1) [OF m(3,4)] m(1) by simp
  from tail_cut [OF m(5) this m(2)] obtain n' where n': "tail_ok m (fmlookup (pend_of rs) k) n'" "n' \<le> n" "rs' = [] \<longrightarrow> n' = n"
    "prefix (tail_batches (fmlookup (pend_of rs) k)) (tail_batches (fmlookup (pend_of (rs @ rs')) k))" by blast
  have "part_inv obj refs (fmlookup (pend_of rs) k) lo n'"
    unfolding part_inv_def using m(1-4) n'(1,2) by (intro conjI exI [of _ m]) simp_all
  with n' show ?thesis by (auto simp: contents_def)
qed


text \<open>C15: an upload, whether it succeeds or fails at the log or at the object store, keeps the contents of
  every partition: the pending batches move behind the uploaded ones, at the same offsets. The
  pending buffer stays the one the write-ahead log would be replayed to; after a success it is
  empty and so is the log. The object must be new to the partition.\<close>

theorem upload_refines:
  assumes "object_store_ok O' obj" and "index_ok ok crefs I" and "ok (ix_store (st_index st))"
    and "wal_synced st segs" and "seq_ok (wl_activeSeq (st_wal st) + 1)" and "length (snap_object st) < 2 ^ 63"
    and "in_i32 p" and "st_inv obj st t p lo n" and "key_fresh st t p"
    and "upload O' I syncErr ms st = (e, st')"
  shows "st_inv obj st' t p lo n \<and> st_contents obj st' t p = st_contents obj st t p \<and> ok (ix_store (st_index st'))
    \<and> (\<exists>segs'. wal_synced st' segs' \<and> records segs' = (if e = None then [] else records segs))"
  using assms by (rule st_inv_upload)

section \<open>Appends, uploads and reads together\<close>


section \<open>A node to try it on\<close>

abbreviation mem_index :: "refmap IndexStore" where
  "mem_index \<equiv> \<lparr>is_Commit = Mem_Commit, is_Load = Mem_Load, is_Prune = Mem_Prune, is_Referenced = Mem_Referenced\<rparr>"

abbreviation sample_conf :: StorageConfig where
  "sample_conf \<equiv> \<lparr>sc_NodeID = ''0'', sc_UploadBytes = 0, sc_UploadMS = 0\<rparr>"

lemma mem_index_ok: "index_ok mem_inv mem_committed mem_index"
  using mem_store.index_store_axioms by simp

lemma sample_opened:
  obtains l and st :: "(string \<times> string \<Rightarrow> bytes option, refmap) Storage"
  where "olog_inv map_obj (l, st)" "ol_topic l = ''t''" "ol_partition l = 0" "ol_nextOffset l = 0" "ol_earliest l = 0"
    "wal_synced st [(1, [])]" "st_index st = \<lparr>ix_store = fmempty, ix_refs = fmupd (indexKey ''t'' 0) [] fmempty\<rparr>"
proof -
  have "dir_inv [] []" "seq_ok (next_seq [])" by (simp_all add: dir_inv_def next_seq_def seq_ok_def)
  from NewStorage_ok [OF this, of Map.empty fmempty sample_conf]
  obtain st0 :: "(string \<times> string \<Rightarrow> bytes option, refmap) Storage" where
    st0: "wal_synced st0 [(1, [])]" "rec_view st0" "st_index st0 = newIndex fmempty" by (auto simp: next_seq_def)
  then have pend: "st_pending st0 = fmempty" by (simp add: wal_synced_def)
  have "part_inv (map_obj (st_store st0)) (mem_committed fmempty ''t'' 0) (fmlookup (st_pending st0) (indexKey ''t'' 0)) 0 0"
    by (simp add: part_inv_def refs_at_def pend)
  from Log_ok [of mem_inv mem_committed mem_index fmempty 0 st0 map_obj "''t''" 0 0, OF mem_index_ok _ _ st0(3,2) this] obtain l st where
    l: "Storage_Log mem_index st0 ''t'' 0 = Inr (l, st)" "olog_inv map_obj (l, st)" "ol_topic l = ''t''" "ol_partition l = 0"
      "ol_nextOffset l = 0" "ol_earliest l = 0" "st_pending st = st_pending st0" "st_wal st = st_wal st0"
    by (auto simp: mem_inv_def in_i32_def)
  have "st_index st = \<lparr>ix_store = fmempty, ix_refs = fmupd (indexKey ''t'' 0) [] fmempty\<rparr>"
    using l(1) by (auto simp: Storage_Log_def Index_load_def st0(3) newIndex_def Mem_Load_def refs_at_def Let_def)
  with l st0(1) that show thesis by (auto simp: wal_synced_def)
qed

abbreviation sample_wal_rec :: walRecord where
  "sample_wal_rec \<equiv> \<lparr>wr_Topic = ''t'', wr_Partition = 0, wr_BaseOffset = 0, wr_Batch = patched sample_batch 0\<rparr>"

lemma sample_wal_rec_ok: "rec_ok sample_wal_rec" "rec_next sample_wal_rec = 2" "wf_batch (wr_Batch sample_wal_rec)"
proof -
  note pb = wf_records_patched [OF sample_batch_ok(1), of 0]
  show "wf_batch (wr_Batch sample_wal_rec)" using wf_records_batch [OF pb(1)] by simp
  show "rec_ok sample_wal_rec" using pb(3) by (simp add: rec_ok_def in_range_defs encodeWALPayload_def)
  have "BaseOffset (header (patched sample_batch 0)) = 0"
    by (simp add: header_patched HeaderSize_def i64_id in_i64_def)
  from LastOffset_run [OF pb(1) this] pb(2) sample_batch_ok(2) show "rec_next sample_wal_rec = 2"
    by (simp add: rec_next_def i64_id in_i64_def)
qed

lemma sample_node:
  obtains l and st :: "(string \<times> string \<Rightarrow> bytes option, refmap) Storage" and l1 st1
  where "olog_inv map_obj (l, st)" "olog_fits (l, st) sample_batch" "ol_topic l = ''t''" "ol_partition l = 0"
    "ObjectLog_Append (l, st) sample_batch = Ret (0, None, (l1, st1))"
    "st_inv map_obj st1 ''t'' 0 0 2" "st_contents map_obj st1 ''t'' 0 = [patched sample_batch 0]"
    "wal_synced st1 [(1, [sample_wal_rec])]" "wl_activeSeq (st_wal st1) = 1" "refsFor (st_index st1) ''t'' 0 = []"
    "mem_committed (ix_store (st_index st1)) ''t'' 0 = []" "mem_inv (ix_store (st_index st1))" "length (snap_object st1) < 2 ^ 63"
proof -
  obtain l and st :: "(string \<times> string \<Rightarrow> bytes option, refmap) Storage" where
    l: "olog_inv map_obj (l, st)" "ol_topic l = ''t''" "ol_partition l = 0" "ol_nextOffset l = 0" "ol_earliest l = 0"
    "wal_synced st [(1, [])]" "st_index st = \<lparr>ix_store = fmempty, ix_refs = fmupd (indexKey ''t'' 0) [] fmempty\<rparr>"
    by (rule sample_opened)
  then have pend: "st_pending st = fmempty" by (simp add: wal_synced_def)
  have fits: "olog_fits (l, st) sample_batch" using l(4) sample_batch_ok(2) by (simp add: olog_fits_def pend)
  from Append_olog [OF l(1) sample_batch_ok(1) fits] l(2-5) sample_batch_ok(2) obtain l1 st1 where
    a: "ObjectLog_Append (l, st) sample_batch = Ret (0, None, (l1, st1))" "olog_inv map_obj (l1, st1)"
    "olog_batches map_obj (l1, st1) = olog_batches map_obj (l, st) @ [patched sample_batch 0]"
    "ol_nextOffset l1 = 2" "ol_earliest l1 = 0" "ol_topic l1 = ''t''" "ol_partition l1 = 0"
    "st1 = st_append st sample_wal_rec 2" by (auto simp: ol_record_def)
  have syn: "wal_synced st1 [(1, [sample_wal_rec])]"
    using st_append_synced [OF l(6) sample_wal_rec_ok(1) _ sample_wal_rec_ok(3), of 2] sample_wal_rec_ok(2)
    by (simp add: a(8) abs_append_def)
  have "olog_batches map_obj (l, st) = []"
    by (simp add: olog_batches_def st_contents_def contents_def l(2,3,7) refsFor_def refs_at_upd pend)
  then have "st_contents map_obj st1 ''t'' 0 = [patched sample_batch 0]" using a(3,6,7) by (simp add: olog_batches_def)
  moreover have "st_inv map_obj st1 ''t'' 0 0 2" using a(2,4-7) by (simp add: olog_inv_def)
  moreover have "sortedKeys (st_pending st1) = [rec_key sample_wal_rec]"
    by (simp add: a(8) pend sortedKeys_def sorted_list_of_fset.rep_eq)
  then have "length (snap_object st1) < 2 ^ 63" by (simp add: snap_object_def a(8) pend add_batch_def HeaderSize_def)
  moreover have "wl_activeSeq (st_wal st1) = 1" using syn by (simp add: wal_synced_def wal_inv_def)
  moreover have "st_index st1 = st_index st" by (simp add: a(8))
  ultimately show thesis
    using l(1-3,7) fits a(1) syn by (intro that [of l st l1 st1]) (simp_all add: refsFor_def refs_at_def mem_inv_def)
qed

theorem upload_refines_witness:
  "\<exists>(st :: (string \<times> string \<Rightarrow> bytes option, refmap) Storage) st'. st_inv map_obj st ''t'' 0 0 2 \<and> key_fresh st ''t'' 0
     \<and> upload map_store mem_index None 5 st = (None, st') \<and> st_pending st \<noteq> fmempty
     \<and> st_inv map_obj st' ''t'' 0 0 2 \<and> st_contents map_obj st' ''t'' 0 = [patched sample_batch 0]"
proof (rule sample_node)
  fix l and st :: "(string \<times> string \<Rightarrow> bytes option, refmap) Storage" and l1 st1
  assume n: "st_inv map_obj st1 ''t'' 0 0 2" "st_contents map_obj st1 ''t'' 0 = [patched sample_batch 0]"
    "wal_synced st1 [(1, [sample_wal_rec])]" "wl_activeSeq (st_wal st1) = 1" "refsFor (st_index st1) ''t'' 0 = []"
    "mem_inv (ix_store (st_index st1))" "length (snap_object st1) < 2 ^ 63"
  have fresh: "key_fresh st1 ''t'' 0" by (simp add: key_fresh_def n(5))
  have "pend_of [sample_wal_rec] \<noteq> fmempty" by (simp add: pend_of_def add_rec_def fmdom_empty_iff [symmetric])
  then have ne: "st_pending st1 \<noteq> fmempty" using n(3) by (simp add: wal_synced_def)
  obtain e st' where up: "upload map_store mem_index None 5 st1 = (e, st')" by fastforce
  have "e = None"
    using up ne mem_index_ok n(6) wal_synced_pend_ok [OF n(3)]
    by (cases rule: upload_cases) (auto simp: minioStore_def minio_Put_def map_client_def)
  moreover have "seq_ok (wl_activeSeq (st_wal st1) + 1)" "in_i32 0" by (simp_all add: n(4) seq_ok_def in_i32_def)
  ultimately show ?thesis
    using upload_refines [OF map_store_ok mem_index_ok n(6,3) _ n(7) _ n(1) fresh up] n(1,2) fresh up ne by auto
qed



section \<open>Runs that lose records\<close>

text \<open>The sequence number of uploads is not kept over a restart, so that the first upload after a restart
  writes the object with the name of the very first upload. Whatever that object held, and whatever
  index references point into it, it is replaced.\<close>

lemma NewStorage_fields: "NewStorage s idx conf d = Inr st \<Longrightarrow> dir_inv d segs \<Longrightarrow> seq_ok (next_seq segs) \<Longrightarrow>
    list_all (\<lambda>r. wf_batch (wr_Batch r)) (records segs) \<Longrightarrow> st_uploadSeq st = 0 \<and> st_cfg st = conf \<and> st_index st = newIndex idx
    \<and> wal_synced st (segs @ [(next_seq segs, [])])"
  using NewStorage_ok [of d segs s idx conf] by auto

lemma restart_overwrites_object:
  assumes "object_store_ok O' obj" and "index_ok ok crefs I" and "ok idx"
    and "dir_inv d segs" and "seq_ok (next_seq segs)" and "list_all (\<lambda>r. wf_batch (wr_Batch r)) (records segs)"
    and "records segs \<noteq> []" and "NewStorage s idx conf d = Inr st" and "upload O' I None ms st = (None, st')"
  shows "obj (st_store st') (object_key conf 1) = Some (snap_object st)"
proof -
  note f = NewStorage_fields [OF assms(8,4-6)]
  have key: "upload_key st = object_key conf 1" using f by (simp add: upload_key_def u64_def)
  obtain r where "r \<in> set (records segs)" using assms(7) by (meson last_in_set)
  then have "fmlookup (pend_of (records segs)) (rec_key r) \<noteq> None" by (auto simp: pend_of_lookup Let_def filter_empty_conv)
  then have ne: "st_pending st \<noteq> fmempty" using f by (auto simp: wal_synced_def)
  have "ok (ix_store (st_index st))" "pend_ok (st_pending st)" using f assms(3) wal_synced_pend_ok by (auto simp: newIndex_def)
  with assms(9) ne assms(2) show ?thesis
  proof (cases rule: upload_cases)
    case finished
    from object_storeD(1) [OF assms(1) finished(4)] show ?thesis by (simp add: key)
  qed simp_all
qed

text \<open>A record that is appended between the snapshot of an upload and the sealing of the log is in a sealed
  segment but not in the object: the upload deletes it from the log, and until the next upload it
  exists in memory only.\<close>

lemma append_during_upload_not_durable:
  assumes syn: "wal_synced st segs" and seq: "seq_ok (wl_activeSeq (st_wal st) + 1)" and r: "rec_ok r"
    and snap: "upload_snapshot st = Some (snap, sq, st1)"
    and st2: "st2 = st_append st1 r nxt"
    and rot: "upload_rotate None snap st2 = (Inr sealed, st3)"
    and fin: "upload_finish O' I ms snap sq sealed st3 = (None, st4)"
  shows "wal_inv (st_wal st4) [(wl_activeSeq (st_wal st) + 1, [])]" and "fmlookup (st_pending st4) (rec_key r) \<noteq> None"
proof -
  have st1: "st_wal st1 = st_wal st" "st_pending st1 = fmempty" using snap by (auto simp: upload_snapshot_def Let_def split: if_splits)
  have w2: "st_wal st2 = wal_append (st_wal st) r"
    by (simp add: st2 st_append_def appendPendingLocked_def triggerUpload_def Let_def st1)
  have inv2: "wal_inv (st_wal st2) (abs_append segs r)"
    using wal_append_inv [OF _ r] syn by (simp add: w2 wal_synced_def)
  have act: "wl_activeSeq (st_wal st2) = wl_activeSeq (st_wal st)" by (simp add: w2 wal_append_def Let_def)
  have w3: "st_wal st3 = snd (wal_rotate (st_wal st2))" "sealed = fst (wal_rotate (st_wal st2))" "st_pending st3 = st_pending st2"
    using rot by (auto simp: upload_rotate_def split: prod.splits)
  have w4: "st_wal st4 = deleteThrough (st_wal st3) sealed" "st_pending st4 = st_pending st3"
    using fin by (auto simp: upload_finish_def Let_def split: prod.splits option.splits)
  from wal_trim [OF inv2] seq show "wal_inv (st_wal st4) [(wl_activeSeq (st_wal st) + 1, [])]" by (simp add: w3 w4(1) act)
  show "fmlookup (st_pending st4) (rec_key r) \<noteq> None" by (simp add: w4(2) w3(3) st2)
qed

text \<open>When retention has dropped all references of a partition and nothing is pending, a restart opens the
  partition at offset 0: offsets that consumers have seen are assigned again.\<close>

lemma emptied_partition_restarts_at_0:
  assumes "index_ok ok crefs I" and "ok idx" and "in_i32 p" and "st_index st = newIndex idx" and "rec_view st"
    and "crefs idx t p = []" and "fmlookup (st_pending st) (indexKey t p) = None"
  shows "\<exists>l st'. Storage_Log I st t p = Inr (l, st') \<and> ol_nextOffset l = 0 \<and> ol_earliest l = 0"
proof -
  have "part_inv obj (crefs idx t p) (fmlookup (st_pending st) (indexKey t p)) 0 0" for obj
    by (simp add: part_inv_def assms(6,7))
  from Log_ok [of ok crefs I idx p st "\<lambda>_ _. None" t 0 0, OF assms(1-5) this] show ?thesis by blast
qed

end
