(* ===== verification/Object_Retention.thy ===== *)
theory Object_Retention
  imports Object_Recovery
begin

text \<open>
  Retention of the object backend (\<open>retention.go\<close>): dropping the oldest references of a partition and
  deleting the objects that no partition refers to. Objects are shared by partitions, so the point
  is that no other partition loses data.
\<close>

lemma collect_objects_keeps:
  assumes "object_store_ok O' obj" and "referenced k"
  shows "obj (collect_objects O' referenced seen rs s) k = obj s k"
  using assms(2)
proof (induction rs arbitrary: seen s)
  case (Cons r rs)
  have "obj (snd (os_Delete O' s (sg_Key r))) k = obj s k" if "\<not> referenced (sg_Key r)"
    using object_storeD(4) [OF assms(1), of s "sg_Key r" _ _ k] Cons.prems that by (metis prod.collapse)
  with Cons show ?case by simp
qed simp

text \<open>The references above a cutoff at the end of one of them are those behind it.\<close>

lemma chain_filter:
  assumes "list_all (ref_ok obj) refs" and "chain lo refs m" and "0 < d" and "d \<le> length refs"
  shows "filter (\<lambda>r. sg_NextOffset r > sg_NextOffset (refs ! (d - 1))) refs = drop d refs"
    and "chain (sg_NextOffset (refs ! (d - 1))) (drop d refs) m"
proof -
  let ?c = "sg_NextOffset (refs ! (d - 1))"
  have last: "last (take d refs) = refs ! (d - 1)" "take d refs \<noteq> []"
    using assms(3,4) by (cases d; simp add: take_Suc_conv_app_nth)+
  from assms(2) obtain c where c: "chain lo (take d refs) c" "chain c (drop d refs) m"
    using chain_append [of lo "take d refs" "drop d refs" m] by auto
  have oks: "list_all (ref_ok obj) (take d refs)" "list_all (ref_ok obj) (drop d refs)"
    using assms(1) by (auto simp: list_all_iff dest: in_set_takeD in_set_dropD)
  have end_c: "chain lo qs e \<Longrightarrow> qs \<noteq> [] \<Longrightarrow> sg_NextOffset (last qs) = e" for lo qs e
    by (induction qs arbitrary: lo) auto
  have cc: "c = ?c" using end_c [OF c(1) last(2)] last(1) by simp
  show "chain ?c (drop d refs) m" using c(2) cc by simp
  have "filter (\<lambda>r. sg_NextOffset r > ?c) (take d refs) = []"
    using chain_bounds(2) [OF oks(1) c(1)] cc by (fastforce simp: filter_empty_conv)
  moreover have "filter (\<lambda>r. sg_NextOffset r > ?c) (drop d refs) = drop d refs"
    using chain_bounds(2) [OF oks(2) c(2)] ref_ok_run(2) oks(2) cc by (fastforce simp: filter_id_conv list_all_iff)
  ultimately show "filter (\<lambda>r. sg_NextOffset r > ?c) refs = drop d refs"
    using filter_append [of "\<lambda>r. sg_NextOffset r > ?c" "take d refs" "drop d refs"] by simp
qed

lemma part_drop:
  assumes "part_inv obj refs pend lo n" and "0 < d" and "d \<le> length refs"
  shows "part_inv obj (drop d refs) pend (sg_NextOffset (refs ! (d - 1))) n"
    and "lo < sg_NextOffset (refs ! (d - 1))"
    and "suffix (contents obj (drop d refs) pend) (contents obj refs pend)"
proof -
  from assms(1) obtain m where m: "0 \<le> lo" "n < 2 ^ 63" "list_all (ref_ok obj) refs" "chain lo refs m" "tail_ok m pend n"
    unfolding part_inv_def by blast
  have mem: "refs ! (d - 1) \<in> set refs" using assms(2,3) by simp
  then have r: "ref_ok obj (refs ! (d - 1))" using m(3) by (simp add: list_all_iff)
  show lo: "lo < sg_NextOffset (refs ! (d - 1))"
    using chain_bounds(2) [OF m(3,4) mem] ref_ok_run(2) [OF r] by simp
  have "list_all (ref_ok obj) (drop d refs)" using m(3) by (auto simp: list_all_iff dest: in_set_dropD)
  with m chain_filter(2) [OF m(3,4) assms(2,3)] lo show "part_inv obj (drop d refs) pend (sg_NextOffset (refs ! (d - 1))) n"
    unfolding part_inv_def by (intro conjI exI [of _ m]) simp_all
  have "concat (map (ref_batches obj) refs) = concat (map (ref_batches obj) (take d refs)) @ concat (map (ref_batches obj) (drop d refs))"
    by (metis append_take_drop_id concat_append map_append)
  then show "suffix (contents obj (drop d refs) pend) (contents obj refs pend)" by (simp add: contents_def suffix_def)
qed

lemma drop_count_le: "drop_count nowMs maxAgeMs maxBytes sz refs \<le> length refs"
  by (induction refs arbitrary: sz) (auto simp: Let_def)

text \<open>What a pruning pass leaves: the index, and the objects that some partition refers to.\<close>

lemma retention_cases:
  assumes os: "object_store_ok O' obj" and ix: "index_ok ok crefs I" "ok (ix_store (st_index st))" and p: "in_i32 p"
    and run: "st_enforceRetention O' I st t p nowMs maxAgeMs maxBytes = (res, st')"
  obtains
    (none) "res = Inr (0, False)" "st' = st"
  | (some) d where "0 < d" "d \<le> length (refsFor (st_index st) t p)"
      "res = Inr (sg_NextOffset (refsFor (st_index st) t p ! (d - 1)), True)" "st_pending st' = st_pending st"
      "ok (ix_store (st_index st'))"
      "\<And>t' p'. in_i32 p' \<Longrightarrow> refsFor (st_index st') t' p' = (if t' = t \<and> p' = p
         then filter (\<lambda>r. sg_NextOffset r > sg_NextOffset (refsFor (st_index st) t p ! (d - 1))) (refsFor (st_index st) t p)
         else refsFor (st_index st) t' p')"
      "\<And>t' p'. in_i32 p' \<Longrightarrow> crefs (ix_store (st_index st')) t' p' = (if t' = t \<and> p' = p
         then filter (\<lambda>r. sg_NextOffset r > sg_NextOffset (refsFor (st_index st) t p ! (d - 1))) (crefs (ix_store (st_index st)) t p)
         else crefs (ix_store (st_index st)) t' p')"
      "\<And>t' p' r. in_i32 p' \<Longrightarrow> r \<in> set (crefs (ix_store (st_index st')) t' p') \<Longrightarrow>
         obj (st_store st') (sg_Key r) = obj (st_store st) (sg_Key r)"
proof -
  let ?refs = "refsFor (st_index st) t p"
  define d where "d = drop_count nowMs maxAgeMs maxBytes (st_size st t p) ?refs"
  have dle: "d \<le> length ?refs" unfolding d_def by (rule drop_count_le)
  show thesis
  proof (cases "d = 0")
    case True
    with run show thesis by (intro none) (auto simp: st_enforceRetention_def Let_def d_def [symmetric] split: if_splits)
  next
    case False
    define c where "c = sg_NextOffset (?refs ! (d - 1))"
    from index_store.prune_law [OF ix p, of t c] obtain s where
      s: "is_Prune I (ix_store (st_index st)) t p c = (Inr (filter (\<lambda>r. sg_NextOffset r \<le> c) (crefs (ix_store (st_index st)) t p)), s)"
        "ok s" and
      s': "\<And>t' p'. in_i32 p' \<Longrightarrow> crefs s t' p' = (if t' = t \<and> p' = p
         then filter (\<lambda>r. sg_NextOffset r > c) (crefs (ix_store (st_index st)) t p) else crefs (ix_store (st_index st)) t' p')"
      by blast
    define ix' where "ix' = (st_index st)\<lparr>ix_store := s, ix_refs := fmupd (indexKey t p)
      (filter (\<lambda>r. sg_NextOffset r > c) ?refs) (ix_refs (st_index st))\<rparr>"
    define gone where "gone = filter (\<lambda>r. sg_NextOffset r \<le> c) (crefs (ix_store (st_index st)) t p)"
    have prune: "Index_prune (is_Prune I) (st_index st) t p c = (Inr gone, ix')"
      by (simp add: Index_prune_def s(1) Let_def ix'_def refsFor_def gone_def)
    have "?refs \<noteq> []" using False dle by auto
    with False run prune have res: "res = Inr (c, True)"
      "st' = st\<lparr>st_index := ix', st_store := collect_objects O' (Index_referenced (is_Referenced I) ix') [] gone (st_store st)\<rparr>"
      by (auto simp: st_enforceRetention_def Let_def d_def [symmetric] c_def [symmetric] simp del: One_nat_def)
    have st: "ix_store ix' = s" by (simp add: ix'_def)
    have refs': "refsFor ix' t' p' = (if t' = t \<and> p' = p then filter (\<lambda>r. sg_NextOffset r > c) ?refs else refsFor (st_index st) t' p')"
      if "in_i32 p'" for t' p'
      using indexKey_inj [of t' p' t p] that p by (auto simp: ix'_def refsFor_def refs_at_upd)
    have keep: "obj (st_store st') (sg_Key r) = obj (st_store st) (sg_Key r)"
      if "in_i32 p'" "r \<in> set (crefs s t' p')" for t' p' r
    proof -
      from index_store.referenced_law [OF ix(1) s(2), of "sg_Key r"] that
      have "Index_referenced (is_Referenced I) ix' (sg_Key r)" by (auto simp: Index_referenced_def st)
      then show ?thesis unfolding res(2) by (simp add: collect_objects_keeps [OF os])
    qed
    show thesis
      using False dle res s(2) s' refs' keep
      by (intro some [of d]) (simp_all add: c_def [symmetric] st del: One_nat_def)
  qed
qed

text \<open>C38: retention on one partition drops a prefix of its contents and moves its start to the cutoff it
  returns. Every other partition keeps all its batches, although objects are shared and deleted.\<close>

theorem object_retention_safe:
  assumes "object_store_ok O' obj" and "index_ok ok crefs I" and "ok (ix_store (st_index st))" and "in_i32 p" and "in_i32 p'"
    and "st_enforceRetention O' I st t p nowMs maxAgeMs maxBytes = (res, st')"
    and "st_inv obj st t' p' lo n" and "refsFor (st_index st) t' p' = crefs (ix_store (st_index st)) t' p'"
  shows "\<exists>lo'. st_inv obj st' t' p' lo' n \<and> suffix (st_contents obj st' t' p') (st_contents obj st t' p')
    \<and> refsFor (st_index st') t' p' = crefs (ix_store (st_index st')) t' p'
    \<and> (t' = t \<and> p' = p \<longrightarrow> (\<exists>c changed. res = Inr (c, changed) \<and> lo' = (if changed then c else lo)))
    \<and> (\<not> (t' = t \<and> p' = p) \<longrightarrow> lo' = lo \<and> st_contents obj st' t' p' = st_contents obj st t' p')"
proof (rule retention_cases [OF assms(1-4,6)])
  assume "res = Inr (0, False)" "st' = st"
  with assms(7,8) show ?thesis by (intro exI [of _ lo]) (auto intro: exI [of _ False])
next
  fix d
  let ?refs = "refsFor (st_index st) t p" and ?c = "sg_NextOffset (refsFor (st_index st) t p ! (d - 1))"
  let ?k = "indexKey t' p'"
  assume d: "0 < d" "d \<le> length ?refs" and res: "res = Inr (?c, True)" and pend: "st_pending st' = st_pending st"
    and refs: "\<And>t' p'. in_i32 p' \<Longrightarrow> refsFor (st_index st') t' p' = (if t' = t \<and> p' = p
        then filter (\<lambda>r. sg_NextOffset r > ?c) ?refs else refsFor (st_index st) t' p')"
    and com: "\<And>t' p'. in_i32 p' \<Longrightarrow> crefs (ix_store (st_index st')) t' p' = (if t' = t \<and> p' = p
        then filter (\<lambda>r. sg_NextOffset r > ?c) (crefs (ix_store (st_index st)) t p) else crefs (ix_store (st_index st)) t' p')"
    and keep: "\<And>t' p' r. in_i32 p' \<Longrightarrow> r \<in> set (crefs (ix_store (st_index st')) t' p') \<Longrightarrow>
         obj (st_store st') (sg_Key r) = obj (st_store st) (sg_Key r)"
  have sync: "refsFor (st_index st') t' p' = crefs (ix_store (st_index st')) t' p'"
    using refs [OF assms(5), of t'] com [OF assms(5), of t'] assms(8) by auto
  have same: "\<forall>r \<in> set (refsFor (st_index st') t' p'). obj (st_store st') (sg_Key r) = obj (st_store st) (sg_Key r)"
    using keep [OF assms(5), of _ t'] by (simp add: sync)
  note fr = part_frame(3,4) [OF same, of "fmlookup (st_pending st) ?k"]
  show ?thesis
  proof (cases "t' = t \<and> p' = p")
    case True
    then have inv: "part_inv (obj (st_store st)) ?refs (fmlookup (st_pending st) ?k) lo n" using assms(7) by (simp add: st_inv_def)
    then obtain m where "list_all (ref_ok (obj (st_store st))) ?refs" "chain lo ?refs m" unfolding part_inv_def by blast
    from chain_filter(1) [OF this d] refs [OF assms(5), of t'] True have r: "refsFor (st_index st') t' p' = drop d ?refs" by simp
    have "st_inv obj st' t' p' ?c n" unfolding st_inv_def pend fr(1) unfolding r by (rule part_drop(1) [OF inv d])
    moreover have "suffix (st_contents obj st' t' p') (st_contents obj st t' p')"
      using part_drop(3) [OF inv d] True unfolding st_contents_def pend fr(2) unfolding r by simp
    ultimately show ?thesis using True sync res by (intro exI [of _ ?c]) auto
  next
    case False
    then have r: "refsFor (st_index st') t' p' = refsFor (st_index st) t' p'" using refs [OF assms(5), of t'] by auto
    then have "st_inv obj st' t' p' lo n \<and> st_contents obj st' t' p' = st_contents obj st t' p'"
      using assms(7) by (simp add: st_inv_def st_contents_def pend fr [unfolded r])
    with False sync show ?thesis by (intro exI [of _ lo]) auto
  qed
qed

lemma sample_uploaded:
  obtains st :: "(string \<times> string \<Rightarrow> bytes option, refmap) Storage"
  where "st_inv map_obj st ''t'' 0 0 2" "mem_inv (ix_store (st_index st))" "st_pending st = fmempty"
    "refsFor (st_index st) ''t'' 0 = mem_committed (ix_store (st_index st)) ''t'' 0"
    "\<exists>r. refsFor (st_index st) ''t'' 0 = [r] \<and> sg_Length r = 63 \<and> sg_NextOffset r = 2"
proof (rule sample_node)
  fix l and st :: "(string \<times> string \<Rightarrow> bytes option, refmap) Storage" and l1 st1
  assume n: "st_inv map_obj st1 ''t'' 0 0 2" "wal_synced st1 [(1, [sample_wal_rec])]" "wl_activeSeq (st_wal st1) = 1"
    "refsFor (st_index st1) ''t'' 0 = []" "mem_committed (ix_store (st_index st1)) ''t'' 0 = []"
    "mem_inv (ix_store (st_index st1))" "length (snap_object st1) < 2 ^ 63"
  have p: "st_pending st1 = pend_of ([] @ [sample_wal_rec])" using n(2) by (simp add: wal_synced_def)
  have look: "fmlookup (st_pending st1) (indexKey ''t'' 0) = Some (add_batch None sample_wal_rec 2)"
    using sample_wal_rec_ok(2) by (simp only: p pend_of_simps add_rec_def) (simp add: rec_key_def)
  then have ne: "st_pending st1 \<noteq> fmempty" by auto
  have fresh: "key_fresh st1 ''t'' 0" by (simp add: key_fresh_def n(4))
  have i32: "in_i32 0" by (simp add: in_i32_def)
  obtain e st2 where up: "upload map_store mem_index None 5 st1 = (e, st2)" by fastforce
  have len: "length (patched sample_batch 0) = 63" by (simp add: HeaderSize_def)
  from up ne mem_index_ok n(6) wal_synced_pend_ok [OF n(2)] show thesis
  proof (cases rule: upload_cases)
    case finished
    note f = finished
    from snap_refs_one [OF wal_synced_pend_ok [OF n(2)] look i32, of "upload_key st1" 5] obtain r where
      r: "refs_of ''t'' 0 (part_refs (upload_key st1) 5 0 (snap_parts (st_pending st1))) = [r]" "sg_Length r = 63" "sg_NextOffset r = 2"
      using len by (auto simp: part_ref_def add_batch_def Let_def)
    have refs: "refsFor (st_index st2) ''t'' 0 = [r]" "mem_committed (ix_store (st_index st2)) ''t'' 0 = [r]"
      using f(7) [OF i32, of "''t''"] r(1) n(4,5) by simp_all
    have "seq_ok (wl_activeSeq (st_wal st1) + 1)" by (simp add: n(3) seq_ok_def)
    from st_inv_upload [OF map_store_ok mem_index_ok n(6,2) this n(7) i32 n(1) fresh up] f(3,6) refs r(2,3)
    show thesis by (intro that [of st2]) simp_all
  qed (auto simp: minioStore_def minio_Put_def map_client_def)
qed

theorem object_retention_safe_witness:
  "\<exists>(st :: (string \<times> string \<Rightarrow> bytes option, refmap) Storage) st'. st_inv map_obj st ''t'' 0 0 2
     \<and> st_enforceRetention map_store mem_index st ''t'' 0 9 0 1 = (Inr (2, True), st') \<and> st_inv map_obj st' ''t'' 0 2 2"
proof (rule sample_uploaded)
  fix st :: "(string \<times> string \<Rightarrow> bytes option, refmap) Storage"
  assume n: "st_inv map_obj st ''t'' 0 0 2" "mem_inv (ix_store (st_index st))" "st_pending st = fmempty"
    "refsFor (st_index st) ''t'' 0 = mem_committed (ix_store (st_index st)) ''t'' 0"
    "\<exists>r. refsFor (st_index st) ''t'' 0 = [r] \<and> sg_Length r = 63 \<and> sg_NextOffset r = 2"
  have i32: "in_i32 0" by (simp add: in_i32_def)
  obtain res st' where run: "st_enforceRetention map_store mem_index st ''t'' 0 9 0 1 = (res, st')" by fastforce
  have "st_size st ''t'' 0 = 63" using n(3,5) by (auto simp: st_size_def pending_bytes_def i64_id in_i64_def)
  then have res: "res = Inr (2, True)"
    using run n(5) by (auto simp: st_enforceRetention_def Index_prune_def Mem_Prune_def Let_def)
  from object_retention_safe [OF map_store_ok mem_index_ok n(2) i32 i32 run n(1,4)] res n(1) run show ?thesis by auto
qed

end
