(* ===== verification/Offset_Store.thy ===== *)
theory Offset_Store
  imports Gostd "HOL-Library.AList" "HOL-Library.Finite_Map" "HOL-Library.Sublist" "HOL-Library.List_Lexorder"
    "HOL-Library.Char_ord"
begin

text \<open>
  \<open>internal/group/offsets.go\<close>: the committed offsets of the consumer groups, one file per partition
  under \<open>__offsets/<group>/<topic>-<partition>\<close>, and the cache over them. The file system is a tree of
  files addressed by the components of their cleaned path; a directory is a path with a file below
  it. Writes fail where a directory is in the way of a file or a file in the way of a directory.
\<close>

section \<open>A tree of files\<close>

type_synonym path = "string list"
type_synonym tree = "(path \<times> bytes) list"

definition is_file :: "tree \<Rightarrow> path \<Rightarrow> bool" where
  "is_file fs p = (map_of fs p \<noteq> None)"

definition is_dir :: "tree \<Rightarrow> path \<Rightarrow> bool" where
  "is_dir fs p = list_ex (\<lambda>(q, _). strict_prefix p q) fs"

text \<open>\<open>filepath.Join(p, s)\<close> for a cleaned rooted path \<open>p\<close>: empty components and \<open>.\<close> vanish, \<open>..\<close> goes up.\<close>

fun clean_path :: "path \<Rightarrow> string list \<Rightarrow> path" where
  "clean_path acc [] = rev acc"
| "clean_path acc (c # cs) =
     clean_path (if c = [] \<or> c = ''.'' then acc else if c = ''..'' then tl acc else c # acc) cs"

definition path_join :: "path \<Rightarrow> string \<Rightarrow> path" where
  "path_join p s = clean_path (rev p) (split_char (CHR ''/'') s)"

text \<open>\<open>os.MkdirAll\<close> succeeds when no component of the path is a file.\<close>

definition mkdir_ok :: "tree \<Rightarrow> path \<Rightarrow> bool" where
  "mkdir_ok fs p = list_all (\<lambda>q. \<not> is_file fs q) (prefixes p)"

text \<open>\<open>os.ReadDir\<close>: the names in a directory, sorted.\<close>

definition read_dir :: "tree \<Rightarrow> path \<Rightarrow> string list" where
  "read_dir fs p = sort (remdups (List.map_filter (\<lambda>(q, _). if strict_prefix p q then Some (q ! length p) else None) fs))"

section \<open>The store\<close>

record offsetKey =
  k_group :: string
  k_topic :: string
  k_partition :: int

record committed =
  cm_offset :: int
  cm_metadata :: string

record OffsetStore =
  os_root :: path
  os_cache :: "(offsetKey, committed) fmap"

abbreviation okey :: "string \<Rightarrow> string \<Rightarrow> int \<Rightarrow> offsetKey" where
  "okey g t p \<equiv> \<lparr>k_group = g, k_topic = t, k_partition = p\<rparr>"

definition encodeCommit :: "int \<Rightarrow> string \<Rightarrow> bytes" where
  "encodeCommit off meta = be_bytes 8 (u64 off) @ be_bytes 4 (u32 (int (length meta))) @ bytes_of_string meta"

definition decodeCommit :: "bytes \<Rightarrow> (int \<times> string) option" where
  "decodeCommit b =
     (if length b < 12 then None
      else
        let off = i64 (be_uint (take 8 b)); mlen = nat (be_uint (take 4 (drop 8 b))) in
        if 12 + mlen > length b then Some (off, [])
        else Some (off, string_of_bytes (take mlen (drop 12 b))))"

text \<open>\<open>writeAtomic\<close>: a temporary file beside the target, renamed onto it. \<open>made\<close> is the directory just
  created.\<close>

definition tmp_path :: "path \<Rightarrow> path" where
  "tmp_path p = butlast p @ [last p @ ''.tmp'']"

definition writeAtomic :: "path \<Rightarrow> tree \<Rightarrow> path \<Rightarrow> bytes \<Rightarrow> goerror option \<times> tree" where
  "writeAtomic made fs p data =
     (let tmp = tmp_path p in
      if \<not> (is_dir fs (butlast p) \<or> prefix (butlast p) made) then (Some ErrNotExist, fs)
      else if is_dir fs tmp then (Some ErrStore, fs)
      else
        let fs1 = AList.update tmp data fs in
        if is_dir fs1 p then (Some ErrStore, fs1)
        else (None, AList.update p data (AList.delete tmp fs1)))"

definition offset_file :: "string \<Rightarrow> int \<Rightarrow> string" where
  "offset_file topic p = topic @ ''-'' @ itoa p"

definition Commit :: "OffsetStore \<Rightarrow> tree \<Rightarrow> string \<Rightarrow> string \<Rightarrow> int \<Rightarrow> int \<Rightarrow> string \<Rightarrow>
    goerror option \<times> OffsetStore \<times> tree" where
  "Commit s fs grp topic p off meta =
     (let d = path_join (os_root s) grp in
      if \<not> mkdir_ok fs d then (Some ErrStore, s, fs)
      else
        (case writeAtomic d fs (path_join d (offset_file topic p)) (encodeCommit off meta) of
           (Some e, fs') \<Rightarrow> (Some e, s, fs')
         | (None, fs') \<Rightarrow>
             (None, s\<lparr>os_cache := fmupd (okey grp topic p) \<lparr>cm_offset = off, cm_metadata = meta\<rparr> (os_cache s)\<rparr>, fs')))"

definition OffsetStore_Fetch :: "OffsetStore \<Rightarrow> string \<Rightarrow> string \<Rightarrow> int \<Rightarrow> int \<times> string \<times> bool" where
  "OffsetStore_Fetch s grp topic p =
     (case fmlookup (os_cache s) (okey grp topic p) of
        None \<Rightarrow> (-1, [], False)
      | Some c \<Rightarrow> (cm_offset c, cm_metadata c, True))"

text \<open>The iteration order of a Go map is unspecified; \<open>order\<close> is the order in which the cache is walked.\<close>

definition ListCommitted ::
  "((offsetKey, committed) fmap \<Rightarrow> offsetKey list) \<Rightarrow> OffsetStore \<Rightarrow> (string \<times> string \<times> int \<times> int) list" where
  "ListCommitted order s =
     map (\<lambda>k. (k_group k, k_topic k, k_partition k, cm_offset (the (fmlookup (os_cache s) k)))) (order (os_cache s))"

text \<open>What \<open>load\<close> reads from the file \<open>f\<close> of the group directory \<open>g\<close>.\<close>

definition load_entry :: "path \<Rightarrow> tree \<Rightarrow> string \<times> string \<Rightarrow> (offsetKey \<times> committed) option" where
  "load_entry root fs gf =
     (let (g, f) = gf in
      if is_dir fs (root @ [g, f]) \<or> has_suffix f ''.tmp'' then None
      else case last_index_char (CHR ''-'') f of
        None \<Rightarrow> None
      | Some i \<Rightarrow>
          (case parse_int (drop (i + 1) f) of
             None \<Rightarrow> None
           | Some p \<Rightarrow>
               (case map_of fs (root @ [g, f]) of
                  None \<Rightarrow> None
                | Some data \<Rightarrow>
                    (case decodeCommit data of
                       None \<Rightarrow> None
                     | Some (off, meta) \<Rightarrow>
                         Some (okey g (take i f) (i32 p), \<lparr>cm_offset = off, cm_metadata = meta\<rparr>)))))"

definition load_files :: "path \<Rightarrow> tree \<Rightarrow> (string \<times> string) list" where
  "load_files root fs =
     concat (map (\<lambda>g. if is_dir fs (root @ [g]) then map (Pair g) (read_dir fs (root @ [g])) else []) (read_dir fs root))"

definition load :: "path \<Rightarrow> tree \<Rightarrow> (offsetKey, committed) fmap" where
  "load root fs = fold (\<lambda>gf m. case load_entry root fs gf of None \<Rightarrow> m | Some (k, c) \<Rightarrow> fmupd k c m) (load_files root fs) fmempty"

definition NewOffsetStore :: "path \<Rightarrow> tree \<Rightarrow> goerror + OffsetStore" where
  "NewOffsetStore dataDir fs =
     (let root = path_join dataDir ''__offsets'' in
      if \<not> mkdir_ok fs root then Inl ErrStore else Inr \<lparr>os_root = root, os_cache = load root fs\<rparr>)"

section \<open>Encoding and file names\<close>

definition commit_ok :: "committed \<Rightarrow> bool" where
  "commit_ok c \<longleftrightarrow> in_i64 (cm_offset c) \<and> int (length (cm_metadata c)) < 2 ^ 32"

lemma decode_encode_commit:
  "commit_ok c \<Longrightarrow> decodeCommit (encodeCommit (cm_offset c) (cm_metadata c)) = Some (cm_offset c, cm_metadata c)"
  by (simp add: commit_ok_def decodeCommit_def encodeCommit_def u64_def u32_def i64_id Let_def)

definition plain :: "string \<Rightarrow> bool" where
  "plain s \<longleftrightarrow> s \<noteq> [] \<and> CHR ''/'' \<notin> set s \<and> s \<noteq> ''.'' \<and> s \<noteq> ''..''"

definition key_ok :: "offsetKey \<Rightarrow> bool" where
  "key_ok k \<longleftrightarrow> plain (k_group k) \<and> CHR ''/'' \<notin> set (k_topic k) \<and> 0 \<le> k_partition k \<and> k_partition k < 2 ^ 31"

definition key_file :: "offsetKey \<Rightarrow> string" where
  "key_file k = offset_file (k_topic k) (k_partition k)"

definition key_path :: "path \<Rightarrow> offsetKey \<Rightarrow> path" where
  "key_path root k = root @ [k_group k, key_file k]"

lemma split_char_single: "c \<notin> set s \<Longrightarrow> split_char c s = [s]"
  by (induction s) auto

lemma path_join_plain [simp]: "plain s \<Longrightarrow> path_join p s = p @ [s]"
  by (simp add: path_join_def plain_def split_char_single)

lemma itoa_chars: "0 \<le> p \<Longrightarrow> c \<in> set (itoa p) \<Longrightarrow> \<exists>d<10. c = digit_char d"
  by (auto simp: itoa_def dest: show_nat_digits)

lemma itoa_digits:
  assumes "0 \<le> p"
  shows "CHR ''/'' \<notin> set (itoa p)" "CHR ''p'' \<notin> set (itoa p)" "itoa p \<noteq> []"
proof -
  have "digit_char d \<noteq> CHR ''/'' \<and> digit_char d \<noteq> CHR ''p''" if "d < 10" for d
  proof -
    have "of_char (digit_char d) = 48 + d" using that by (simp add: digit_char_def)
    moreover have "of_char (CHR ''/'') = (47 :: nat)" "of_char (CHR ''p'') = (112 :: nat)" by simp_all
    ultimately have "of_char (digit_char d) \<noteq> (of_char (CHR ''/'') :: nat)"
      "of_char (digit_char d) \<noteq> (of_char (CHR ''p'') :: nat)" using that by linarith+
    then show ?thesis by metis
  qed
  then show "CHR ''/'' \<notin> set (itoa p)" "CHR ''p'' \<notin> set (itoa p)" using itoa_chars [OF assms] by metis+
  show "itoa p \<noteq> []" using assms by (simp add: itoa_def)
qed

lemma plain_offset_file: "CHR ''/'' \<notin> set t \<Longrightarrow> 0 \<le> p \<Longrightarrow> plain (offset_file t p)"
  by (auto simp: plain_def offset_file_def itoa_digits append_eq_Cons_conv Cons_eq_append_conv)

lemma offset_file_not_tmp: "0 \<le> p \<Longrightarrow> \<not> has_suffix (offset_file t p) ''.tmp''"
proof
  assume p: "0 \<le> p" and "has_suffix (offset_file t p) ''.tmp''"
  then have "last (offset_file t p) = CHR ''p''" by (auto simp: has_suffix_iff)
  moreover have "last (offset_file t p) \<in> set (itoa p)" using itoa_digits(3) [OF p] by (simp add: offset_file_def)
  ultimately show False using itoa_digits(2) [OF p] by simp
qed

lemma parse_offset_file:
  assumes "0 \<le> p" and "p < 2 ^ 31"
  shows "last_index_char (CHR ''-'') (offset_file t p) = Some (length t)"
    and "parse_int (drop (length t + 1) (offset_file t p)) = Some p"
    and "take (length t) (offset_file t p) = t"
  using assms
  by (simp_all add: offset_file_def last_index_char_split itoa_no_minus parse_int_itoa in_i64_def)

section \<open>Reloading the store\<close>

text \<open>The cache and the files agree: below the root there are only temporary files and the files of the
  cached offsets.\<close>

definition store_inv :: "path \<Rightarrow> tree \<Rightarrow> (offsetKey, committed) fmap \<Rightarrow> bool" where
  "store_inv root fs cache \<longleftrightarrow>
     (\<forall>q. prefix q root \<longrightarrow> map_of fs q = None)
   \<and> (\<forall>q data. map_of fs q = Some data \<longrightarrow> strict_prefix root q \<longrightarrow>
        (\<exists>g f. plain g \<and> q = root @ [g, f] \<and> (has_suffix f ''.tmp'' \<or>
           (\<exists>k c. key_ok k \<and> commit_ok c \<and> q = key_path root k \<and> data = encodeCommit (cm_offset c) (cm_metadata c)
              \<and> fmlookup cache k = Some c))))
   \<and> (\<forall>k c. fmlookup cache k = Some c \<longrightarrow> key_ok k \<and> commit_ok c
        \<and> map_of fs (key_path root k) = Some (encodeCommit (cm_offset c) (cm_metadata c)))"

lemma store_invD:
  assumes "store_inv root fs cache"
  shows "prefix q root \<Longrightarrow> map_of fs q = None"
    "map_of fs q = Some data \<Longrightarrow> strict_prefix root q \<Longrightarrow> \<exists>g f. plain g \<and> q = root @ [g, f] \<and> (has_suffix f ''.tmp'' \<or>
       (\<exists>k c. key_ok k \<and> commit_ok c \<and> q = key_path root k \<and> data = encodeCommit (cm_offset c) (cm_metadata c)
          \<and> fmlookup cache k = Some c))"
    "fmlookup cache k = Some c \<Longrightarrow> key_ok k \<and> commit_ok c
       \<and> map_of fs (key_path root k) = Some (encodeCommit (cm_offset c) (cm_metadata c))"
  using assms unfolding store_inv_def by blast+

lemma fold_load:
  assumes "\<forall>x \<in> set xs. \<forall>k v. e x = Some (k, v) \<longrightarrow> fmlookup cache k = Some v"
  shows "fmlookup (fold (\<lambda>x m. case e x of None \<Rightarrow> m | Some (k, v) \<Rightarrow> fmupd k v m) xs m) k =
    (if \<exists>x \<in> set xs. \<exists>v. e x = Some (k, v) then fmlookup cache k else fmlookup m k)"
  using assms
proof (induction xs arbitrary: m)
  case (Cons x xs)
  then show ?case by (cases "e x") (auto split: prod.splits)
qed simp

lemma in_keys_iff: "(\<exists>data. (q, data) \<in> set fs) \<longleftrightarrow> (\<exists>data. map_of fs q = Some data)"
  by (meson map_of_SomeD weak_map_of_SomeI)

lemma read_dir_iff:
  "f \<in> set (read_dir fs p) \<longleftrightarrow> (\<exists>q data. map_of fs q = Some data \<and> strict_prefix p q \<and> f = q ! length p)"
proof -
  have "f \<in> set (read_dir fs p) \<longleftrightarrow> (\<exists>q. (\<exists>data. (q, data) \<in> set fs) \<and> strict_prefix p q \<and> f = q ! length p)"
    by (auto simp: read_dir_def set_map_filter_iff split: if_splits) force+
  then show ?thesis by (auto simp: in_keys_iff)
qed

lemma is_dir_iff: "is_dir fs p \<longleftrightarrow> (\<exists>q data. map_of fs q = Some data \<and> strict_prefix p q)"
proof -
  have "is_dir fs p \<longleftrightarrow> (\<exists>q. (\<exists>data. (q, data) \<in> set fs) \<and> strict_prefix p q)"
    by (force simp: is_dir_def list_ex_iff)
  then show ?thesis by (auto simp: in_keys_iff)
qed

lemma strict_prefix_append [simp]: "strict_prefix p (p @ q) \<longleftrightarrow> q \<noteq> []"
  by (auto simp: strict_prefix_def)

lemma no_dir_below:
  assumes "store_inv root fs cache"
  shows "\<not> is_dir fs (root @ [g, f])"
proof
  assume "is_dir fs (root @ [g, f])"
  then obtain q data where q: "map_of fs q = Some data" "strict_prefix (root @ [g, f]) q" by (auto simp: is_dir_iff)
  then have "strict_prefix root q" by (meson prefix_order.less_le_trans prefix_order.less_imp_le prefixI prefix_order.le_less_trans)
  from store_invD(2) [OF assms q(1) this] obtain g' f' where "q = root @ [g', f']" by blast
  with prefix_length_less [OF q(2)] show False by simp
qed

lemma load_entry_key:
  assumes "store_inv root fs cache" and "fmlookup cache k = Some c"
  shows "load_entry root fs (k_group k, key_file k) = Some (k, c)"
proof -
  note k = store_invD(3) [OF assms]
  then have "0 \<le> k_partition k" "k_partition k < 2 ^ 31" by (auto simp: key_ok_def)
  note p = parse_offset_file [OF this] offset_file_not_tmp [OF this(1)]
  have "i32 (k_partition k) = k_partition k"
    using \<open>0 \<le> k_partition k\<close> \<open>k_partition k < 2 ^ 31\<close> by (intro i32_id) (simp add: in_i32_def)
  moreover have "map_of fs (root @ [k_group k, key_file k]) = Some (encodeCommit (cm_offset c) (cm_metadata c))"
    using k by (simp add: key_path_def)
  moreover have "decodeCommit (encodeCommit (cm_offset c) (cm_metadata c)) = Some (cm_offset c, cm_metadata c)"
    using k decode_encode_commit by blast
  ultimately show ?thesis
    using p no_dir_below [OF assms(1)] by (simp add: load_entry_def key_file_def)
qed

lemma load_entry_cached:
  assumes "store_inv root fs cache" and "load_entry root fs gf = Some (k, c)"
  shows "fmlookup cache k = Some c"
proof -
  obtain g f where gf: "gf = (g, f)" by fastforce
  from assms(2) obtain data where data: "map_of fs (root @ [g, f]) = Some data" "\<not> has_suffix f ''.tmp''"
    by (auto simp: load_entry_def gf split: if_splits option.splits)
  from store_invD(2) [OF assms(1) data(1)] data(2) obtain k' c'
    where k': "root @ [g, f] = key_path root k'" "fmlookup cache k' = Some c'" by auto
  then have "gf = (k_group k', key_file k')" by (simp add: gf key_path_def)
  with load_entry_key [OF assms(1) k'(2)] assms(2) k'(2) show ?thesis by simp
qed

lemma load_store_inv:
  assumes "store_inv root fs cache"
  shows "load root fs = cache"
proof (rule fmap_ext)
  fix k
  have "\<exists>x \<in> set (load_files root fs). \<exists>v. load_entry root fs x = Some (k, v)" if c: "fmlookup cache k = Some c" for c
  proof -
    from store_invD(3) [OF assms c] have "map_of fs (root @ [k_group k, key_file k]) = Some (encodeCommit (cm_offset c) (cm_metadata c))"
      by (simp add: key_path_def)
    then have "k_group k \<in> set (read_dir fs root)" "is_dir fs (root @ [k_group k])"
      "key_file k \<in> set (read_dir fs (root @ [k_group k]))"
      unfolding read_dir_iff is_dir_iff by (force simp: nth_append strict_prefix_def)+
    then have "(k_group k, key_file k) \<in> set (load_files root fs)" by (force simp: load_files_def)
    with load_entry_key [OF assms c] show ?thesis by blast
  qed
  then show "fmlookup (load root fs) k = fmlookup cache k"
    unfolding load_def
    by (subst fold_load [where cache = cache]) (use load_entry_cached [OF assms] in \<open>auto split: if_splits, cases "fmlookup cache k", auto\<close>)
qed

section \<open>Commits\<close>

lemma key_path_inj:
  assumes "key_ok k" and "key_ok k'" and "key_path root k = key_path root k'"
  shows "k = k'"
proof -
  have p: "0 \<le> k_partition k" "k_partition k < 2 ^ 31" "0 \<le> k_partition k'" "k_partition k' < 2 ^ 31"
    using assms(1,2) by (auto simp: key_ok_def)
  from assms(3) have g: "k_group k = k_group k'"
    and f: "offset_file (k_topic k) (k_partition k) = offset_file (k_topic k') (k_partition k')"
    by (simp_all add: key_path_def key_file_def)
  from parse_offset_file [OF p(1,2), of "k_topic k"] parse_offset_file [OF p(3,4), of "k_topic k'"] f
  have "k_topic k = k_topic k'" "k_partition k = k_partition k'" by auto
  with g show ?thesis by simp
qed

lemma key_not_tmp: "key_ok k \<Longrightarrow> \<not> has_suffix (key_file k) ''.tmp''"
  by (simp add: key_ok_def key_file_def offset_file_not_tmp)

lemma store_inv_tmp:
  assumes "store_inv root fs cache" and "plain g" and "has_suffix f ''.tmp''"
  shows "store_inv root (AList.update (root @ [g, f]) data fs) cache" "store_inv root (AList.delete (root @ [g, f]) fs) cache"
proof -
  have "key_path root k \<noteq> root @ [g, f]" if "fmlookup cache k = Some c" for k c
    using key_not_tmp store_invD(3) [OF assms(1) that] assms(3) by (auto simp: key_path_def)
  then show "store_inv root (AList.update (root @ [g, f]) data fs) cache" "store_inv root (AList.delete (root @ [g, f]) fs) cache"
    using assms unfolding store_inv_def by (auto simp: update_conv' delete_conv' restrict_map_def prefix_def split: if_splits)
qed

lemma store_inv_commit:
  assumes "store_inv root fs cache" and "key_ok k" and "commit_ok c"
  shows "store_inv root (AList.update (key_path root k) (encodeCommit (cm_offset c) (cm_metadata c)) fs) (fmupd k c cache)"
    (is "store_inv root ?fs ?cache")
proof -
  have "map_of ?fs q = None" if "prefix q root" for q
    using store_invD(1) [OF assms(1) that] that by (auto simp: update_conv' key_path_def prefix_def)
  moreover have "\<exists>g f. plain g \<and> q = root @ [g, f] \<and> (has_suffix f ''.tmp'' \<or>
       (\<exists>k c. key_ok k \<and> commit_ok c \<and> q = key_path root k \<and> data = encodeCommit (cm_offset c) (cm_metadata c)
          \<and> fmlookup ?cache k = Some c))" if q: "map_of ?fs q = Some data" "strict_prefix root q" for q data
  proof (cases "q = key_path root k")
    case True
    with q assms(2,3) show ?thesis by (auto simp: update_conv' key_path_def key_ok_def intro!: exI [of _ k] exI [of _ c])
  next
    case False
    with q(1) have "map_of fs q = Some data" by (simp add: update_conv')
    from store_invD(2) [OF assms(1) this q(2)] False show ?thesis by auto
  qed
  moreover have "key_ok k' \<and> commit_ok c' \<and> map_of ?fs (key_path root k') = Some (encodeCommit (cm_offset c') (cm_metadata c'))"
    if "fmlookup ?cache k' = Some c'" for k' c'
  proof (cases "k' = k")
    case False
    with that have c': "fmlookup cache k' = Some c'" by simp
    note i = store_invD(3) [OF assms(1) c']
    then have "key_path root k' \<noteq> key_path root k" using key_path_inj assms(2) False by metis
    with i show ?thesis by (simp add: update_conv')
  qed (use that assms in \<open>auto simp: update_conv'\<close>)
  ultimately show ?thesis unfolding store_inv_def by blast
qed

abbreviation commit_bytes :: "committed \<Rightarrow> bytes" where
  "commit_bytes c \<equiv> encodeCommit (cm_offset c) (cm_metadata c)"

lemma tmp_key_path: "tmp_path (key_path root k) = root @ [k_group k, key_file k @ ''.tmp'']"
  by (simp add: tmp_path_def key_path_def butlast_append)

lemma no_file_above:
  assumes "store_inv root fs cache" and "prefix q (root @ [g])"
  shows "map_of fs q = None"
proof (cases "q = root @ [g]")
  case True
  show ?thesis
  proof (rule ccontr)
    assume "map_of fs q \<noteq> None"
    then obtain data where "map_of fs q = Some data" by auto
    from store_invD(2) [OF assms(1) this] True show False by auto
  qed
next
  case False
  with assms(2) have "prefix q root" by (auto simp: prefix_def append_eq_append_conv2 Cons_eq_append_conv append_eq_Cons_conv)
  then show ?thesis by (rule store_invD(1) [OF assms(1)])
qed

lemma Commit_ok:
  assumes inv: "store_inv (os_root s) fs (os_cache s)" and k: "key_ok (okey g t p)"
    and c: "commit_ok \<lparr>cm_offset = off, cm_metadata = meta\<rparr>"
  shows "\<exists>fs'. Commit s fs g t p off meta =
      (None, s\<lparr>os_cache := fmupd (okey g t p) \<lparr>cm_offset = off, cm_metadata = meta\<rparr> (os_cache s)\<rparr>, fs')
    \<and> store_inv (os_root s) fs' (fmupd (okey g t p) \<lparr>cm_offset = off, cm_metadata = meta\<rparr> (os_cache s))"
proof -
  let ?k = "okey g t p" and ?c = "\<lparr>cm_offset = off, cm_metadata = meta\<rparr>" and ?root = "os_root s"
  let ?tmp = "?root @ [g, key_file ?k @ ''.tmp'']" and ?path = "key_path ?root ?k"
  from k have pg: "plain g" and pf: "plain (offset_file t p)" by (auto simp: key_ok_def plain_offset_file)
  have d: "path_join ?root g = ?root @ [g]" "path_join (?root @ [g]) (offset_file t p) = ?path"
    using pg pf by (simp_all add: key_path_def key_file_def)
  have mk: "mkdir_ok fs (?root @ [g])"
    using no_file_above [OF inv] by (auto simp: mkdir_ok_def list_all_iff is_file_def in_set_prefixes)
  let ?fs1 = "AList.update ?tmp (encodeCommit off meta) fs"
  have fs1: "store_inv ?root ?fs1 (os_cache s)"
    by (rule store_inv_tmp(1) [OF inv pg]) simp
  then have fs2: "store_inv ?root (AList.delete ?tmp ?fs1) (os_cache s)"
    by (rule store_inv_tmp(2) [OF _ pg]) simp
  have dirs: "\<not> is_dir fs ?tmp" "\<not> is_dir ?fs1 ?path" "butlast ?path = ?root @ [g]"
    using no_dir_below [OF inv] no_dir_below [OF fs1] by (simp_all add: key_path_def butlast_append)
  have "writeAtomic (?root @ [g]) fs ?path (encodeCommit off meta) =
      (None, AList.update ?path (encodeCommit off meta) (AList.delete ?tmp ?fs1))"
    using dirs by (simp add: writeAtomic_def Let_def tmp_key_path)
  then have "Commit s fs g t p off meta = (None, s\<lparr>os_cache := fmupd ?k ?c (os_cache s)\<rparr>,
      AList.update ?path (encodeCommit off meta) (AList.delete ?tmp ?fs1))"
    using mk by (simp add: Commit_def d)
  with store_inv_commit [OF fs2 k c] show ?thesis by simp
qed

text \<open>C17: a commit of a plain group and topic name is durable and atomic. It succeeds, is fetched back,
  leaves the other offsets alone, and reloading the directory yields exactly the new cache; a crash
  before the rename, with any part of the temporary file written, reloads the old cache.\<close>

theorem offset_commit_durable:
  assumes "store_inv (os_root s) fs (os_cache s)" and "key_ok (okey g t p)"
    and "commit_ok \<lparr>cm_offset = off, cm_metadata = meta\<rparr>"
  shows "\<exists>s' fs'. Commit s fs g t p off meta = (None, s', fs') \<and> OffsetStore_Fetch s' g t p = (off, meta, True)
    \<and> os_cache s' = fmupd (okey g t p) \<lparr>cm_offset = off, cm_metadata = meta\<rparr> (os_cache s)
    \<and> store_inv (os_root s') fs' (os_cache s') \<and> load (os_root s) fs' = os_cache s'
    \<and> load (os_root s) (AList.update (tmp_path (key_path (os_root s) (okey g t p))) (take n (encodeCommit off meta)) fs)
        = os_cache s"
proof -
  have "store_inv (os_root s) (AList.update (os_root s @ [g, key_file (okey g t p) @ ''.tmp'']) d fs) (os_cache s)" for d
    using assms(2) by (intro store_inv_tmp(1) [OF assms(1)]) (simp_all add: key_ok_def)
  then have "load (os_root s) (AList.update (tmp_path (key_path (os_root s) (okey g t p))) d fs) = os_cache s" for d
    by (simp add: tmp_key_path load_store_inv)
  with Commit_ok [OF assms] load_store_inv show ?thesis by (fastforce simp: OffsetStore_Fetch_def)
qed

lemma empty_store_inv: "store_inv root [] fmempty"
  by (simp add: store_inv_def)

theorem offset_commit_durable_witness:
  "\<exists>s s' fs'. s = \<lparr>os_root = [''d'', ''__offsets''], os_cache = fmempty\<rparr> \<and> Commit s [] ''g'' ''t-1'' 0 42 ''m'' = (None, s', fs')
     \<and> load (os_root s) fs' = os_cache s' \<and> OffsetStore_Fetch s' ''g'' ''t-1'' 0 = (42, ''m'', True)"
proof -
  let ?s = "\<lparr>os_root = [''d'', ''__offsets''], os_cache = fmempty\<rparr>"
  have "store_inv (os_root ?s) [] (os_cache ?s)" "key_ok (okey ''g'' ''t-1'' 0)"
    "commit_ok \<lparr>cm_offset = 42, cm_metadata = ''m''\<rparr>"
    by (simp_all add: empty_store_inv key_ok_def plain_def commit_ok_def in_i64_def)
  from offset_commit_durable [OF this, of 3] show ?thesis by blast
qed

text \<open>Names outside this range do not survive a restart: the file of partition \<open>-1\<close> of topic \<open>t\<close> reads
  back as partition \<open>1\<close> of topic \<open>t-\<close>, and a group name with a separator is not found again.\<close>

lemma negative_partition_renamed:
  "load [''o''] (snd (snd (Commit \<lparr>os_root = [''o''], os_cache = fmempty\<rparr> [] ''g'' ''t'' (-1) 7 [])))
     = fmupd (okey ''g'' ''t-'' 1) \<lparr>cm_offset = 7, cm_metadata = []\<rparr> fmempty"
  by code_simp

lemma nested_group_lost:
  "load [''o''] (snd (snd (Commit \<lparr>os_root = [''o''], os_cache = fmempty\<rparr> [] ''a/b'' ''t'' 0 7 []))) = fmempty"
  by code_simp

text \<open>A group name is used as a path: \<open>..\<close> writes outside the offsets directory.\<close>

lemma group_name_escapes:
  "is_file (snd (snd (Commit \<lparr>os_root = [''d'', ''o''], os_cache = fmempty\<rparr> [] ''..'' ''t'' 0 7 []))) [''d'', ''t-0'']"
  by code_simp

end
