(* ===== verification/Node_Logs.thy ===== *)
theory Node_Logs
  imports Object_Retention Offset_Store
begin

text \<open>
  The partition logs of one node behind the interface \<open>storage.Backend\<close>
  (\<open>internal/storage/backend.go\<close>): a record of its methods over the storage state \<open>'s\<close> of the node,
  with the key (topic, partition) for the handle. The file logs and the object logs implement it.
  The contract is a refinement: \<open>view\<close> maps the storage to the abstract logs of the open partitions,
  and every method acts on one of them as specified and leaves the others alone.
\<close>

section \<open>The interface\<close>

type_synonym tpKey = "string \<times> int"

text \<open>In \<open>be_Open\<close>, which is \<open>storage.Open\<close> or \<open>Storage.Log\<close>, \<open>None\<close> is a recovery that does not end.\<close>

record 's Backend_ops =
  be_Open :: "'s \<Rightarrow> tpKey \<Rightarrow> (goerror option \<times> 's) option"
  be_Append :: "'s \<Rightarrow> tpKey \<Rightarrow> bytes \<Rightarrow> (int \<times> goerror option \<times> 's) go"
  be_AppendReplica :: "'s \<Rightarrow> tpKey \<Rightarrow> bytes \<Rightarrow> int \<times> goerror option \<times> 's"
  be_Read :: "'s \<Rightarrow> tpKey \<Rightarrow> int \<Rightarrow> int \<Rightarrow> (bytes \<times> goerror option) go option"
  be_HighWatermark :: "'s \<Rightarrow> tpKey \<Rightarrow> int"
  be_SetHighWatermark :: "'s \<Rightarrow> tpKey \<Rightarrow> int \<Rightarrow> 's"
  be_HoldHighWatermark :: "'s \<Rightarrow> tpKey \<Rightarrow> 's"
  be_OffsetForTimestamp :: "'s \<Rightarrow> tpKey \<Rightarrow> int \<Rightarrow> (int \<times> bool) go option"
  be_EarliestOffset :: "'s \<Rightarrow> tpKey \<Rightarrow> int"
  be_LatestOffset :: "'s \<Rightarrow> tpKey \<Rightarrow> int"
  be_Size :: "'s \<Rightarrow> tpKey \<Rightarrow> int"
  be_Flush :: "'s \<Rightarrow> tpKey \<Rightarrow> goerror option \<times> 's"
  be_EnforceRetention :: "'s \<Rightarrow> tpKey \<Rightarrow> int \<Rightarrow> int \<Rightarrow> goerror option \<times> 's"

section \<open>File logs\<close>

text \<open>The open logs, and the directories as they are found when a partition is opened.\<close>

record file_node =
  fn_root :: path
  fn_cfg :: Config
  fn_dirs :: "(path, dir) fmap"
  fn_logs :: "(tpKey, Log) fmap"

definition partitionDir :: "path \<Rightarrow> tpKey \<Rightarrow> path" where
  "partitionDir root = (\<lambda>(topic, p). path_join root (topic @ ''-'' @ itoa p))"

definition found_dir :: "file_node \<Rightarrow> tpKey \<Rightarrow> dir" where
  "found_dir n k = (case fmlookup (fn_dirs n) (partitionDir (fn_root n) k) of None \<Rightarrow> [] | Some d \<Rightarrow> d)"

abbreviation file_log_at :: "file_node \<Rightarrow> tpKey \<Rightarrow> Log" where
  "file_log_at n k \<equiv> the (fmlookup (fn_logs n) k)"

definition set_log :: "file_node \<Rightarrow> tpKey \<Rightarrow> Log \<Rightarrow> file_node" where
  "set_log n k l = n\<lparr>fn_logs := fmupd k l (fn_logs n)\<rparr>"

text \<open>\<open>now\<close> and \<open>mtime\<close> are the clock and the modification times that retention looks at.\<close>

definition file_backend :: "int \<Rightarrow> (tpKey \<Rightarrow> segment \<Rightarrow> int option) \<Rightarrow> file_node Backend_ops" where
  "file_backend now mtime =
     \<lparr>be_Open = (\<lambda>n k. case Open (found_dir n k) (fn_cfg n) of
          None \<Rightarrow> None
        | Some (Inl e) \<Rightarrow> Some (Some e, n)
        | Some (Inr l) \<Rightarrow> Some (None, set_log n k l)),
      be_Append = (\<lambda>n k b. go_bind (Append (file_log_at n k) b) (\<lambda>(off, e, l). Ret (off, e, set_log n k l))),
      be_AppendReplica = (\<lambda>n k b. case AppendReplica (file_log_at n k) b of (off, e, l) \<Rightarrow> (off, e, set_log n k l)),
      be_Read = (\<lambda>n k off maxBytes. Read (file_log_at n k) off maxBytes),
      be_HighWatermark = (\<lambda>n k. HighWatermark (file_log_at n k)),
      be_SetHighWatermark = (\<lambda>n k h. set_log n k (SetHighWatermark (file_log_at n k) h)),
      be_HoldHighWatermark = (\<lambda>n k. set_log n k (HoldHighWatermark (file_log_at n k))),
      be_OffsetForTimestamp = (\<lambda>n k ts. map_option Ret (OffsetForTimestamp (file_log_at n k) ts)),
      be_EarliestOffset = (\<lambda>n k. EarliestOffset (file_log_at n k)),
      be_LatestOffset = (\<lambda>n k. LatestOffset (file_log_at n k)),
      be_Size = (\<lambda>n k. Size (file_log_at n k)),
      be_Flush = (\<lambda>n k. (None, set_log n k (Flush (file_log_at n k)))),
      be_EnforceRetention = (\<lambda>n k maxAgeMs maxBytes.
        (None, set_log n k (EnforceRetention (file_log_at n k) now (mtime k) maxAgeMs maxBytes)))\<rparr>"

section \<open>Object logs\<close>

text \<open>The handles of the open partitions over the shared storage of the node.\<close>

record ('o, 'i) object_node =
  on_storage :: "('o, 'i) Storage"
  on_logs :: "(tpKey, ObjectLog) fmap"

abbreviation olog_at :: "('o, 'i) object_node \<Rightarrow> tpKey \<Rightarrow> ('o, 'i) olog" where
  "olog_at n k \<equiv> (the (fmlookup (on_logs n) k), on_storage n)"

definition set_olog :: "('o, 'i) object_node \<Rightarrow> tpKey \<Rightarrow> ('o, 'i) olog \<Rightarrow> ('o, 'i) object_node" where
  "set_olog n k = (\<lambda>(l, st). n\<lparr>on_storage := st, on_logs := fmupd k l (on_logs n)\<rparr>)"

text \<open>\<open>nowMs\<close> is the clock of retention, \<open>syncErr\<close> the outcome of the sync of the write-ahead log.\<close>

definition object_backend :: "'o ObjectStore \<Rightarrow> 'i IndexStore \<Rightarrow> int \<Rightarrow> goerror option \<Rightarrow> ('o, 'i) object_node Backend_ops" where
  "object_backend O' I nowMs syncErr =
     \<lparr>be_Open = (\<lambda>n k. case Storage_Log I (on_storage n) (fst k) (snd k) of
          Inl e \<Rightarrow> Some (Some e, n)
        | Inr ol \<Rightarrow> Some (None, set_olog n k ol)),
      be_Append = (\<lambda>n k b. go_bind (ObjectLog_Append (olog_at n k) b) (\<lambda>(off, e, ol). Ret (off, e, set_olog n k ol))),
      be_AppendReplica = (\<lambda>n k b. case ObjectLog_AppendReplica (olog_at n k) b of (off, e, ol) \<Rightarrow> (off, e, set_olog n k ol)),
      be_Read = (\<lambda>n k off maxBytes. ObjectLog_Read O' (olog_at n k) off maxBytes),
      be_HighWatermark = (\<lambda>n k. ObjectLog_HighWatermark (olog_at n k)),
      be_SetHighWatermark = (\<lambda>n k h. set_olog n k (ObjectLog_SetHighWatermark (olog_at n k) h)),
      be_HoldHighWatermark = (\<lambda>n k. set_olog n k (ObjectLog_HoldHighWatermark (olog_at n k))),
      be_OffsetForTimestamp = (\<lambda>n k ts. ObjectLog_OffsetForTimestamp O' (olog_at n k) ts),
      be_EarliestOffset = (\<lambda>n k. ObjectLog_EarliestOffset (olog_at n k)),
      be_LatestOffset = (\<lambda>n k. ObjectLog_LatestOffset (olog_at n k)),
      be_Size = (\<lambda>n k. ObjectLog_Size (olog_at n k)),
      be_Flush = (\<lambda>n k. (syncErr, n)),
      be_EnforceRetention = (\<lambda>n k maxAgeMs maxBytes.
        case ObjectLog_EnforceRetention O' I (olog_at n k) nowMs maxAgeMs maxBytes of (e, ol) \<Rightarrow> (e, set_olog n k ol))\<rparr>"

section \<open>The contract\<close>

text \<open>The abstract log of a partition.\<close>

record logview =
  lv_batches :: "bytes list"
  lv_earliest :: int
  lv_latest :: int
  lv_hwm :: int
  lv_held :: bool

definition lv_append :: "bytes \<Rightarrow> logview \<Rightarrow> logview" where
  "lv_append b v = v\<lparr>lv_batches := lv_batches v @ [patched b (lv_latest v)], lv_latest := lv_latest v + span b,
     lv_hwm := (if lv_held v then lv_hwm v else lv_latest v + span b)\<rparr>"

definition lv_replica :: "bytes \<Rightarrow> logview \<Rightarrow> logview" where
  "lv_replica b v = v\<lparr>lv_batches := lv_batches v @ [b], lv_latest := lv_latest v + span b\<rparr>"

definition lv_advance :: "int \<Rightarrow> logview \<Rightarrow> logview" where
  "lv_advance h v = v\<lparr>lv_hwm := max (lv_hwm v) (min h (lv_latest v))\<rparr>"

definition lv_ok :: "logview \<Rightarrow> bool" where
  "lv_ok v \<longleftrightarrow> 0 \<le> lv_earliest v \<and> batch_run (lv_earliest v) (lv_batches v) (lv_latest v) \<and> lv_latest v < 2 ^ 63
     \<and> lv_hwm v \<le> lv_latest v"

locale node_logs =
  fixes B :: "'s Backend_ops" and ok :: "'s \<Rightarrow> bool" and view :: "'s \<Rightarrow> tpKey \<rightharpoonup> logview"
    and room :: "'s \<Rightarrow> tpKey \<Rightarrow> bytes \<Rightarrow> bool"
  assumes view_ok: "ok s \<Longrightarrow> view s k = Some v \<Longrightarrow> lv_ok v"
    and observe: "ok s \<Longrightarrow> view s k = Some v \<Longrightarrow> be_EarliestOffset B s k = lv_earliest v
      \<and> be_LatestOffset B s k = lv_latest v \<and> be_HighWatermark B s k = lv_hwm v"
    and open_law: "ok s \<Longrightarrow> view s k = None \<Longrightarrow>
      \<exists>v s'. be_Open B s k = Some (None, s') \<and> ok s' \<and> view s' = (view s)(k \<mapsto> v) \<and> \<not> lv_held v"
    and append_law: "ok s \<Longrightarrow> view s k = Some v \<Longrightarrow> wf_records b \<Longrightarrow> room s k b \<Longrightarrow>
      \<exists>s'. be_Append B s k b = Ret (lv_latest v, None, s') \<and> ok s' \<and> view s' = (view s)(k \<mapsto> lv_append b v)"
    and replica_law: "ok s \<Longrightarrow> view s k = Some v \<Longrightarrow> wf_records b \<Longrightarrow> BaseOffset (header b) = lv_latest v \<Longrightarrow> room s k b \<Longrightarrow>
      \<exists>s'. be_AppendReplica B s k b = (lv_latest v + span b, None, s') \<and> ok s' \<and> view s' = (view s)(k \<mapsto> lv_replica b v)"
    and replica_dup: "ok s \<Longrightarrow> view s k = Some v \<Longrightarrow> wf_records b \<Longrightarrow> BaseOffset (header b) < lv_latest v \<Longrightarrow>
      \<exists>s'. be_AppendReplica B s k b = (lv_latest v, None, s') \<and> ok s' \<and> view s' = view s"
    and read_law: "ok s \<Longrightarrow> view s k = Some v \<Longrightarrow>
      if off = lv_latest v then be_Read B s k off maxb = Some (Ret ([], None))
      else if off < lv_earliest v \<or> off > lv_latest v then be_Read B s k off maxb = Some (Ret ([], Some ErrOffsetOutOfRange))
      else \<exists>out. be_Read B s k off maxb = Some (Ret (out, None)) \<and> read_post (lv_batches v) off maxb out"
    and advance_law: "ok s \<Longrightarrow> view s k = Some v \<Longrightarrow>
      ok (be_SetHighWatermark B s k h) \<and> view (be_SetHighWatermark B s k h) = (view s)(k \<mapsto> lv_advance h v)"
    and hold_law: "ok s \<Longrightarrow> view s k = Some v \<Longrightarrow>
      ok (be_HoldHighWatermark B s k) \<and> view (be_HoldHighWatermark B s k) = (view s)(k \<mapsto> v\<lparr>lv_held := True\<rparr>)"

section \<open>The file logs meet the contract\<close>

lemma sealed_run: "sealed_ok d ss n \<Longrightarrow> ss \<noteq> [] \<Longrightarrow> batch_run (baseOffset (hd ss)) (concat (map (seg_batches d) ss)) n"
proof (induction ss)
  case (Cons s ss)
  then show ?case
    using seg_okD(4) [of d s "next_base ss n"] by (cases ss) (auto simp: batch_run_append)
qed simp

lemma log_run:
  assumes "log_inv l"
  shows "batch_run (EarliestOffset l) (log_batches l) (nextOffset l)"
proof -
  note D = log_invD [OF assms]
  have seg: "segments l = butlast (segments l) @ [active l]" using D(1) by simp
  have bs: "log_batches l = concat (map (seg_batches (disk l)) (butlast (segments l))) @ seg_batches (disk l) (active l)"
    unfolding log_batches_def by (subst seg) simp
  show ?thesis
  proof (cases "butlast (segments l)")
    case Nil
    with seg bs seg_okD(4) [OF D(3)] show ?thesis by (metis EarliestOffset_def append_Nil concat.simps(1) list.simps(8) nth_Cons_0)
  next
    case (Cons s ss)
    then have "segments l ! 0 = hd (butlast (segments l))" by (metis append_Cons list.sel(1) nth_Cons_0 seg)
    with sealed_run [OF D(2)] Cons seg_okD(4) [OF D(3)] show ?thesis
      unfolding bs EarliestOffset_def batch_run_append by (metis list.distinct(1))
  qed
qed

definition log_view :: "Log \<Rightarrow> logview" where
  "log_view l = \<lparr>lv_batches = log_batches l, lv_earliest = EarliestOffset l, lv_latest = nextOffset l,
     lv_hwm = highWatermark l, lv_held = holdHWM l\<rparr>"

lemma log_view_ok:
  assumes "log_inv l"
  shows "lv_ok (log_view l)"
proof -
  have "0 \<le> EarliestOffset l"
    using log_inv_nth [OF assms, of 0] log_invD(1) [OF assms] seg_okD(5) by (fastforce simp: EarliestOffset_def)
  then show ?thesis
    using log_run [OF assms] seg_okD(6) [OF log_invD(3) [OF assms]] log_invD(7) [OF assms]
    by (simp add: lv_ok_def log_view_def)
qed

text \<open>A directory as a node finds it when it starts: empty, or left by a crash.\<close>

definition dir_ok :: "dir \<Rightarrow> bool" where
  "dir_ok d \<longleftrightarrow> d = [] \<or> (\<exists>l cutoff junk. log_inv l \<and> d = crash_disk l cutoff junk)"

lemma Open_dir_ok: "dir_ok d \<Longrightarrow> \<exists>l. Open d c = Some (Inr l) \<and> log_inv l \<and> \<not> holdHWM l"
  unfolding dir_ok_def
proof (elim disjE exE conjE)
  assume "d = []"
  then have "Open d c = Some (Inr (new_log [] c))"
    by (simp add: Open_def listSegmentBases_def List.map_filter_simps)
  moreover have "log_inv (new_log [] c)" by (rule log_reachable_inv) (rule rtranclp.rtrancl_refl)
  moreover have "\<not> holdHWM (new_log [] c)" by (simp add: new_log_def split: prod.split)
  ultimately show ?thesis by blast
next
  fix l cutoff junk
  assume "log_inv l" "d = crash_disk l cutoff junk"
  then show ?thesis using Open_crash [of l cutoff junk c] by blast
qed

definition file_ok :: "file_node \<Rightarrow> bool" where
  "file_ok n \<longleftrightarrow> (\<forall>k l. fmlookup (fn_logs n) k = Some l \<longrightarrow> log_inv l) \<and> (\<forall>k. dir_ok (found_dir n k))"

definition file_view :: "file_node \<Rightarrow> tpKey \<rightharpoonup> logview" where
  "file_view n k = map_option log_view (fmlookup (fn_logs n) k)"

definition file_room :: "file_node \<Rightarrow> tpKey \<Rightarrow> bytes \<Rightarrow> bool" where
  "file_room n k b = log_fits (file_log_at n k) b"

lemma set_log_ok: "file_ok n \<Longrightarrow> log_inv l \<Longrightarrow> file_ok (set_log n k l)"
  by (auto simp: file_ok_def set_log_def found_dir_def)

lemma set_log_view: "file_view (set_log n k l) = (file_view n)(k \<mapsto> log_view l)"
  by (auto simp: file_view_def set_log_def)

lemma file_viewD:
  assumes "file_ok n" and "file_view n k = Some v"
  obtains l where "fmlookup (fn_logs n) k = Some l" "log_inv l" "v = log_view l"
proof -
  from assms(2) obtain l where l: "fmlookup (fn_logs n) k = Some l" "v = log_view l"
    by (auto simp: file_view_def)
  moreover have "log_inv l" using assms(1) l(1) unfolding file_ok_def by blast
  ultimately show thesis using that by blast
qed

lemma file_append:
  assumes "file_ok n" and "file_view n k = Some v" and "wf_records b" and "file_room n k b"
  shows "\<exists>n'. be_Append (file_backend now mtime) n k b = Ret (lv_latest v, None, n') \<and> file_ok n'
    \<and> file_view n' = (file_view n)(k \<mapsto> lv_append b v)"
proof -
  from assms(1,2) obtain l where l: "fmlookup (fn_logs n) k = Some l" "log_inv l" "v = log_view l" by (rule file_viewD)
  have fits: "log_fits l b" using assms(4) by (simp add: file_room_def l)
  from Append_ok [OF l(2) assms(3) fits] obtain l' where l': "Append l b = Ret (nextOffset l, None, l')" "log_inv l'"
    "log_batches l' = log_batches l @ [patched b (nextOffset l)]" "nextOffset l' = nextOffset l + RecordCount (header b)"
    "highWatermark l' = (if holdHWM l then highWatermark l else nextOffset l')" "holdHWM l' = holdHWM l" by blast
  have "log_view l' = lv_append b v"
    using l'(3-6) EarliestOffset_Append [OF l(2) assms(3) l'(1)] assms(3) by (simp add: log_view_def lv_append_def l(3) wf_records_def)
  with l l' assms(1) show ?thesis
    by (intro exI [of _ "set_log n k l'"]) (simp add: file_backend_def set_log_ok set_log_view log_view_def)
qed

lemma EarliestOffset_run: "log_inv l \<Longrightarrow> EarliestOffset l = nextOffset l - (\<Sum>b\<leftarrow>log_batches l. span b)"
  using batch_run_sum [OF log_run] by simp

lemma file_replica:
  assumes "file_ok n" and "file_view n k = Some v" and "wf_records b" and "BaseOffset (header b) = lv_latest v"
    and "file_room n k b"
  shows "\<exists>n'. be_AppendReplica (file_backend now mtime) n k b = (lv_latest v + span b, None, n') \<and> file_ok n'
    \<and> file_view n' = (file_view n)(k \<mapsto> lv_replica b v)"
proof -
  from assms(1,2) obtain l where l: "fmlookup (fn_logs n) k = Some l" "log_inv l" "v = log_view l" by (rule file_viewD)
  have fits: "log_fits l b" using assms(5) by (simp add: file_room_def l)
  have base: "BaseOffset (header b) = nextOffset l" using assms(4) l(3) by (simp add: log_view_def)
  from AppendReplica_next [OF l(2) assms(3) base fits] obtain l' where l': "AppendReplica l b = (nextOffset l', None, l')"
    "log_inv l'" "log_batches l' = log_batches l @ [b]" "nextOffset l' = nextOffset l + span b"
    "highWatermark l' = highWatermark l" "holdHWM l' = holdHWM l" by blast
  have "log_view l' = lv_replica b v"
    using l'(3-6) EarliestOffset_run [OF l(2)] EarliestOffset_run [OF l'(2)] by (simp add: log_view_def lv_replica_def l(3))
  with l l' assms(1) show ?thesis
    by (intro exI [of _ "set_log n k l'"]) (simp add: file_backend_def set_log_ok set_log_view log_view_def)
qed

lemma file_replica_dup:
  assumes "file_ok n" and "file_view n k = Some v" and "wf_records b" and "BaseOffset (header b) < lv_latest v"
  shows "\<exists>n'. be_AppendReplica (file_backend now mtime) n k b = (lv_latest v, None, n') \<and> file_ok n'
    \<and> file_view n' = file_view n"
proof -
  from assms(1,2) obtain l where l: "fmlookup (fn_logs n) k = Some l" "log_inv l" "v = log_view l" by (rule file_viewD)
  obtain h where h: "ParseHeader b = (h, None)"
    using wf_batch_ParseHeader [OF wf_records_batch [OF assms(3)], of "[]"] by simp
  have "AppendReplica l b = (nextOffset l, None, l)"
    using assms(4) h by (simp add: AppendReplica_def l(3) log_view_def)
  moreover have "(file_view n)(k \<mapsto> v) = file_view n" using assms(2) by auto
  ultimately show ?thesis using l assms(1)
    by (intro exI [of _ "set_log n k l"]) (simp add: file_backend_def set_log_ok set_log_view log_view_def)
qed

interpretation file_node: node_logs "file_backend now mtime" file_ok file_view file_room
proof unfold_locales
  fix s k v
  assume s: "file_ok s" "file_view s k = Some v"
  then obtain l where l: "fmlookup (fn_logs s) k = Some l" "log_inv l" "v = log_view l" by (rule file_viewD)
  show "lv_ok v" using log_view_ok l by simp
  show "be_EarliestOffset (file_backend now mtime) s k = lv_earliest v
      \<and> be_LatestOffset (file_backend now mtime) s k = lv_latest v \<and> be_HighWatermark (file_backend now mtime) s k = lv_hwm v"
    by (simp add: file_backend_def l log_view_def LatestOffset_def HighWatermark_def)
  show "file_ok (be_SetHighWatermark (file_backend now mtime) s k h)
      \<and> file_view (be_SetHighWatermark (file_backend now mtime) s k h) = (file_view s)(k \<mapsto> lv_advance h v)" for h
    using l s(1) by (simp add: file_backend_def set_log_ok set_log_view SetHighWatermark_ok log_view_def lv_advance_def)
      (simp add: SetHighWatermark_def EarliestOffset_def Let_def)
  have "log_inv (HoldHighWatermark l)" using l(2) by (simp add: HoldHighWatermark_def log_inv_def)
  then show "file_ok (be_HoldHighWatermark (file_backend now mtime) s k)
      \<and> file_view (be_HoldHighWatermark (file_backend now mtime) s k) = (file_view s)(k \<mapsto> v\<lparr>lv_held := True\<rparr>)"
    using l s(1) by (simp add: file_backend_def set_log_ok set_log_view)
      (simp add: HoldHighWatermark_def log_view_def EarliestOffset_def log_batches_def)
  show "if off = lv_latest v then be_Read (file_backend now mtime) s k off maxb = Some (Ret ([], None))
      else if off < lv_earliest v \<or> off > lv_latest v
        then be_Read (file_backend now mtime) s k off maxb = Some (Ret ([], Some ErrOffsetOutOfRange))
      else \<exists>out. be_Read (file_backend now mtime) s k off maxb = Some (Ret (out, None))
        \<and> read_post (lv_batches v) off maxb out" for off maxb
    using Read_ok [OF l(2), of off maxb] by (auto simp: file_backend_def l log_view_def Read_def EarliestOffset_def)
next
  fix s k
  assume s: "file_ok s" "file_view s k = None"
  then obtain l where "Open (found_dir s k) (fn_cfg s) = Some (Inr l)" "log_inv l" "\<not> holdHWM l"
    using Open_dir_ok by (meson file_ok_def)
  with s(1) show "\<exists>v s'. be_Open (file_backend now mtime) s k = Some (None, s') \<and> file_ok s'
      \<and> file_view s' = (file_view s)(k \<mapsto> v) \<and> \<not> lv_held v"
    by (intro exI [of _ "log_view l"] exI [of _ "set_log s k l"])
      (simp add: file_backend_def set_log_ok set_log_view log_view_def)
qed (fact file_append file_replica file_replica_dup)+

end
