(* ===== verification/Replication.thy ===== *)
theory Replication
  imports Node_Logs Protocol_Roundtrip
begin

text \<open>
  \<open>internal/replication/replication.go\<close>: the follower side of replication. The manager keeps the set
  of followed partitions; a fetcher sends Fetch requests to the leader and stores what comes back.
  The connection is the function \<open>exchange\<close> from the request to the bytes that can be read afterwards.
\<close>

section \<open>Runs that may panic or not end\<close>

type_synonym 'a run = "'a go option"

abbreviation ret :: "'a \<Rightarrow> 'a run" where
  "ret x \<equiv> Some (Ret x)"

definition run_bind :: "'a run \<Rightarrow> ('a \<Rightarrow> 'b run) \<Rightarrow> 'b run" where
  "run_bind m f = (case m of None \<Rightarrow> None | Some Panic \<Rightarrow> Some Panic | Some (Ret x) \<Rightarrow> f x)"

lemma run_bind_simps [simp]: "run_bind (ret x) f = f x" "run_bind None f = None" "run_bind (Some Panic) f = Some Panic"
  by (simp_all add: run_bind_def)

lemma run_bind_ret_iff: "run_bind m f = ret y \<longleftrightarrow> (\<exists>x. m = ret x \<and> f x = ret y)"
  by (auto simp: run_bind_def split: option.split go.split)

section \<open>The manager\<close>

record Manager =
  mg_self :: int
  mg_fetchers :: "tpKey fset"
  mg_closed :: bool

definition NewManager :: "int \<Rightarrow> Manager" where
  "NewManager nid = \<lparr>mg_self = nid, mg_fetchers = {||}, mg_closed = False\<rparr>"

definition EnsureFollowing :: "Manager \<Rightarrow> tpKey \<Rightarrow> Manager" where
  "EnsureFollowing m k =
     (if mg_closed m then m else if k |\<in>| mg_fetchers m then m else m\<lparr>mg_fetchers := finsert k (mg_fetchers m)\<rparr>)"

definition StopFollowing :: "Manager \<Rightarrow> tpKey \<Rightarrow> Manager" where
  "StopFollowing m k = (if k |\<in>| mg_fetchers m then m\<lparr>mg_fetchers := mg_fetchers m |-| {|k|}\<rparr> else m)"

definition Manager_Close :: "Manager \<Rightarrow> Manager" where
  "Manager_Close m = m\<lparr>mg_closed := True, mg_fetchers := {||}\<rparr>"

section \<open>Requests and responses\<close>

definition fetchAPIVersion :: int where "fetchAPIVersion = 4"
definition fetchMaxWaitMs :: int where "fetchMaxWaitMs = 500"
definition fetchMinBytes :: int where "fetchMinBytes = 1"
definition fetchMaxBytes :: int where "fetchMaxBytes = 2 ^ 20"

lemmas fetch_consts = fetchAPIVersion_def fetchMaxWaitMs_def fetchMinBytes_def fetchMaxBytes_def

definition encodeFetch :: "int \<Rightarrow> string \<Rightarrow> int \<Rightarrow> int \<Rightarrow> int \<Rightarrow> bytes" where
  "encodeFetch replicaID topic p fetchOffset corr =
     (let w = NewWriter;
          w = Int16_w APIFetch w;
          w = Int16_w fetchAPIVersion w;
          w = Int32_w corr w;
          w = NullableString_w (Some ''mq-replica'') w;
          w = Int32_w replicaID w;
          w = Int32_w fetchMaxWaitMs w;
          w = Int32_w fetchMinBytes w;
          w = Int32_w fetchMaxBytes w;
          w = Int8_w 0 w;
          w = ArrayLen_w 1 w;
          w = String_w topic w;
          w = ArrayLen_w 1 w;
          w = Int32_w p w;
          w = Int64_w fetchOffset w;
          payload = Int32_w fetchMaxBytes w
      in be_bytes 4 (u32 (int (length payload))) @ payload)"

record fetchPartitionResult =
  fx_errorCode :: int
  fx_hwm :: int
  fx_records :: "bytes option"

definition zero_result :: fetchPartitionResult where
  "zero_result = \<lparr>fx_errorCode = 0, fx_hwm = 0, fx_records = None\<rparr>"

definition read_partition :: "(reader, fetchPartitionResult) state" where
  "read_partition = do {
     _ \<leftarrow> Int32_r;
     ec \<leftarrow> Int16_r;
     hwm \<leftarrow> Int64_r;
     _ \<leftarrow> Int64_r;
     na \<leftarrow> ArrayLen_r;
     _ \<leftarrow> repeat_r na (Int64_r \<bind> (\<lambda>_. Int64_r));
     data \<leftarrow> Bytes_r;
     State_Monad.return \<lparr>fx_errorCode = ec, fx_hwm = hwm, fx_records = data\<rparr>
   }"

definition read_topic :: "(reader, fetchPartitionResult list) state" where
  "read_topic = do { _ \<leftarrow> String_r; np \<leftarrow> ArrayLen_r; repeat_r np read_partition }"

definition read_fetch_body :: "(reader, fetchPartitionResult) state" where
  "read_fetch_body = do {
     _ \<leftarrow> Int32_r;
     _ \<leftarrow> Int32_r;
     nt \<leftarrow> ArrayLen_r;
     ts \<leftarrow> repeat_r nt read_topic;
     State_Monad.return (case ts of (res # _) # _ \<Rightarrow> res | _ \<Rightarrow> zero_result)
   }"

definition readFetchResponse :: "bytes \<Rightarrow> (goerror + fetchPartitionResult) \<times> bytes" where
  "readFetchResponse conn =
     (case read_full 4 conn of
        (Inl e, rest) \<Rightarrow> (Inl e, rest)
      | (Inr lenBuf, rest) \<Rightarrow>
          (case read_full (nat (be_uint lenBuf)) rest of
             (Inl e, rest') \<Rightarrow> (Inl e, rest')
           | (Inr frame, rest') \<Rightarrow>
               (case run_state read_fetch_body (NewReader frame) of
                  (res, r) \<Rightarrow> ((case err r of Some e \<Rightarrow> Inl e | None \<Rightarrow> Inr res), rest'))))"

section \<open>The fetcher\<close>

text \<open>What a session does with a response: whether it goes on, and the storage. The callback keeps the
  error of the append in \<open>applyErr\<close>.\<close>

definition apply_replica :: "'s Backend_ops \<Rightarrow> tpKey \<Rightarrow> bytes \<Rightarrow> 's \<times> goerror option \<Rightarrow> (goerror option \<times> 's \<times> goerror option) go" where
  "apply_replica B k batch = (\<lambda>(s, applyErr).
     (case be_AppendReplica B s k batch of
        (_, Some e, s') \<Rightarrow> Ret (Some e, (s', Some e))
      | (_, None, s') \<Rightarrow> Ret (None, (s', applyErr))))"

definition session_apply :: "'s Backend_ops \<Rightarrow> tpKey \<Rightarrow> fetchPartitionResult \<Rightarrow> 's \<Rightarrow> (bool \<times> 's) run" where
  "session_apply B k res s =
     (if fx_errorCode res \<noteq> ErrNone_code then ret (False, s)
      else
        let recs = (case fx_records res of None \<Rightarrow> [] | Some d \<Rightarrow> d) in
        if length recs > 0 then
          run_bind (Iterate recs (apply_replica B k) (s, None)) (\<lambda>(_, _, s', applyErr).
            if applyErr \<noteq> None then ret (False, s') else ret (True, be_SetHighWatermark B s' k (fx_hwm res)))
        else ret (True, be_SetHighWatermark B s k (fx_hwm res)))"

text \<open>One turn of a session: what the fetcher sees of the leader and of the local log, and the
  connection, are those of the turn.\<close>

record 's turn_env =
  te_stopped :: bool
  te_leader :: "(int \<times> string) option"
  te_logOf :: "'s \<Rightarrow> (goerror option \<times> 's) run"
  te_exchange :: "bytes \<Rightarrow> goerror + bytes"

definition session_turn :: "'s Backend_ops \<Rightarrow> int \<Rightarrow> string \<Rightarrow> tpKey \<Rightarrow> 's turn_env \<Rightarrow> int \<Rightarrow> 's \<Rightarrow> (bool \<times> 's) run" where
  "session_turn B nid addr k t corr s =
     (if te_stopped t then ret (False, s)
      else case te_leader t of
        None \<Rightarrow> ret (False, s)
      | Some (leader, cur) \<Rightarrow>
          if leader = nid \<or> cur \<noteq> addr then ret (False, s)
          else run_bind (te_logOf t s) (\<lambda>(e, s1).
            if e \<noteq> None then ret (False, s1)
            else case te_exchange t (encodeFetch nid (fst k) (snd k) (be_LatestOffset B s1 k) corr) of
              Inl _ \<Rightarrow> ret (False, s1)
            | Inr conn \<Rightarrow>
                (case readFetchResponse conn of
                   (Inl _, _) \<Rightarrow> ret (False, s1)
                 | (Inr res, _) \<Rightarrow> session_apply B k res s1)))"

text \<open>A session over the turns it takes at most, and one turn of \<open>run\<close> on a dialed connection.\<close>

fun session :: "'s Backend_ops \<Rightarrow> int \<Rightarrow> string \<Rightarrow> tpKey \<Rightarrow> 's turn_env list \<Rightarrow> int \<Rightarrow> 's \<Rightarrow> 's run" where
  "session B nid addr k [] corr s = ret s"
| "session B nid addr k (t # ts) corr s =
     run_bind (session_turn B nid addr k t (i32 (corr + 1)) s) (\<lambda>(again, s').
       if again then session B nid addr k ts (i32 (corr + 1)) s' else ret s')"

definition fetcher_turn :: "'s Backend_ops \<Rightarrow> int \<Rightarrow> tpKey \<Rightarrow> bool \<Rightarrow> (int \<times> string) option \<Rightarrow> bool \<Rightarrow> 's turn_env list \<Rightarrow> 's \<Rightarrow> 's run" where
  "fetcher_turn B nid k stopped leader dialed ts s =
     (if stopped then ret s
      else case leader of
        None \<Rightarrow> ret s
      | Some (l, addr) \<Rightarrow> if l \<noteq> nid \<and> dialed then session B nid addr k ts 0 s else ret s)"

section \<open>The manager follows each partition once\<close>

lemma EnsureFollowing_iff: "k' |\<in>| mg_fetchers (EnsureFollowing m k) \<longleftrightarrow> k' |\<in>| mg_fetchers m \<or> k' = k \<and> \<not> mg_closed m"
  by (auto simp: EnsureFollowing_def)

lemma StopFollowing_iff: "k' |\<in>| mg_fetchers (StopFollowing m k) \<longleftrightarrow> k' |\<in>| mg_fetchers m \<and> k' \<noteq> k"
  by (auto simp: StopFollowing_def)

section \<open>The wire format\<close>

definition replica_request :: "int \<Rightarrow> string \<Rightarrow> int \<Rightarrow> int \<Rightarrow> FetchRequest" where
  "replica_request replicaID topic p off =
     \<lparr>fr_ReplicaID = replicaID, fr_MaxWaitMs = fetchMaxWaitMs, fr_MinBytes = fetchMinBytes, fr_MaxBytes = fetchMaxBytes,
      fr_IsolationLevel = 0, fr_SessionID = 0, fr_SessionEpoch = 0,
      fr_Topics = [\<lparr>ft_Name = topic, ft_Partitions =
        [\<lparr>fp_Partition = p, fp_FetchOffset = off, fp_LogStartOffset = 0, fp_MaxBytes = fetchMaxBytes\<rparr>]\<rparr>]\<rparr>"

definition lay_header :: "RequestHeader \<Rightarrow> bytes" where
  "lay_header h = be_bytes 2 (rh_APIKey h) @ be_bytes 2 (rh_APIVersion h) @ be_bytes 4 (rh_CorrelationID h)
     @ NullableString_w (rh_ClientID h) []"

lemma decodes_header:
  assumes "in_i16 (rh_APIKey h)" and "in_i16 (rh_APIVersion h)" and "in_i32 (rh_CorrelationID h)" and "ok_nullable (rh_ClientID h)"
  shows "decodes DecodeRequestHeader (lay_header h) h"
  using assms unfolding DecodeRequestHeader_def lay_header_def
  by (intro decodes_bind [OF decodes_Int16] decodes_bind [OF decodes_Int32] decodes_map [OF decodes_NullableString]) simp_all

definition replica_header :: "int \<Rightarrow> RequestHeader" where
  "replica_header corr = \<lparr>rh_APIKey = APIFetch, rh_APIVersion = fetchAPIVersion, rh_CorrelationID = corr,
     rh_ClientID = Some ''mq-replica''\<rparr>"

lemma encodeFetch_layout:
  "encodeFetch replicaID topic p off corr =
     (let payload = lay_header (replica_header corr) @ lay_FetchRequest fetchAPIVersion (replica_request replicaID topic p off)
      in be_bytes 4 (u32 (int (length payload))) @ payload)"
  by (simp add: encodeFetch_def lay_header_def replica_header_def lay_FetchRequest_def replica_request_def lay_FetchTopic_def
      lay_FetchPartition_def writer_defs fetch_consts Let_def i32_id in_i32_def)

text \<open>The response the fetcher can read: the first partition of the first topic is what it returns.\<close>

definition ok_resp :: "FetchPartitionResp \<Rightarrow> bool" where
  "ok_resp p \<longleftrightarrow> in_i32 (fpr_Partition p) \<and> in_i16 (fpr_ErrorCode p) \<and> in_i64 (fpr_HighWatermark p)
     \<and> in_i64 (fpr_LastStable p) \<and> ok_bytes (fpr_Records p)"

definition lay_resp :: "FetchPartitionResp \<Rightarrow> bytes" where
  "lay_resp p = be_bytes 4 (fpr_Partition p) @ be_bytes 2 (fpr_ErrorCode p) @ be_bytes 8 (fpr_HighWatermark p)
     @ be_bytes 8 (fpr_LastStable p) @ be_bytes 4 0 @ Bytes_w (fpr_Records p) []"

lemma encode_resp: "FetchPartitionResp_Encode 4 p w = w @ lay_resp p"
  by (simp add: FetchPartitionResp_Encode_def lay_resp_def writer_defs Let_def i32_id in_i32_def Bytes_w_def split: option.split)

lemma decodes_ArrayLen:
  assumes "n \<le> length bs" and "n < 2 ^ 31" and "decodes (f n) bs y"
  shows "decodes (ArrayLen_r \<bind> f) (be_bytes 4 (int n) @ bs) y"
proof (rule decodesI)
  fix r rest
  assume "at_r r ((be_bytes 4 (int n) @ bs) @ rest)"
  then have r: "at_r r (be_bytes 4 (int n) @ bs @ rest)" by simp
  have "run_state ArrayLen_r r = (n, adv_r 4 r)"
    using ArrayLen_at [OF r] assms(1,2) by simp
  moreover have "run_state (f n) (adv_r 4 r) = (y, adv_r (length bs) (adv_r 4 r))"
    using decodesD [OF assms(3) at_adv [OF r]] by simp
  ultimately show "run_state (ArrayLen_r \<bind> f) r = (y, adv_r (length (be_bytes 4 (int n) @ bs)) r)"
    by (simp add: State_Monad.bind_def)
qed

definition result_of :: "FetchPartitionResp \<Rightarrow> fetchPartitionResult" where
  "result_of p = \<lparr>fx_errorCode = fpr_ErrorCode p, fx_hwm = fpr_HighWatermark p, fx_records = fpr_Records p\<rparr>"

lemma decodes_resp:
  assumes "ok_resp p"
  shows "decodes read_partition (lay_resp p) (result_of p)"
proof -
  have "decodes (ArrayLen_r \<bind> (\<lambda>na. repeat_r na (Int64_r \<bind> (\<lambda>_. Int64_r)) \<bind> (\<lambda>_. Bytes_r \<bind>
      (\<lambda>data. State_Monad.return \<lparr>fx_errorCode = fpr_ErrorCode p, fx_hwm = fpr_HighWatermark p, fx_records = data\<rparr>))))
      (be_bytes 4 (int 0) @ Bytes_w (fpr_Records p) []) (result_of p)"
    using assms by (intro decodes_ArrayLen) (auto simp: ok_resp_def result_of_def intro!: decodes_map [OF decodes_Bytes])
  then show ?thesis
    using assms unfolding read_partition_def lay_resp_def ok_resp_def
    by (intro decodes_bind [OF decodes_Int32] decodes_bind [OF decodes_Int16] decodes_bind [OF decodes_Int64]) simp_all
qed

text \<open>A response to a replica carries one topic with one partition.\<close>

definition one_resp :: "string \<Rightarrow> FetchPartitionResp \<Rightarrow> FetchResponse" where
  "one_resp topic p = \<lparr>frr_ThrottleTime = 0, frr_ErrorCode = 0, frr_SessionID = 0,
     frr_Topics = [\<lparr>ftr_Name = topic, ftr_Partitions = [p]\<rparr>]\<rparr>"

lemma encode_one_resp:
  "FetchResponse_Encode (one_resp topic p) 4 [] =
     be_bytes 4 0 @ be_bytes 4 (int 1) @ String_w topic [] @ be_bytes 4 (int 1) @ lay_resp p"
  by (simp add: FetchResponse_Encode_def one_resp_def encode_resp Let_def ArrayLen_w_def Int32_w_def Int16_w_def String_w_def i32_id in_i32_def)

lemma lay_resp_nonempty: "1 \<le> length (lay_resp p)"
  by (simp add: lay_resp_def)

lemma decodes_one_resp:
  assumes "in_i32 corr" and "ok_string topic" and "ok_resp p"
  shows "decodes read_fetch_body (be_bytes 4 corr @ FetchResponse_Encode (one_resp topic p) 4 []) (result_of p)"
proof -
  have "decodes (repeat_r 1 read_partition) (lay_resp p) [result_of p]"
    using decodes_bind [OF decodes_resp [OF assms(3)], of "\<lambda>x. State_Monad.return [x]" "[]"] by (simp add: decodes_return)
  then have "decodes (ArrayLen_r \<bind> (\<lambda>np. repeat_r np read_partition)) (be_bytes 4 (int 1) @ lay_resp p) [result_of p]"
    using lay_resp_nonempty [of p] by (intro decodes_ArrayLen) simp_all
  then have t: "decodes read_topic (String_w topic [] @ be_bytes 4 (int 1) @ lay_resp p) [result_of p]"
    unfolding read_topic_def by (rule decodes_bind [OF decodes_String [OF assms(2)]])
  then have "decodes (repeat_r 1 read_topic) (String_w topic [] @ be_bytes 4 (int 1) @ lay_resp p) [[result_of p]]"
    using decodes_bind [OF t, of "\<lambda>x. State_Monad.return [x]" "[]"] by (simp add: decodes_return)
  from decodes_bind [OF this, of "\<lambda>ts. State_Monad.return (case ts of (res # _) # _ \<Rightarrow> res | _ \<Rightarrow> zero_result)" "[]" "result_of p"]
  have "decodes (ArrayLen_r \<bind> (\<lambda>nt. repeat_r nt read_topic \<bind>
      (\<lambda>ts. State_Monad.return (case ts of (res # _) # _ \<Rightarrow> res | _ \<Rightarrow> zero_result))))
      (be_bytes 4 (int 1) @ String_w topic [] @ be_bytes 4 (int 1) @ lay_resp p) (result_of p)"
    using lay_resp_nonempty [of p] by (intro decodes_ArrayLen) (simp_all add: decodes_return)
  then show ?thesis
    using assms(1) unfolding read_fetch_body_def encode_one_resp
    by (intro decodes_bind [OF decodes_Int32]) (simp_all add: in_i32_def)
qed

lemma readFetchResponse_one:
  assumes "in_i32 corr" and "ok_string topic" and "ok_resp p"
    and "payload = be_bytes 4 corr @ FetchResponse_Encode (one_resp topic p) 4 []" and "length payload < 2 ^ 32"
  shows "readFetchResponse (be_bytes 4 (u32 (int (length payload))) @ payload @ rest) = (Inr (result_of p), rest)"
proof -
  have len: "nat (be_uint (be_bytes 4 (u32 (int (length payload))))) = length payload"
    using assms(5) by (simp add: u32_def)
  have "run_state read_fetch_body (NewReader payload) = (result_of p, adv_r (length payload) (NewReader payload))"
    using decodesD [OF decodes_one_resp [OF assms(1-3)], of "NewReader payload" "[]"] assms(4) by simp
  moreover have "err (adv_r (length payload) (NewReader payload)) = None" by (simp add: adv_r_def NewReader_def)
  ultimately show ?thesis unfolding readFetchResponse_def len by (simp add: len del: be_uint_be_bytes)
qed

section \<open>Applying a response\<close>

text \<open>Every batch of the list finds room when the ones before it are stored.\<close>

fun rooms :: "'s Backend_ops \<Rightarrow> ('s \<Rightarrow> tpKey \<Rightarrow> bytes \<Rightarrow> bool) \<Rightarrow> 's \<Rightarrow> tpKey \<Rightarrow> bytes list \<Rightarrow> bool" where
  "rooms B room s k [] \<longleftrightarrow> True"
| "rooms B room s k (b # bs) \<longleftrightarrow> room s k b \<and> rooms B room (snd (snd (be_AppendReplica B s k b))) k bs"

lemma fold_replica:
  "fold lv_replica bs v = v\<lparr>lv_batches := lv_batches v @ bs, lv_latest := lv_latest v + (\<Sum>b\<leftarrow>bs. span b)\<rparr>"
  by (induction bs arbitrary: v) (simp_all add: lv_replica_def)

context node_logs
begin

lemma apply_batches:
  assumes "ok s" and "view s k = Some v" and "batch_run (lv_latest v) bs m" and "rooms B room s k bs"
  shows "\<exists>n s'. iter_batches (apply_replica B k) bs None c (s, None) = Ret (n, None, (s', None)) \<and> ok s'
    \<and> view s' = (view s)(k \<mapsto> fold lv_replica bs v)"
  using assms
proof (induction bs arbitrary: s v c)
  case Nil
  then show ?case by auto
next
  case (Cons b bs)
  then have b: "wf_records b" "BaseOffset (header b) = lv_latest v" "room s k b" by simp_all
  from replica_law [OF Cons.prems(1,2) b] obtain s1 where
    s1: "be_AppendReplica B s k b = (lv_latest v + span b, None, s1)" "ok s1" "view s1 = (view s)(k \<mapsto> lv_replica b v)" by blast
  have "\<exists>n s'. iter_batches (apply_replica B k) bs None (c + length b) (s1, None) = Ret (n, None, (s', None)) \<and> ok s'
      \<and> view s' = (view s1)(k \<mapsto> fold lv_replica bs (lv_replica b v))"
    using Cons.prems s1 by (intro Cons.IH) (simp_all add: lv_replica_def)
  moreover have "apply_replica B k b (s, None) = Ret (None, (s1, None))" by (simp add: apply_replica_def s1(1))
  ultimately show ?case by (simp only: iter_batches.simps go.case prod.case option.case s1(3) fun_upd_upd fold_simps)
qed

lemma session_apply_ok:
  assumes s: "ok s" "view s k = Some v" and run: "batch_run (lv_latest v) bs m" and room: "rooms B room s k bs"
    and res: "fx_errorCode res = ErrNone_code" "fx_records res = (if bs = [] then None else Some (concat bs))"
  shows "\<exists>s'. session_apply B k res s = ret (True, s') \<and> ok s'
    \<and> view s' = (view s)(k \<mapsto> lv_advance (fx_hwm res) (fold lv_replica bs v))"
proof (cases bs)
  case Nil
  with s res advance_law [OF s] show ?thesis by (simp add: session_apply_def)
next
  case (Cons b bs')
  then have ne: "concat bs \<noteq> []" using run wf_batch_size [of b] by (auto simp: wf_records_def HeaderSize_def)
  have wf: "list_all wf_batch bs" using batch_run_wf [OF run] by (simp add: list.pred_mono_strong)
  from apply_batches [OF s run room, of 0] obtain n s1 where
    it: "iter_batches (apply_replica B k) bs None 0 (s, None) = Ret (n, None, (s1, None))" and
    s1: "ok s1" "view s1 = (view s)(k \<mapsto> fold lv_replica bs v)" by blast
  have "Iterate (concat bs) (apply_replica B k) (s, None) = ret (n, None, (s1, None))"
    using Iterate_batches [OF wf, of "[]" "apply_replica B k" "(s, None)"] it by (simp add: torn_def torn_error_def)
  moreover have "view s1 k = Some (fold lv_replica bs v)" by (simp add: s1(2))
  note advance_law [OF s1(1) this, of "fx_hwm res"]
  ultimately show ?thesis using ne res Cons by (auto simp: session_apply_def s1(2))
qed

end

end
