(* ===== verification/Fsm.thy ===== *)
theory Fsm
  imports Object_Index
begin

text \<open>
  \<open>internal/controller\<close> (\<open>fsm.go\<close>, \<open>command.go\<close>): the replicated metadata state machine. Go maps
  are finite maps. The JSON encoding of commands and snapshots is not modelled: commands are
  applied as the values they encode.
\<close>

section \<open>State and commands\<close>

record partitionMeta =
  pm_Replicas :: "int list"
  pm_Leader :: int
  pm_ISR :: "int list"
  pm_LeaderEpoch :: int

record topicMeta =
  tm_Partitions :: int
  tm_Parts :: "partitionMeta list"

record metaState =
  ms_Topics :: "(string, topicMeta) fmap"
  ms_Segments :: refmap

definition NewFSM :: metaState where
  "NewFSM = \<lparr>ms_Topics = fmempty, ms_Segments = fmempty\<rparr>"

definition CmdCreateTopic :: int where "CmdCreateTopic = 1"
definition CmdCreatePartitions :: int where "CmdCreatePartitions = 2"
definition CmdChangeLeader :: int where "CmdChangeLeader = 3"
definition CmdChangeISR :: int where "CmdChangeISR = 4"
definition CmdHeartbeat :: int where "CmdHeartbeat = 5"
definition CmdCommitSegment :: int where "CmdCommitSegment = 6"
definition CmdPruneSegments :: int where "CmdPruneSegments = 7"

lemmas cmd_defs = CmdCreateTopic_def CmdCreatePartitions_def CmdChangeLeader_def CmdChangeISR_def
  CmdHeartbeat_def CmdCommitSegment_def CmdPruneSegments_def

record Command =
  c_Type :: int
  c_Topic :: string
  c_Partition :: int
  c_Partitions :: int
  c_Replicas :: "int list list"
  c_Leader :: int
  c_ISR :: "int list"
  c_From :: int
  c_Segment :: "SegmentRef option"
  c_Cutoff :: int

definition zero_cmd :: "int \<Rightarrow> Command" where
  "zero_cmd ty = \<lparr>c_Type = ty, c_Topic = [], c_Partition = 0, c_Partitions = 0, c_Replicas = [], c_Leader = 0,
     c_ISR = [], c_From = 0, c_Segment = None, c_Cutoff = 0\<rparr>"

definition segKey :: "string \<Rightarrow> int \<Rightarrow> string" where
  "segKey topic p = topic @ [CHR 0x00] @ itoa p"

section \<open>Applying commands\<close>

definition part_from :: "int list \<Rightarrow> partitionMeta" where
  "part_from rs =
     \<lparr>pm_Replicas = rs, pm_Leader = (if length rs > 0 then rs ! 0 else -1), pm_ISR = rs, pm_LeaderEpoch = 0\<rparr>"

definition partsFromReplicas :: "int list list \<Rightarrow> partitionMeta list" where
  "partsFromReplicas replicas = map part_from replicas"

definition fsm_partition :: "metaState \<Rightarrow> string \<Rightarrow> int \<Rightarrow> goerror + partitionMeta" where
  "fsm_partition st topic p =
     (case fmlookup (ms_Topics st) topic of
        None \<Rightarrow> Inl (ErrUnknownTopic topic)
      | Some t \<Rightarrow>
          if p < 0 \<or> p \<ge> int (length (tm_Parts t)) then Inl (ErrNoPartition topic p)
          else Inr (tm_Parts t ! nat p))"

text \<open>A mutation through the pointer \<open>partition\<close> returns.\<close>

definition set_partition :: "metaState \<Rightarrow> string \<Rightarrow> int \<Rightarrow> partitionMeta \<Rightarrow> metaState" where
  "set_partition st topic p pm =
     (case fmlookup (ms_Topics st) topic of
        None \<Rightarrow> st
      | Some t \<Rightarrow> st\<lparr>ms_Topics := fmupd topic (t\<lparr>tm_Parts := (tm_Parts t)[nat p := pm]\<rparr>) (ms_Topics st)\<rparr>)"

definition applyLocked :: "metaState \<Rightarrow> Command \<Rightarrow> goerror option \<times> metaState" where
  "applyLocked st cmd =
     (if c_Type cmd = CmdCreateTopic then
        (case fmlookup (ms_Topics st) (c_Topic cmd) of
           Some _ \<Rightarrow> (Some (ErrTopicExists (c_Topic cmd)), st)
         | None \<Rightarrow>
             (None, st\<lparr>ms_Topics := fmupd (c_Topic cmd)
                \<lparr>tm_Partitions = i32 (int (length (c_Replicas cmd))), tm_Parts = partsFromReplicas (c_Replicas cmd)\<rparr>
                (ms_Topics st)\<rparr>))
      else if c_Type cmd = CmdCreatePartitions then
        (case fmlookup (ms_Topics st) (c_Topic cmd) of
           None \<Rightarrow> (Some (ErrUnknownTopic (c_Topic cmd)), st)
         | Some t \<Rightarrow>
             let parts = tm_Parts t @ partsFromReplicas (c_Replicas cmd) in
             (None, st\<lparr>ms_Topics := fmupd (c_Topic cmd)
                (t\<lparr>tm_Parts := parts, tm_Partitions := i32 (int (length parts))\<rparr>) (ms_Topics st)\<rparr>))
      else if c_Type cmd = CmdChangeLeader then
        (case fsm_partition st (c_Topic cmd) (c_Partition cmd) of
           Inl e \<Rightarrow> (Some e, st)
         | Inr pm \<Rightarrow>
             (None, set_partition st (c_Topic cmd) (c_Partition cmd)
                (pm\<lparr>pm_Leader := c_Leader cmd, pm_ISR := c_ISR cmd, pm_LeaderEpoch := i32 (pm_LeaderEpoch pm + 1)\<rparr>)))
      else if c_Type cmd = CmdChangeISR then
        (case fsm_partition st (c_Topic cmd) (c_Partition cmd) of
           Inl e \<Rightarrow> (Some e, st)
         | Inr pm \<Rightarrow> (None, set_partition st (c_Topic cmd) (c_Partition cmd) (pm\<lparr>pm_ISR := c_ISR cmd\<rparr>)))
      else if c_Type cmd = CmdCommitSegment then
        (case c_Segment cmd of
           None \<Rightarrow> (Some (ErrNilRef (c_Topic cmd) (c_Partition cmd)), st)
         | Some ref \<Rightarrow>
             let k = segKey (c_Topic cmd) (c_Partition cmd) in
             (None, st\<lparr>ms_Segments := fmupd k (refs_at (ms_Segments st) k @ [ref]) (ms_Segments st)\<rparr>))
      else if c_Type cmd = CmdPruneSegments then
        let k = segKey (c_Topic cmd) (c_Partition cmd);
            kept = filter (\<lambda>r. sg_NextOffset r > c_Cutoff cmd) (refs_at (ms_Segments st) k)
        in (None, st\<lparr>ms_Segments := (if length kept = 0 then fmdrop k (ms_Segments st)
                                      else fmupd k kept (ms_Segments st))\<rparr>)
      else (Some (ErrUnknownCommand (c_Type cmd)), st))"

section \<open>Reading the state\<close>

record PartitionView =
  pv_Leader :: int
  pv_LeaderEpoch :: int
  pv_Replicas :: "int list"
  pv_ISR :: "int list"

record TopicView =
  tv_Name :: string
  tv_Partitions :: int
  tv_Parts :: "PartitionView list"

definition viewPart :: "partitionMeta \<Rightarrow> PartitionView" where
  "viewPart pm = \<lparr>pv_Leader = pm_Leader pm, pv_LeaderEpoch = pm_LeaderEpoch pm,
     pv_Replicas = pm_Replicas pm, pv_ISR = pm_ISR pm\<rparr>"

definition HasTopic :: "metaState \<Rightarrow> string \<Rightarrow> bool" where
  "HasTopic st name = (fmlookup (ms_Topics st) name \<noteq> None)"

definition PartitionLeader :: "metaState \<Rightarrow> string \<Rightarrow> int \<Rightarrow> (int \<times> int) option" where
  "PartitionLeader st topic p =
     (case fmlookup (ms_Topics st) topic of
        None \<Rightarrow> None
      | Some t \<Rightarrow>
          if p < 0 \<or> p \<ge> int (length (tm_Parts t)) then None
          else Some (pm_Leader (tm_Parts t ! nat p), pm_LeaderEpoch (tm_Parts t ! nat p)))"

definition Partition :: "metaState \<Rightarrow> string \<Rightarrow> int \<Rightarrow> PartitionView option" where
  "Partition st topic p =
     (case fmlookup (ms_Topics st) topic of
        None \<Rightarrow> None
      | Some t \<Rightarrow>
          if p < 0 \<or> p \<ge> int (length (tm_Parts t)) then None else Some (viewPart (tm_Parts t ! nat p)))"

definition Partitions :: "metaState \<Rightarrow> string \<Rightarrow> int option" where
  "Partitions st topic = map_option tm_Partitions (fmlookup (ms_Topics st) topic)"

definition Topics :: "metaState \<Rightarrow> TopicView list" where
  "Topics st =
     map (\<lambda>(name, t). \<lparr>tv_Name = name, tv_Partitions = tm_Partitions t, tv_Parts = map viewPart (tm_Parts t)\<rparr>)
       (sorted_list_of_fmap (ms_Topics st))"

definition Segments :: "metaState \<Rightarrow> string \<Rightarrow> int \<Rightarrow> SegmentRef list" where
  "Segments st topic p = refs_at (ms_Segments st) (segKey topic p)"

definition SegmentReferenced :: "metaState \<Rightarrow> string \<Rightarrow> bool" where
  "SegmentReferenced st key = fBex (fmran (ms_Segments st)) (\<lambda>refs. list_ex (\<lambda>r. sg_Key r = key) refs)"

section \<open>Rejected commands\<close>

lemma cmd_type_cases:
  obtains "c_Type cmd = CmdCreateTopic" | "c_Type cmd = CmdCreatePartitions" | "c_Type cmd = CmdChangeLeader"
  | "c_Type cmd = CmdChangeISR" | "c_Type cmd = CmdCommitSegment" | "c_Type cmd = CmdPruneSegments"
  | "c_Type cmd \<notin> {CmdCreateTopic, CmdCreatePartitions, CmdChangeLeader, CmdChangeISR, CmdCommitSegment, CmdPruneSegments}"
  by blast

lemma applyLocked_error:
  assumes "fst (applyLocked st cmd) = Some e"
  shows "snd (applyLocked st cmd) = st \<and> e \<in> {ErrTopicExists (c_Topic cmd), ErrUnknownTopic (c_Topic cmd),
    ErrNoPartition (c_Topic cmd) (c_Partition cmd), ErrNilRef (c_Topic cmd) (c_Partition cmd), ErrUnknownCommand (c_Type cmd)}"
  using assms
  by (cases rule: cmd_type_cases [of cmd])
    (auto simp: applyLocked_def fsm_partition_def cmd_defs Let_def split: option.splits if_splits)

text \<open>Which commands the state machine accepts: a topic is created once and grown only when it exists,
  placement changes address an existing partition, and a committed segment must be given.\<close>

definition accepted :: "metaState \<Rightarrow> Command \<Rightarrow> bool" where
  "accepted st cmd \<longleftrightarrow>
     c_Type cmd = CmdCreateTopic \<and> \<not> HasTopic st (c_Topic cmd)
   \<or> c_Type cmd = CmdCreatePartitions \<and> HasTopic st (c_Topic cmd)
   \<or> c_Type cmd \<in> {CmdChangeLeader, CmdChangeISR} \<and> Partition st (c_Topic cmd) (c_Partition cmd) \<noteq> None
   \<or> c_Type cmd = CmdCommitSegment \<and> c_Segment cmd \<noteq> None
   \<or> c_Type cmd = CmdPruneSegments"

text \<open>C34: the state machine accepts exactly the commands above, and a rejected command returns an
  error and changes nothing.\<close>

theorem apply_accepts:
  "if accepted st cmd then fst (applyLocked st cmd) = None
   else (\<exists>e. applyLocked st cmd = (Some e, st))"
proof -
  have "fst (applyLocked st cmd) = None \<longleftrightarrow> accepted st cmd"
    by (cases rule: cmd_type_cases [of cmd])
      (auto simp: accepted_def applyLocked_def HasTopic_def Partition_def fsm_partition_def cmd_defs Let_def
        split: option.splits if_splits)
  then show ?thesis using applyLocked_error [of st cmd] by (cases "applyLocked st cmd") (auto simp: not_None_eq)
qed

section \<open>What a command does to a partition\<close>

definition part_at :: "metaState \<Rightarrow> string \<Rightarrow> int \<Rightarrow> partitionMeta option" where
  "part_at st t p = (case fsm_partition st t p of Inl e \<Rightarrow> None | Inr pm \<Rightarrow> Some pm)"

text \<open>The effect of a command on the partition \<open>(t, p)\<close>.\<close>

definition part_effect :: "string \<Rightarrow> int \<Rightarrow> Command \<Rightarrow> partitionMeta \<Rightarrow> partitionMeta" where
  "part_effect t p cmd pm =
     (if c_Topic cmd = t \<and> c_Partition cmd = p \<and> c_Type cmd = CmdChangeLeader
      then pm\<lparr>pm_Leader := c_Leader cmd, pm_ISR := c_ISR cmd, pm_LeaderEpoch := i32 (pm_LeaderEpoch pm + 1)\<rparr>
      else if c_Topic cmd = t \<and> c_Partition cmd = p \<and> c_Type cmd = CmdChangeISR
      then pm\<lparr>pm_ISR := c_ISR cmd\<rparr>
      else pm)"

lemma part_at_Some:
  "part_at st t p = Some pm \<longleftrightarrow> (\<exists>tm. fmlookup (ms_Topics st) t = Some tm \<and> 0 \<le> p \<and> p < int (length (tm_Parts tm))
     \<and> pm = tm_Parts tm ! nat p)"
  by (auto simp: part_at_def fsm_partition_def split: option.splits if_splits)

lemma part_at_set:
  assumes "part_at st t p = Some pm"
  shows "part_at (set_partition st t p pm') t' p' =
    (if t' = t \<and> p' = p then Some pm' else part_at st t' p')"
proof -
  from assms obtain tm where tm: "fmlookup (ms_Topics st) t = Some tm" "0 \<le> p" "p < int (length (tm_Parts tm))"
    by (auto simp: part_at_Some)
  show ?thesis
  proof (cases "t' = t")
    case True
    with tm show ?thesis
      by (auto simp: part_at_def fsm_partition_def set_partition_def nth_list_update eq_nat_nat_iff)
  next
    case False
    with tm show ?thesis by (simp add: part_at_def fsm_partition_def set_partition_def)
  qed
qed

text \<open>The two commands that address a partition.\<close>

lemma part_at_change:
  assumes pm: "part_at st t p = Some pm"
    and cmd: "c_Type cmd = CmdChangeLeader \<or> c_Type cmd = CmdChangeISR"
  shows "part_at (snd (applyLocked st cmd)) t p = Some (part_effect t p cmd pm)"
proof (cases "fsm_partition st (c_Topic cmd) (c_Partition cmd)")
  case (Inl e)
  then have "part_at st (c_Topic cmd) (c_Partition cmd) = None" by (simp add: part_at_def)
  with pm have "\<not> (c_Topic cmd = t \<and> c_Partition cmd = p)" by auto
  moreover have "snd (applyLocked st cmd) = st" using cmd Inl by (auto simp: applyLocked_def cmd_defs)
  ultimately show ?thesis using pm by (auto simp: part_effect_def)
next
  case (Inr pm0)
  then have pm0: "part_at st (c_Topic cmd) (c_Partition cmd) = Some pm0" by (simp add: part_at_def)
  have "snd (applyLocked st cmd) = set_partition st (c_Topic cmd) (c_Partition cmd)
      (part_effect (c_Topic cmd) (c_Partition cmd) cmd pm0)"
    using cmd Inr by (auto simp: applyLocked_def part_effect_def cmd_defs)
  with pm pm0 show ?thesis by (auto simp: part_at_set [OF pm0] part_effect_def)
qed

lemma part_at_apply:
  assumes pm: "part_at st t p = Some pm"
  shows "part_at (snd (applyLocked st cmd)) t p = Some (part_effect t p cmd pm)"
proof -
  from pm obtain tm where tm: "fmlookup (ms_Topics st) t = Some tm" "0 \<le> p" "p < int (length (tm_Parts tm))"
    "pm = tm_Parts tm ! nat p" by (auto simp: part_at_Some)
  consider "c_Type cmd = CmdCreateTopic" | "c_Type cmd = CmdCreatePartitions"
    | "c_Type cmd = CmdChangeLeader \<or> c_Type cmd = CmdChangeISR"
    | "c_Type cmd \<notin> {CmdCreateTopic, CmdCreatePartitions, CmdChangeLeader, CmdChangeISR}" by blast
  then show ?thesis
  proof cases
    case 1
    then have "fmlookup (ms_Topics (snd (applyLocked st cmd))) t = Some tm"
      using tm(1) by (cases "fmlookup (ms_Topics st) (c_Topic cmd)") (auto simp: applyLocked_def)
    with tm 1 show ?thesis by (auto simp: part_at_Some part_effect_def cmd_defs)
  next
    case 2
    then obtain tm' more where "fmlookup (ms_Topics (snd (applyLocked st cmd))) t = Some tm'"
      "tm_Parts tm' = tm_Parts tm @ more"
      using tm(1)
      by (cases "fmlookup (ms_Topics st) (c_Topic cmd)"; cases "c_Topic cmd = t")
        (auto simp: applyLocked_def cmd_defs Let_def)
    with tm 2 show ?thesis by (auto simp: part_at_Some part_effect_def cmd_defs nth_append nat_less_iff)
  next
    case 3
    then show ?thesis by (rule part_at_change [OF pm])
  next
    case 4
    then have "ms_Topics (snd (applyLocked st cmd)) = ms_Topics st"
      by (auto simp: applyLocked_def Let_def split: option.splits)
    with pm 4 show ?thesis by (simp add: part_at_def fsm_partition_def part_effect_def)
  qed
qed

section \<open>Histories of commands\<close>

definition run_cmds :: "metaState \<Rightarrow> Command list \<Rightarrow> metaState" where
  "run_cmds st cmds = fold (\<lambda>cmd st. snd (applyLocked st cmd)) cmds st"

lemma run_cmds_simps [simp]: "run_cmds st [] = st" "run_cmds st (c # cs) = run_cmds (snd (applyLocked st c)) cs"
  by (simp_all add: run_cmds_def)

lemma run_cmds_part:
  assumes "part_at st t p = Some pm" and "0 \<le> pm_LeaderEpoch pm"
    and "pm_LeaderEpoch pm + int (length cs) < 2 ^ 31"
  shows "\<exists>pm'. part_at (run_cmds st cs) t p = Some pm' \<and> pm_Replicas pm' = pm_Replicas pm
    \<and> pm_LeaderEpoch pm \<le> pm_LeaderEpoch pm' \<and> pm_LeaderEpoch pm' \<le> pm_LeaderEpoch pm + int (length cs)
    \<and> (pm_LeaderEpoch pm' = pm_LeaderEpoch pm \<longrightarrow> pm_Leader pm' = pm_Leader pm)"
  using assms
proof (induction cs arbitrary: st pm)
  case (Cons c cs)
  define pm1 where "pm1 = part_effect t p c pm"
  have at: "part_at (snd (applyLocked st c)) t p = Some pm1"
    unfolding pm1_def by (rule part_at_apply [OF Cons.prems(1)])
  have "i32 (pm_LeaderEpoch pm + 1) = pm_LeaderEpoch pm + 1"
    using Cons.prems(2,3) by (simp add: i32_id in_i32_def)
  then have pm1: "pm_Replicas pm1 = pm_Replicas pm"
    "pm_LeaderEpoch pm1 = pm_LeaderEpoch pm + 1 \<or> pm_LeaderEpoch pm1 = pm_LeaderEpoch pm \<and> pm_Leader pm1 = pm_Leader pm"
    by (auto simp: pm1_def part_effect_def)
  obtain pm' where "part_at (run_cmds (snd (applyLocked st c)) cs) t p = Some pm'" "pm_Replicas pm' = pm_Replicas pm1"
    "pm_LeaderEpoch pm1 \<le> pm_LeaderEpoch pm'" "pm_LeaderEpoch pm' \<le> pm_LeaderEpoch pm1 + int (length cs)"
    "pm_LeaderEpoch pm' = pm_LeaderEpoch pm1 \<longrightarrow> pm_Leader pm' = pm_Leader pm1"
    using Cons.IH [OF at] pm1(2) Cons.prems(2,3) by auto
  with pm1 show ?case by auto
qed simp

text \<open>C6: leader epochs fence. Whatever commands are applied, in whatever order, an existing
  partition keeps its replica set, its leader epoch never decreases, and as long as the epoch is
  the same the leader is the same: no epoch ever has two leaders.\<close>

theorem leader_unique_per_epoch:
  assumes "part_at st topic p = Some pm" and "0 \<le> pm_LeaderEpoch pm"
    and "pm_LeaderEpoch pm + int (length cmds) < 2 ^ 31"
  shows "\<exists>pm'. part_at (run_cmds st cmds) topic p = Some pm' \<and> pm_Replicas pm' = pm_Replicas pm
    \<and> pm_LeaderEpoch pm \<le> pm_LeaderEpoch pm'
    \<and> (pm_LeaderEpoch pm' = pm_LeaderEpoch pm \<longrightarrow> pm_Leader pm' = pm_Leader pm)"
  using run_cmds_part [OF assms] by blast

definition create_cmd :: "string \<Rightarrow> int list list \<Rightarrow> Command" where
  "create_cmd t rss = (zero_cmd CmdCreateTopic)\<lparr>c_Topic := t, c_Replicas := rss\<rparr>"

definition leader_cmd :: "string \<Rightarrow> int \<Rightarrow> int \<Rightarrow> int list \<Rightarrow> Command" where
  "leader_cmd t p l isr = (zero_cmd CmdChangeLeader)\<lparr>c_Topic := t, c_Partition := p, c_Leader := l, c_ISR := isr\<rparr>"

definition isr_cmd :: "string \<Rightarrow> int \<Rightarrow> int list \<Rightarrow> Command" where
  "isr_cmd t p isr = (zero_cmd CmdChangeISR)\<lparr>c_Topic := t, c_Partition := p, c_ISR := isr\<rparr>"

lemmas cmd_simps = create_cmd_def leader_cmd_def isr_cmd_def zero_cmd_def cmd_defs

lemma part_at_create:
  assumes "fmlookup (ms_Topics st) t = None" and "0 \<le> p" and "p < int (length rss)"
  shows "part_at (snd (applyLocked st (create_cmd t rss))) t p = Some (part_from (rss ! nat p))"
  using assms by (simp add: applyLocked_def cmd_simps part_at_Some partsFromReplicas_def nat_less_iff)

lemma sample_topic: "part_at (run_cmds NewFSM [create_cmd ''t'' [[1, 2]]]) ''t'' 0 = Some (part_from [1, 2])"
  using part_at_create [of NewFSM "''t''" 0 "[[1, 2]]"] by (simp add: NewFSM_def)

theorem leader_unique_per_epoch_witness:
  "\<exists>st pm pm'. st = run_cmds NewFSM [create_cmd ''t'' [[1, 2]]] \<and> part_at st ''t'' 0 = Some pm \<and> pm_LeaderEpoch pm = 0
     \<and> part_at (run_cmds st [isr_cmd ''t'' 0 [1]]) ''t'' 0 = Some pm' \<and> pm_Replicas pm' = [1, 2]"
proof -
  have "pm_LeaderEpoch (part_from [1, 2]) = 0" "pm_Replicas (part_from [1, 2]) = [1, 2]" by (simp_all add: part_from_def)
  with leader_unique_per_epoch [OF sample_topic, of "[isr_cmd ''t'' 0 [1]]"] sample_topic show ?thesis by auto
qed

end
