(* ===== verification/Controller.thy ===== *)
theory Controller
  imports Fsm
begin

text \<open>
  \<open>internal/controller\<close> (\<open>controller.go\<close>, \<open>rpc.go\<close>, \<open>liveness.go\<close>, \<open>indexstore.go\<close>): proposing commands
  on the raft leader or forwarding them to it, the framing of the forwarding protocol, the failure
  detector and the failover decisions, and the controller as an index store. The raft library and
  the network are parameters: an \<open>attempt\<close> holds what one turn of the retry loop of \<open>Apply\<close> meets.
\<close>

section \<open>Frames of the forwarding protocol\<close>

definition rpcMaxFrame :: int where
  "rpcMaxFrame = 2 ^ 20"

definition writeFrame :: "bytes \<Rightarrow> bytes \<Rightarrow> bytes" where
  "writeFrame payload w = w @ be_bytes 4 (u32 (int (length payload))) @ payload"

definition readFrame :: "bytes \<Rightarrow> (goerror + bytes) \<times> bytes" where
  "readFrame r =
     (case read_full 4 r of
        (Inl e, r') \<Rightarrow> (Inl e, r')
      | (Inr hdr, r') \<Rightarrow>
          let n = be_uint hdr in
          if n = 0 \<or> n > rpcMaxFrame then (Inl (ErrFrameSize n), r') else read_full (nat n) r')"

text \<open>A frame of admissible size is read back exactly; an oversized one is refused by its header.\<close>

lemma readFrame_writeFrame:
  assumes "int (length payload) < 2 ^ 32"
  shows "readFrame (writeFrame payload [] @ rest) =
    (if length payload = 0 \<or> int (length payload) > rpcMaxFrame
     then (Inl (ErrFrameSize (int (length payload))), payload @ rest) else (Inr payload, rest))"
proof -
  have "be_uint (be_bytes 4 (u32 (int (length payload)))) = int (length payload)"
    using assms by (simp add: u32_def)
  then show ?thesis
    by (simp add: readFrame_def writeFrame_def Let_def)
qed

section \<open>Proposing and forwarding\<close>

text \<open>The result of \<open>raft.Apply\<close>: the entry is committed, or an error is returned. With an error the
  entry may be committed all the same (the leader lost its leadership while replicating it).\<close>

datatype raft_result = Committed | Failed bool

definition proposeLocal :: "bool \<Rightarrow> raft_result \<Rightarrow> metaState \<Rightarrow> Command \<Rightarrow> goerror option \<times> metaState" where
  "proposeLocal isLeader rr st cmd =
     (if \<not> isLeader then (Some ErrNotLeader, st)
      else case rr of
        Failed stored \<Rightarrow> (Some ErrRaft, if stored then snd (applyLocked st cmd) else st)
      | Committed \<Rightarrow> applyLocked st cmd)"

record call_env =
  ce_leader :: "int option"
  ce_dialed :: bool
  ce_written :: bool
  ce_targetLeads :: bool
  ce_raft :: raft_result
  ce_replied :: bool

definition forwardToLeader ::
  "(int, string) fmap \<Rightarrow> call_env \<Rightarrow> metaState \<Rightarrow> Command \<Rightarrow> goerror option \<times> metaState" where
  "forwardToLeader rpcAddr ce st cmd =
     (case ce_leader ce of
        None \<Rightarrow> (Some ErrForwardUnavailable, st)
      | Some nid \<Rightarrow>
          (case fmlookup rpcAddr nid of
             None \<Rightarrow> (Some (ErrNoForwardAddr nid), st)
           | Some addr \<Rightarrow>
               if \<not> ce_dialed ce then (Some ErrForwardUnavailable, st)
               else if \<not> ce_written ce then (Some ErrForwardUnavailable, st)
               else
                 (case proposeLocal (ce_targetLeads ce) (ce_raft ce) st cmd of
                    (e, st') \<Rightarrow>
                      if \<not> ce_replied ce then (Some ErrForwardUnavailable, st')
                      else if e = Some ErrNotLeader then (Some ErrForwardUnavailable, st')
                      else (e, st'))))"

record attempt =
  at_isLeader :: bool
  at_stillLeader :: bool
  at_raft :: raft_result
  at_call :: call_env

text \<open>One turn of the loop of \<open>Apply\<close>: a node that sees itself lead proposes, any other forwards.\<close>

definition apply_turn ::
  "(int, string) fmap \<Rightarrow> attempt \<Rightarrow> metaState \<Rightarrow> Command \<Rightarrow> goerror option \<times> metaState" where
  "apply_turn rpcAddr a st cmd =
     (if at_isLeader a then proposeLocal (at_stillLeader a) (at_raft a) st cmd
      else forwardToLeader rpcAddr (at_call a) st cmd)"

text \<open>The loop: the turns before the deadline, which are retried while the leader is unavailable,
  and the first turn that ends after it, whose result is final.\<close>

fun apply_loop ::
  "(int, string) fmap \<Rightarrow> attempt list \<Rightarrow> attempt \<Rightarrow> metaState \<Rightarrow> Command \<Rightarrow> goerror option \<times> metaState" where
  "apply_loop rpcAddr [] final st cmd = apply_turn rpcAddr final st cmd"
| "apply_loop rpcAddr (a # as) final st cmd =
     (case apply_turn rpcAddr a st cmd of
        (e, st') \<Rightarrow>
          if \<not> at_isLeader a \<and> e = Some ErrForwardUnavailable then apply_loop rpcAddr as final st' cmd
          else (e, st'))"

text \<open>What a controller meets when it applies commands: the forwarding addresses, and for each
  command the turns of its loop.\<close>

record ctl_env =
  en_rpcAddr :: "(int, string) fmap"
  en_turns :: "Command \<Rightarrow> attempt list"
  en_final :: "Command \<Rightarrow> attempt"

definition Ctl_Apply :: "ctl_env \<Rightarrow> metaState \<Rightarrow> Command \<Rightarrow> goerror option \<times> metaState" where
  "Ctl_Apply env st cmd = apply_loop (en_rpcAddr env) (en_turns env cmd) (en_final env cmd) st cmd"

section \<open>What Apply does to the state\<close>

definition apply_st :: "Command \<Rightarrow> metaState \<Rightarrow> metaState" where
  "apply_st cmd st = snd (applyLocked st cmd)"

text \<open>One turn applies the command or not; when it reports success it has applied it, and
  successfully.\<close>

definition turn_result :: "Command \<Rightarrow> metaState \<Rightarrow> goerror option \<times> metaState \<Rightarrow> bool" where
  "turn_result cmd st r \<longleftrightarrow>
     (snd r = st \<or> snd r = apply_st cmd st) \<and> (fst r = None \<longrightarrow> fst (applyLocked st cmd) = None \<and> snd r = apply_st cmd st)"

lemma turn_resultI [simp]: "turn_result cmd st (applyLocked st cmd)" "turn_result cmd st (Some e, st)"
  "turn_result cmd st (Some e, apply_st cmd st)"
  by (simp_all add: turn_result_def apply_st_def)

lemma turn_proposeLocal: "turn_result cmd st (proposeLocal l rr st cmd)"
  by (simp add: proposeLocal_def split: raft_result.split flip: apply_st_def)

lemma turn_forward: "turn_result cmd st (forwardToLeader rpcAddr ce st cmd)"
proof -
  obtain e st' where p: "proposeLocal (ce_targetLeads ce) (ce_raft ce) st cmd = (e, st')" by fastforce
  have r: "turn_result cmd st (e, st')" by (metis p turn_proposeLocal)
  then have "turn_result cmd st (Some e', st')" for e' by (auto simp: turn_result_def)
  with r show ?thesis by (simp add: forwardToLeader_def p split: option.split)
qed

lemma turn_apply: "turn_result cmd st (apply_turn rpcAddr a st cmd)"
  by (simp add: apply_turn_def turn_proposeLocal turn_forward)

text \<open>The whole loop applies the command some number of times, at most once per turn.\<close>

definition loop_result :: "Command \<Rightarrow> metaState \<Rightarrow> nat \<Rightarrow> goerror option \<times> metaState \<Rightarrow> bool" where
  "loop_result cmd st k r \<longleftrightarrow> (\<exists>n \<le> k. snd r = (apply_st cmd ^^ n) st)
     \<and> (fst r = None \<longrightarrow> (\<exists>n < k. fst (applyLocked ((apply_st cmd ^^ n) st) cmd) = None \<and> snd r = (apply_st cmd ^^ Suc n) st))"

lemma loop_result_turn: "turn_result cmd st r \<Longrightarrow> 0 < k \<Longrightarrow> loop_result cmd st k r"
  unfolding turn_result_def loop_result_def
  by (metis One_nat_def Suc_leI bot_nat_0.extremum eq_id_iff funpow_0 funpow_simps_right(1) funpow_simps_right(2) id_comp)

lemma loop_result_later:
  assumes "loop_result cmd st' k r" and "st' = st \<or> st' = apply_st cmd st"
  shows "loop_result cmd st (Suc k) r"
proof -
  from assms(2) obtain d where d: "d \<le> 1" "st' = (apply_st cmd ^^ d) st"
    by (metis One_nat_def bot_nat_0.extremum funpow_0 funpow_simps_right(2) comp_apply le_refl)
  have pow: "(apply_st cmd ^^ n) st' = (apply_st cmd ^^ (n + d)) st" for n
    by (simp add: d(2) funpow_add)
  obtain n where "n \<le> k" "snd r = (apply_st cmd ^^ (n + d)) st"
    using assms(1) by (auto simp: loop_result_def pow)
  then have 1: "n + d \<le> Suc k" "snd r = (apply_st cmd ^^ (n + d)) st" using d(1) by auto
  have 2: "\<exists>n<Suc k. fst (applyLocked ((apply_st cmd ^^ n) st) cmd) = None \<and> snd r = (apply_st cmd ^^ Suc n) st"
    if none: "fst r = None"
  proof -
    obtain n where "n < k" "fst (applyLocked ((apply_st cmd ^^ (n + d)) st) cmd) = None"
      "snd r = (apply_st cmd ^^ (Suc n + d)) st"
      using assms(1) none unfolding loop_result_def pow by blast
    with d(1) show ?thesis by (intro exI [of _ "n + d"]) auto
  qed
  show ?thesis unfolding loop_result_def using 1 2 by blast
qed

lemma apply_loop_result: "loop_result cmd st (Suc (length as)) (apply_loop rpcAddr as final st cmd)"
proof (induction as arbitrary: st)
  case Nil
  show ?case by (simp add: loop_result_turn turn_apply)
next
  case (Cons a as)
  obtain e st' where t: "apply_turn rpcAddr a st cmd = (e, st')" by fastforce
  then have r: "turn_result cmd st (e, st')" by (metis turn_apply)
  then have st': "st' = st \<or> st' = apply_st cmd st" by (simp add: turn_result_def)
  have "loop_result cmd st (Suc (Suc (length as))) (e, st')" by (rule loop_result_turn [OF r]) simp
  with loop_result_later [OF Cons.IH st'] show ?case by (simp add: t)
qed

lemma Ctl_Apply_result: "loop_result cmd st (Suc (length (en_turns env cmd))) (Ctl_Apply env st cmd)"
  unfolding Ctl_Apply_def by (rule apply_loop_result)

section \<open>Exactly once\<close>

text \<open>A turn is clean when the outcome it reports is the outcome it had: no reply is lost and raft
  does not store an entry for which it reports an error.\<close>

definition clean_turn :: "attempt \<Rightarrow> bool" where
  "clean_turn a \<longleftrightarrow> at_raft a \<noteq> Failed True \<and> ce_raft (at_call a) \<noteq> Failed True \<and> ce_replied (at_call a)"

lemma applyLocked_not_transport:
  "fst (applyLocked st cmd) \<noteq> Some ErrForwardUnavailable" "fst (applyLocked st cmd) \<noteq> Some ErrNotLeader"
  using applyLocked_error by blast+

lemma clean_proposeLocal:
  "rr \<noteq> Failed True \<Longrightarrow> proposeLocal l rr st cmd = applyLocked st cmd
     \<or> (\<exists>e \<in> {ErrNotLeader, ErrRaft}. proposeLocal l rr st cmd = (Some e, st))"
  by (cases rr) (auto simp: proposeLocal_def)

lemma clean_apply_turn:
  assumes "clean_turn a"
  shows "apply_turn rpcAddr a st cmd = applyLocked st cmd \<or> (\<exists>e. apply_turn rpcAddr a st cmd = (Some e, st))"
proof (cases "at_isLeader a")
  case True
  with assms clean_proposeLocal [of "at_raft a" "at_stillLeader a" st cmd] show ?thesis
    by (auto simp: clean_turn_def apply_turn_def)
next
  case False
  let ?p = "proposeLocal (ce_targetLeads (at_call a)) (ce_raft (at_call a)) st cmd"
  have "?p = applyLocked st cmd \<or> (\<exists>e. ?p = (Some e, st))"
    using assms clean_proposeLocal [of "ce_raft (at_call a)" "ce_targetLeads (at_call a)" st cmd]
    by (auto simp: clean_turn_def)
  moreover obtain e st' where p: "?p = (e, st')" by fastforce
  ultimately have "(e, st') = applyLocked st cmd \<and> e \<noteq> Some ErrNotLeader \<or> (\<exists>e'. e = Some e') \<and> st' = st"
    using applyLocked_not_transport(2) [of st cmd] by (metis fst_conv prod.inject)
  with False assms show ?thesis
    by (auto simp: apply_turn_def forwardToLeader_def clean_turn_def p split: option.split)
qed

lemma clean_apply_loop:
  assumes "\<forall>a \<in> set as. clean_turn a" and "clean_turn final"
  shows "apply_loop rpcAddr as final st cmd = applyLocked st cmd
    \<or> (\<exists>e. apply_loop rpcAddr as final st cmd = (Some e, st))"
  using assms
proof (induction as)
  case Nil
  then show ?case by (simp add: clean_apply_turn)
next
  case (Cons a as)
  then have IH: "apply_loop rpcAddr as final st cmd = applyLocked st cmd
    \<or> (\<exists>e. apply_loop rpcAddr as final st cmd = (Some e, st))" by simp
  from Cons.prems have "clean_turn a" by simp
  from clean_apply_turn [OF this, of rpcAddr st cmd] show ?case
  proof
    assume t: "apply_turn rpcAddr a st cmd = applyLocked st cmd"
    obtain e st' where al: "applyLocked st cmd = (e, st')" by fastforce
    with applyLocked_not_transport(1) [of st cmd] have "e \<noteq> Some ErrForwardUnavailable" by simp
    with t al show ?thesis by simp
  next
    assume "\<exists>e. apply_turn rpcAddr a st cmd = (Some e, st)"
    with IH show ?thesis by auto
  qed
qed


text \<open>A calm environment: the node is and stays the raft leader, and raft commits.\<close>

definition no_call :: call_env where
  "no_call = \<lparr>ce_leader = None, ce_dialed = True, ce_written = True, ce_targetLeads = True, ce_raft = Committed, ce_replied = True\<rparr>"

definition leader_turn :: attempt where
  "leader_turn = \<lparr>at_isLeader = True, at_stillLeader = True, at_raft = Committed, at_call = no_call\<rparr>"

definition forward_turn :: "bool \<Rightarrow> attempt" where
  "forward_turn replied = \<lparr>at_isLeader = False, at_stillLeader = False, at_raft = Committed,
     at_call = no_call\<lparr>ce_leader := Some 1, ce_replied := replied\<rparr>\<rparr>"

definition calm_env :: ctl_env where
  "calm_env = \<lparr>en_rpcAddr = fmempty, en_turns = (\<lambda>_. []), en_final = (\<lambda>_. leader_turn)\<rparr>"

definition forward_env :: "bool \<Rightarrow> ctl_env" where
  "forward_env replied = \<lparr>en_rpcAddr = fmupd 1 ''a:9094'' fmempty, en_turns = (\<lambda>_. [forward_turn replied]),
     en_final = (\<lambda>_. forward_turn True)\<rparr>"

lemmas env_defs = no_call_def leader_turn_def forward_turn_def calm_env_def forward_env_def

lemma Ctl_Apply_calm [simp]: "Ctl_Apply calm_env st cmd = applyLocked st cmd"
  by (simp add: Ctl_Apply_def env_defs apply_turn_def proposeLocal_def)


text \<open>Without that assumption it is not: when the reply to a forwarded command is lost, the loop
  forwards it again. A topic grown by one partition then grows by two.\<close>

definition grow_cmd :: "string \<Rightarrow> int list list \<Rightarrow> Command" where
  "grow_cmd t rss = (zero_cmd CmdCreatePartitions)\<lparr>c_Topic := t, c_Replicas := rss\<rparr>"

lemma lost_reply_applies_twice:
  "Partitions (snd (Ctl_Apply (forward_env False) (run_cmds NewFSM [create_cmd ''t'' [[1]]]) (grow_cmd ''t'' [[2]]))) ''t''
     = Some 3"
  by (simp add: Ctl_Apply_def env_defs apply_turn_def forwardToLeader_def proposeLocal_def applyLocked_def
      create_cmd_def grow_cmd_def zero_cmd_def cmd_defs NewFSM_def Partitions_def partsFromReplicas_def Let_def i32_def)

section \<open>Liveness and failover\<close>

definition livenessTimeout :: int where
  "livenessTimeout = 3 * 10 ^ 9"

text \<open>The soft liveness state of a controller; times are in nanoseconds.\<close>

record liveness =
  lv_nodeID :: int
  lv_lastSeen :: "(int, int) fmap"
  lv_leaderSince :: int

definition onBecomeLeader :: "liveness \<Rightarrow> int \<Rightarrow> liveness" where
  "onBecomeLeader lv now = lv\<lparr>lv_lastSeen := fmempty, lv_leaderSince := now\<rparr>"

definition recordHeartbeat :: "liveness \<Rightarrow> int \<Rightarrow> int \<Rightarrow> liveness" where
  "recordHeartbeat lv nid now = lv\<lparr>lv_lastSeen := fmupd nid now (lv_lastSeen lv)\<rparr>"

definition alive :: "liveness \<Rightarrow> int \<Rightarrow> int \<Rightarrow> bool" where
  "alive lv nid now =
     (if nid = lv_nodeID lv then True
      else (case fmlookup (lv_lastSeen lv) nid of None \<Rightarrow> False | Some ls \<Rightarrow> now - ls \<le> livenessTimeout))"

text \<open>The command \<open>checkFailover\<close> issues for one partition, if any.\<close>

definition failover_cmd :: "liveness \<Rightarrow> int \<Rightarrow> string \<Rightarrow> int \<Rightarrow> PartitionView \<Rightarrow> Command option" where
  "failover_cmd lv now name p pv =
     (if pv_Leader pv \<ge> 0 \<and> alive lv (pv_Leader pv) now then None
      else
        let survivors = filter (\<lambda>nid. alive lv nid now) (pv_ISR pv) in
        if length survivors = 0 \<or> survivors ! 0 = pv_Leader pv then None
        else Some ((zero_cmd CmdChangeLeader)\<lparr>c_Topic := name, c_Partition := i32 p,
               c_Leader := survivors ! 0, c_ISR := survivors\<rparr>))"

definition failover_cmds :: "liveness \<Rightarrow> int \<Rightarrow> TopicView list \<Rightarrow> Command list" where
  "failover_cmds lv now tvs =
     concat (map (\<lambda>tv. List.map_filter (\<lambda>p. failover_cmd lv now (tv_Name tv) (int p) (tv_Parts tv ! p))
       [0 ..< length (tv_Parts tv)]) tvs)"

definition checkFailover :: "ctl_env \<Rightarrow> liveness \<Rightarrow> int \<Rightarrow> metaState \<Rightarrow> metaState" where
  "checkFailover env lv now st =
     (if now - lv_leaderSince lv < livenessTimeout then st
      else fold (\<lambda>cmd st. snd (Ctl_Apply env st cmd)) (failover_cmds lv now (Topics st)) st)"

text \<open>The heartbeat a node delivers to the raft leader it knows, if the call goes through.\<close>

definition sendHeartbeat :: "(int, string) fmap \<Rightarrow> int option \<Rightarrow> bool \<Rightarrow> liveness \<Rightarrow> Command option" where
  "sendHeartbeat rpcAddr leader delivered lv =
     (case leader of
        None \<Rightarrow> None
      | Some nid \<Rightarrow>
          if nid = lv_nodeID lv then None
          else if fmlookup rpcAddr nid = None then None
          else if delivered then Some ((zero_cmd CmdHeartbeat)\<lparr>c_From := lv_nodeID lv\<rparr>) else None)"

text \<open>The server side of the forwarding protocol: a heartbeat is recorded, any other command is
  proposed.\<close>

definition serveRPCConn ::
  "bool \<Rightarrow> raft_result \<Rightarrow> int \<Rightarrow> Command \<Rightarrow> liveness \<times> metaState \<Rightarrow> goerror option \<times> liveness \<times> metaState" where
  "serveRPCConn isLeader rr now cmd ls =
     (let (lv, st) = ls in
      if c_Type cmd = CmdHeartbeat then (None, recordHeartbeat lv (c_From cmd) now, st)
      else (case proposeLocal isLeader rr st cmd of (e, st') \<Rightarrow> (e, lv, st')))"

text \<open>One tick of \<open>runLiveness\<close> on a node that is or is not the raft leader: the heartbeat it sends, its
  liveness state and the metadata.\<close>

definition runLiveness_tick ::
  "ctl_env \<Rightarrow> int option \<Rightarrow> bool \<Rightarrow> bool \<Rightarrow> bool \<Rightarrow> int \<Rightarrow> liveness \<times> metaState \<Rightarrow> Command option \<times> liveness \<times> metaState" where
  "runLiveness_tick env leader delivered isLeader wasLeader now ls =
     (let (lv, st) = ls;
          lv1 = (if isLeader \<and> \<not> wasLeader then onBecomeLeader lv now else lv);
          hb = sendHeartbeat (en_rpcAddr env) leader delivered lv1
      in (hb, lv1, if isLeader then checkFailover env lv1 now st else st))"

section \<open>The controller as an index store\<close>

definition Fsm_Commit :: "ctl_env \<Rightarrow> metaState \<Rightarrow> string \<Rightarrow> int \<Rightarrow> SegmentRef \<Rightarrow> goerror option \<times> metaState" where
  "Fsm_Commit env st topic p ref =
     Ctl_Apply env st ((zero_cmd CmdCommitSegment)\<lparr>c_Topic := topic, c_Partition := p, c_Segment := Some ref\<rparr>)"

definition Fsm_Load :: "metaState \<Rightarrow> string \<Rightarrow> int \<Rightarrow> goerror + SegmentRef list" where
  "Fsm_Load st topic p = Inr (Segments st topic p)"

definition Fsm_Prune :: "ctl_env \<Rightarrow> metaState \<Rightarrow> string \<Rightarrow> int \<Rightarrow> int \<Rightarrow>
    (goerror + SegmentRef list) \<times> metaState" where
  "Fsm_Prune env st topic p cutoff =
     (let before = Segments st topic p in
      case Ctl_Apply env st ((zero_cmd CmdPruneSegments)\<lparr>c_Topic := topic, c_Partition := p, c_Cutoff := cutoff\<rparr>) of
        (Some e, st') \<Rightarrow> (Inl e, st')
      | (None, st') \<Rightarrow> (Inr (filter (\<lambda>r. sg_NextOffset r \<le> cutoff) before), st'))"

definition Fsm_Referenced :: "metaState \<Rightarrow> string \<Rightarrow> goerror + bool" where
  "Fsm_Referenced st key = Inr (SegmentReferenced st key)"

lemma segKey_indexKey: "segKey = indexKey"
  by (simp add: fun_eq_iff segKey_def indexKey_def)

lemma refs_at_drop: "refs_at (fmdrop k m) k' = (if k' = k then [] else refs_at m k')"
  by (simp add: refs_at_def)

interpretation fsm_store: index_store "\<lambda>st. mem_inv (ms_Segments st)" Segments "Fsm_Commit calm_env" Fsm_Load
  "Fsm_Prune calm_env" Fsm_Referenced
proof unfold_locales
  fix st :: metaState and t r and p :: int
  assume "mem_inv (ms_Segments st)" "in_i32 p"
  then show "\<exists>s'. Fsm_Commit calm_env st t p r = (None, s') \<and> mem_inv (ms_Segments s')
      \<and> (\<forall>t' p'. in_i32 p' \<longrightarrow> Segments s' t' p' = (if t' = t \<and> p' = p then Segments st t p @ [r] else Segments st t' p'))"
    using indexKey_inj
    by (auto simp: Fsm_Commit_def applyLocked_def zero_cmd_def cmd_defs Segments_def Let_def
        segKey_indexKey refs_at_upd mem_inv_upd)
next
  fix st :: metaState and t c and p :: int
  assume inv: "mem_inv (ms_Segments st)" and p: "in_i32 p"
  let ?k = "indexKey t p" and ?kept = "filter (\<lambda>r. sg_NextOffset r > c) (Segments st t p)"
  let ?st' = "st\<lparr>ms_Segments := if length ?kept = 0 then fmdrop ?k (ms_Segments st) else fmupd ?k ?kept (ms_Segments st)\<rparr>"
  have "Fsm_Prune calm_env st t p c = (Inr (filter (\<lambda>r. sg_NextOffset r \<le> c) (Segments st t p)), ?st')"
    by (simp add: Fsm_Prune_def applyLocked_def zero_cmd_def cmd_defs Segments_def segKey_indexKey Let_def)
  moreover have "mem_inv (ms_Segments ?st')"
    using inv p by (auto simp: mem_inv_upd) (auto simp: mem_inv_def)
  moreover have "Segments ?st' t' p' = (if t' = t \<and> p' = p then ?kept else Segments st t' p')" if "in_i32 p'" for t' p'
    using indexKey_inj [of t' p' t p] that p
    by (auto simp: Segments_def segKey_indexKey refs_at_upd refs_at_drop filter_empty_conv)
  ultimately show "\<exists>s'. Fsm_Prune calm_env st t p c = (Inr (filter (\<lambda>r. sg_NextOffset r \<le> c) (Segments st t p)), s')
      \<and> mem_inv (ms_Segments s') \<and> (\<forall>t' p'. in_i32 p' \<longrightarrow> Segments s' t' p' =
          (if t' = t \<and> p' = p then filter (\<lambda>r. sg_NextOffset r > c) (Segments st t p) else Segments st t' p'))"
    by blast
next
  fix st :: metaState and k
  assume "mem_inv (ms_Segments st)"
  then show "\<exists>b. Fsm_Referenced st k = Inr b
      \<and> (b \<longleftrightarrow> (\<exists>t p r. in_i32 p \<and> r \<in> set (Segments st t p) \<and> sg_Key r = k))"
    by (simp add: Fsm_Referenced_def SegmentReferenced_def refs_referenced Segments_def segKey_indexKey)
qed (simp add: Fsm_Load_def)

end
