(* ===== verification/Cluster.thy ===== *)
theory Cluster
  imports Gostd
begin

text \<open>
  \<open>internal/cluster/cluster.go\<close>: the static membership of the cluster, parsed from the broker
  list, and the placement of partitions and consumer groups on it. Placement is a function of
  the membership alone, so brokers with the same list agree on it.
\<close>

record BrokerInfo =
  bi_NodeID :: int
  bi_Host :: string
  bi_Port :: int

record Cluster =
  self :: int
  brokers :: "BrokerInfo list"

definition Single :: "int \<Rightarrow> string \<Rightarrow> int \<Rightarrow> Cluster" where
  "Single nodeID host port =
     \<lparr>self = nodeID, brokers = [\<lparr>bi_NodeID = nodeID, bi_Host = host, bi_Port = port\<rparr>]\<rparr>"

text \<open>One element of the broker list, \<open>id@host:port\<close>.\<close>

definition parse_broker :: "string \<Rightarrow> goerror + BrokerInfo" where
  "parse_broker part =
     (case index_char (CHR ''@'') part of
        None \<Rightarrow> Inl (ErrBadSpec part)
      | Some at \<Rightarrow>
          (case parse_int (take at part) of
             None \<Rightarrow> Inl (ErrBadSpec part)
           | Some nid \<Rightarrow>
               let hostPort = drop (at + 1) part in
               (case last_index_char (CHR '':'') hostPort of
                  None \<Rightarrow> Inl (ErrBadSpec part)
                | Some colon \<Rightarrow>
                    (case parse_int (drop (colon + 1) hostPort) of
                       None \<Rightarrow> Inl (ErrBadSpec part)
                     | Some port \<Rightarrow>
                         Inr \<lparr>bi_NodeID = i32 nid, bi_Host = take colon hostPort, bi_Port = i32 port\<rparr>))))"

fun parse_brokers :: "string list \<Rightarrow> goerror + BrokerInfo list" where
  "parse_brokers [] = Inr []"
| "parse_brokers (part0 # parts) =
     (let part = trim_space part0 in
      if part = [] then parse_brokers parts
      else
        (case parse_broker part of
           Inl e \<Rightarrow> Inl e
         | Inr b \<Rightarrow> (case parse_brokers parts of Inl e \<Rightarrow> Inl e | Inr bs \<Rightarrow> Inr (b # bs))))"

definition Broker :: "Cluster \<Rightarrow> int \<Rightarrow> BrokerInfo option" where
  "Broker c nid = find (\<lambda>b. bi_NodeID b = nid) (brokers c)"

text \<open>\<open>sort.Slice\<close> orders the members by node id; members with equal ids (which the parser does not
  reject) keep their order here.\<close>

definition Parse :: "int \<Rightarrow> string \<Rightarrow> string \<Rightarrow> int \<Rightarrow> goerror + Cluster" where
  "Parse nodeID spec0 selfHost selfPort =
     (let spec = trim_space spec0 in
      if spec = [] then Inr (Single nodeID selfHost selfPort)
      else
        (case parse_brokers (split_char (CHR '','') spec) of
           Inl e \<Rightarrow> Inl e
         | Inr bs \<Rightarrow>
             if length bs = 0 then Inl (ErrBadSpec spec)
             else
               let c = \<lparr>self = nodeID, brokers = sort_key bi_NodeID bs\<rparr> in
               (case Broker c nodeID of
                  None \<Rightarrow> Inl (ErrBadSpec spec)
                | Some _ \<Rightarrow> Inr c)))"

definition Self :: "Cluster \<Rightarrow> int" where
  "Self c = self c"

definition Cluster_Size :: "Cluster \<Rightarrow> nat" where
  "Cluster_Size c = length (brokers c)"

definition Brokers :: "Cluster \<Rightarrow> BrokerInfo list" where
  "Brokers c = brokers c"

section \<open>Placement\<close>

definition hash32 :: "string \<Rightarrow> int" where
  "hash32 s = fnv32a (bytes_of_string s)"

text \<open>The index arithmetic is on \<open>uint32\<close>; a modulus of zero is a panic.\<close>

definition LeaderFor :: "Cluster \<Rightarrow> string \<Rightarrow> int \<Rightarrow> int go" where
  "LeaderFor c topic partition' =
     (let n = u32 (int (length (brokers c))) in
      if n = 0 then Panic
      else Ret (bi_NodeID (brokers c ! nat (u32 (hash32 topic + u32 partition') mod n))))"

definition IsLeader :: "Cluster \<Rightarrow> string \<Rightarrow> int \<Rightarrow> bool go" where
  "IsLeader c topic partition' = go_bind (LeaderFor c topic partition') (\<lambda>l. Ret (l = self c))"

definition ReplicasFor :: "Cluster \<Rightarrow> string \<Rightarrow> int \<Rightarrow> int \<Rightarrow> int list go" where
  "ReplicasFor c topic partition' rf0 =
     (let n = i32 (int (length (brokers c)));
          rf1 = (if rf0 < 1 then 1 else rf0);
          rf = (if rf1 > n then n else rf1)
      in if u32 n = 0 then Panic
         else
           let start = u32 (hash32 topic + u32 partition') mod u32 n in
           Ret (map (\<lambda>i. bi_NodeID (brokers c ! nat (u32 (start + u32 (int i)) mod u32 n))) [0 ..< nat rf]))"

definition GroupCoordinator :: "Cluster \<Rightarrow> string \<Rightarrow> int go" where
  "GroupCoordinator c groupID =
     (let n = u32 (int (length (brokers c))) in
      if n = 0 then Panic else Ret (bi_NodeID (brokers c ! nat (hash32 groupID mod n))))"

definition IsCoordinator :: "Cluster \<Rightarrow> string \<Rightarrow> bool go" where
  "IsCoordinator c groupID = go_bind (GroupCoordinator c groupID) (\<lambda>l. Ret (l = self c))"

section \<open>Properties\<close>

definition cluster_ok :: "Cluster \<Rightarrow> bool" where
  "cluster_ok c \<longleftrightarrow> brokers c \<noteq> [] \<and> sorted (map bi_NodeID (brokers c))
     \<and> self c \<in> bi_NodeID ` set (brokers c)"

text \<open>Whatever the configured broker list, a membership that parses is non-empty, sorted by
  node id and contains the broker itself, so a broker never runs outside its own cluster view.\<close>

lemma Parse_wellformed:
  assumes "Parse nodeID spec host port = Inr c"
  shows "cluster_ok c \<and> Self c = nodeID"
proof (cases "trim_space spec = []")
  case True
  with assms show ?thesis by (auto simp: Parse_def Single_def cluster_ok_def Self_def)
next
  case False
  with assms obtain bs b where bs: "bs \<noteq> []" "c = \<lparr>self = nodeID, brokers = sort_key bi_NodeID bs\<rparr>"
    "find (\<lambda>b. bi_NodeID b = nodeID) (sort_key bi_NodeID bs) = Some b"
    by (auto simp: Parse_def Broker_def Let_def split: if_splits sum.splits option.splits)
  then have "length (sort_key bi_NodeID bs) \<noteq> 0" by simp
  with bs find_SomeD [OF bs(3)] show ?thesis by (auto simp: cluster_ok_def Self_def)
qed

lemma mod_shift_inj:
  fixes s n :: int
  assumes "i < nat n" "j < nat n" "(s + int i) mod n = (s + int j) mod n"
  shows "i = j"
proof -
  have "(int i - int j) mod n = 0" using assms(3) by (simp add: mod_eq_dvd_iff)
  then have "n dvd int i - int j" by (simp add: mod_eq_0_iff_dvd)
  moreover have "\<bar>int i - int j\<bar> < n" using assms(1,2) by linarith
  ultimately show ?thesis using zdvd_imp_le [of n "\<bar>int i - int j\<bar>"] by force
qed

lemma u32_mod_id: "0 \<le> x \<Longrightarrow> x < 2 ^ 32 \<Longrightarrow> u32 x = x"
  by (simp add: u32_def)

lemma hash32_range: "0 \<le> hash32 s" "hash32 s < 2 ^ 32"
  using fnv32a_range by (simp_all add: hash32_def)

lemma ReplicasFor_ok:
  assumes c: "brokers c \<noteq> []" "length (brokers c) < 2 ^ 31" "distinct (map bi_NodeID (brokers c))"
  obtains rs where "ReplicasFor c t p rf = Ret rs"
    "int (length rs) = min (max rf 1) (int (length (brokers c)))" "distinct rs"
    "set rs \<subseteq> bi_NodeID ` set (brokers c)" "LeaderFor c t p = Ret (hd rs)"
proof -
  define n where "n = int (length (brokers c))"
  define start where "start = u32 (hash32 t + u32 p) mod n"
  define rf' where "rf' = min (max rf 1) n"
  define at where "at i = nat ((start + int i) mod n)" for i
  have n: "0 < n" "n < 2 ^ 31" "i32 n = n" "u32 n = n"
    using c by (auto simp: n_def i32_id in_i32_def u32_def)
  have start: "0 \<le> start" "start < n" using n by (simp_all add: start_def)
  have rf': "1 \<le> rf'" "rf' \<le> n" using n by (auto simp: rf'_def)
  have at_lt: "at i < length (brokers c)" for i
  proof -
    have "(start + int i) mod n < n" "0 \<le> (start + int i) mod n" using n(1) by simp_all
    then show ?thesis by (simp add: at_def n_def)
  qed
  have idx: "nat (u32 (start + u32 (int i)) mod n) = at i" if "i < nat rf'" for i
    using that start rf' n(2) by (simp add: at_def u32_mod_id)
  define rs where "rs = map (\<lambda>i. bi_NodeID (brokers c ! at i)) [0 ..< nat rf']"
  have "ReplicasFor c t p rf = Ret (map (\<lambda>i. bi_NodeID (brokers c ! nat (u32 (start + u32 (int i)) mod n))) [0 ..< nat rf'])"
    unfolding ReplicasFor_def Let_def n_def [symmetric] n(3,4) start_def [symmetric]
    using n(1) by (auto simp: rf'_def max_def min_def)
  then have rep: "ReplicasFor c t p rf = Ret rs" unfolding rs_def using idx by simp
  have "inj_on at {0 ..< nat rf'}"
  proof (rule inj_onI)
    fix i j
    assume "i \<in> {0 ..< nat rf'}" "j \<in> {0 ..< nat rf'}" "at i = at j"
    moreover from this have "(start + int i) mod n = (start + int j) mod n"
      using pos_mod_sign [OF n(1)] by (simp add: at_def eq_nat_nat_iff)
    ultimately show "i = j" using rf'(2) by (intro mod_shift_inj [of i n j start]) auto
  qed
  moreover have "a = b" if "bi_NodeID (brokers c ! a) = bi_NodeID (brokers c ! b)"
    "a < length (brokers c)" "b < length (brokers c)" for a b
    using nth_eq_iff_index_eq [OF c(3), of a b] that by simp
  ultimately have "inj_on (\<lambda>i. bi_NodeID (brokers c ! at i)) {0 ..< nat rf'}"
    using at_lt by (auto simp: inj_on_def)
  then have dist: "distinct rs" by (simp add: rs_def distinct_map)
  have lead: "LeaderFor c t p = Ret (hd rs)"
    using n(1) rf'(1) start unfolding LeaderFor_def Let_def n_def [symmetric] n(4) start_def [symmetric]
    by (simp add: rs_def hd_map upt_rec at_def)
  show ?thesis
  proof (rule that [OF rep])
    show "int (length rs) = min (max rf 1) (int (length (brokers c)))"
      using rf'(1) by (simp add: rs_def rf'_def [symmetric] n_def [symmetric])
    show "distinct rs" "LeaderFor c t p = Ret (hd rs)" by (fact dist lead)+
    show "set rs \<subseteq> bi_NodeID ` set (brokers c)" using at_lt by (auto simp: rs_def)
  qed
qed

text \<open>C33: in a cluster with distinct node ids the replica set of a partition has the requested size
  (clamped to the number of brokers), consists of different members of the cluster, and starts
  with the broker that leads the partition.\<close>

theorem ReplicasFor_placement:
  assumes "cluster_ok c" and "length (brokers c) < 2 ^ 31" and "distinct (map bi_NodeID (brokers c))"
  shows "\<exists>rs. ReplicasFor c topic p rf = Ret rs
    \<and> int (length rs) = min (max rf 1) (int (length (brokers c))) \<and> distinct rs
    \<and> set rs \<subseteq> bi_NodeID ` set (brokers c) \<and> LeaderFor c topic p = Ret (hd rs)"
  using ReplicasFor_ok [of c topic p rf] assms by (metis cluster_ok_def)

theorem ReplicasFor_placement_witness:
  "cluster_ok \<lparr>self = 1, brokers = [\<lparr>bi_NodeID = 1, bi_Host = ''a'', bi_Port = 9092\<rparr>,
       \<lparr>bi_NodeID = 2, bi_Host = ''b'', bi_Port = 9093\<rparr>]\<rparr>
   \<and> (\<exists>rs. ReplicasFor \<lparr>self = 1, brokers = [\<lparr>bi_NodeID = 1, bi_Host = ''a'', bi_Port = 9092\<rparr>,
         \<lparr>bi_NodeID = 2, bi_Host = ''b'', bi_Port = 9093\<rparr>]\<rparr> ''t'' 0 3 = Ret rs \<and> length rs = 2 \<and> distinct rs)"
proof -
  let ?c = "\<lparr>self = 1, brokers = [\<lparr>bi_NodeID = 1, bi_Host = ''a'', bi_Port = 9092\<rparr>,
       \<lparr>bi_NodeID = 2, bi_Host = ''b'', bi_Port = 9093\<rparr>]\<rparr>"
  have ok: "cluster_ok ?c" by (simp add: cluster_ok_def)
  have "length (brokers ?c) < 2 ^ 31" "distinct (map bi_NodeID (brokers ?c))" by simp_all
  from ReplicasFor_placement [OF ok this, of "''t''" 0 3] ok show ?thesis by auto
qed

end
