(* ===== verification/Broker_Config.thy ===== *)
theory Broker_Config
  imports Gostd
begin

text \<open>
  \<open>internal/config/config.go\<close>: the configuration of a broker, from built-in defaults, environment
  variables and command line flags. The environment is a function from names to values, the empty
  string standing for an unset variable. The part of package \<open>flag\<close> that \<open>Load\<close> uses is modelled: flags
  are taken up to the first argument that is not one or that is wrong, and the error is ignored.
\<close>

record BrokerConfig =
  cf_NodeID :: int
  cf_Brokers :: string
  cf_Listen :: string
  cf_AdvertisedHost :: string
  cf_AdvertisedPort :: int
  cf_LogDirs :: string
  cf_NumPartitions :: int
  cf_SegmentBytes :: int
  cf_IndexIntervalBytes :: int
  cf_FlushMs :: int
  cf_RetentionMs :: int
  cf_RetentionBytes :: int
  cf_AutoCreateTopics :: bool
  cf_RaftBootstrap :: bool
  cf_ReplicationFactor :: int
  cf_MetricsAddr :: string
  cf_StorageBackend :: string
  cf_ObjectEndpoint :: string
  cf_ObjectBucket :: string
  cf_ObjectAccessKey :: string
  cf_ObjectSecretKey :: string
  cf_ObjectRegion :: string
  cf_ObjectUploadBytes :: int
  cf_ObjectUploadMs :: int

definition Default :: BrokerConfig where
  "Default =
     \<lparr>cf_NodeID = 0, cf_Brokers = '''', cf_Listen = ''0.0.0.0:9092'', cf_AdvertisedHost = ''localhost'',
      cf_AdvertisedPort = 9092, cf_LogDirs = ''./data'', cf_NumPartitions = 1, cf_SegmentBytes = 64 * 2 ^ 20,
      cf_IndexIntervalBytes = 4096, cf_FlushMs = 1000, cf_RetentionMs = 7 * 24 * 60 * 60 * 1000, cf_RetentionBytes = 0,
      cf_AutoCreateTopics = True, cf_RaftBootstrap = False, cf_ReplicationFactor = 1, cf_MetricsAddr = '':7080'',
      cf_StorageBackend = ''local'', cf_ObjectEndpoint = '''', cf_ObjectBucket = ''kafka-data'', cf_ObjectAccessKey = '''',
      cf_ObjectSecretKey = '''', cf_ObjectRegion = ''us-east-1'', cf_ObjectUploadBytes = 8 * 2 ^ 20, cf_ObjectUploadMs = 250\<rparr>"

section \<open>Numbers\<close>

text \<open>\<open>strconv.ParseUint(s, base, 64)\<close>: the loop over the digits stops at the first one that is wrong and
  at the first one that overflows. With \<open>base0\<close> underscores are skipped.\<close>

datatype number = Num nat | SyntaxErr | RangeErr

definition lower_char :: "char \<Rightarrow> char" where
  "lower_char c = (let n = (of_char c :: nat) in if 65 \<le> n \<and> n \<le> 90 then char_of (n + 32) else c)"

definition digit_value :: "char \<Rightarrow> nat option" where
  "digit_value c =
     (let n = (of_char (lower_char c) :: nat) in
      if 48 \<le> n \<and> n \<le> 57 then Some (n - 48) else if 97 \<le> n \<and> n \<le> 122 then Some (n - 97 + 10) else None)"

fun uint_digits :: "bool \<Rightarrow> nat \<Rightarrow> nat \<Rightarrow> string \<Rightarrow> number" where
  "uint_digits base0 base n [] = Num n"
| "uint_digits base0 base n (c # cs) =
     (if c = CHR ''_'' \<and> base0 then uint_digits base0 base n cs
      else case digit_value c of
        None \<Rightarrow> SyntaxErr
      | Some d \<Rightarrow>
          if d \<ge> base then SyntaxErr
          else if n * base + d \<ge> 2 ^ 64 then RangeErr
          else uint_digits base0 base (n * base + d) cs)"

text \<open>\<open>strconv.ParseInt\<close> after the sign is read, on what \<open>ParseUint\<close> returned: the value, which is set even
  when there is an error, and whether there is none.\<close>

definition signed_number :: "bool \<Rightarrow> number \<Rightarrow> int \<times> bool" where
  "signed_number neg u =
     (case u of
        SyntaxErr \<Rightarrow> (0, False)
      | RangeErr \<Rightarrow> (if neg then - (2 ^ 63) else 2 ^ 63 - 1, False)
      | Num n \<Rightarrow>
          if \<not> neg \<and> int n \<ge> 2 ^ 63 then (2 ^ 63 - 1, False)
          else if neg \<and> int n > 2 ^ 63 then (- (2 ^ 63), False)
          else (if neg then - int n else int n, True))"

definition negative :: "string \<Rightarrow> bool" where
  "negative s \<longleftrightarrow> s \<noteq> [] \<and> hd s = CHR ''-''"

definition unsigned :: "string \<Rightarrow> string" where
  "unsigned s = (if s \<noteq> [] \<and> (hd s = CHR ''-'' \<or> hd s = CHR ''+'') then tl s else s)"

text \<open>What \<open>strconv.Atoi\<close> returns beside its error.\<close>

definition atoi_value :: "string \<Rightarrow> int" where
  "atoi_value s = fst (signed_number (negative s) (if unsigned s = [] then SyntaxErr else uint_digits False 10 0 (unsigned s)))"

text \<open>\<open>strconv.ParseInt(s, 0, 64)\<close>: the base is read from the prefix, and underscores must stand between
  digits. In \<open>underscoreOK\<close> the last seen class is a digit (0), an underscore (1), anything else (2) or
  the start (3).\<close>

fun underscore_scan :: "bool \<Rightarrow> nat \<Rightarrow> string \<Rightarrow> bool" where
  "underscore_scan hex i [] \<longleftrightarrow> i \<noteq> 1"
| "underscore_scan hex i (c # cs) \<longleftrightarrow>
     (let n = (of_char (lower_char c) :: nat) in
      if 48 \<le> n \<and> n \<le> 57 \<or> hex \<and> 97 \<le> n \<and> n \<le> 102 then underscore_scan hex 0 cs
      else if c = CHR ''_'' then i = 0 \<and> underscore_scan hex 1 cs
      else i \<noteq> 1 \<and> underscore_scan hex 2 cs)"

definition underscoreOK :: "string \<Rightarrow> bool" where
  "underscoreOK s \<longleftrightarrow>
     (if length s \<ge> 2 \<and> s ! 0 = CHR ''0'' \<and> lower_char (s ! 1) \<in> {CHR ''b'', CHR ''o'', CHR ''x''}
      then underscore_scan (lower_char (s ! 1) = CHR ''x'') 0 (drop 2 s)
      else underscore_scan False 3 s)"

definition base_prefix :: "string \<Rightarrow> nat \<times> string" where
  "base_prefix s =
     (if s ! 0 = CHR ''0'' then
        if length s \<ge> 3 \<and> lower_char (s ! 1) = CHR ''b'' then (2, drop 2 s)
        else if length s \<ge> 3 \<and> lower_char (s ! 1) = CHR ''o'' then (8, drop 2 s)
        else if length s \<ge> 3 \<and> lower_char (s ! 1) = CHR ''x'' then (16, drop 2 s)
        else (8, drop 1 s)
      else (10, s))"

definition parse_uint0 :: "string \<Rightarrow> number" where
  "parse_uint0 s =
     (if s = [] then SyntaxErr
      else
        let (base, body) = base_prefix s in
        case uint_digits True base 0 body of
          Num n \<Rightarrow> if CHR ''_'' \<in> set body \<and> \<not> underscoreOK s then SyntaxErr else Num n
        | e \<Rightarrow> e)"

definition parse_int0 :: "string \<Rightarrow> int \<times> bool" where
  "parse_int0 s = signed_number (negative s) (parse_uint0 (unsigned s))"

definition parse_bool :: "string \<Rightarrow> bool \<times> bool" where
  "parse_bool s =
     (if s \<in> {''1'', ''t'', ''T'', ''true'', ''TRUE'', ''True''} then (True, True)
      else if s \<in> {''0'', ''f'', ''F'', ''false'', ''FALSE'', ''False''} then (False, True)
      else (False, False))"

section \<open>Environment\<close>

text \<open>\<open>strings.Index(s, "://")\<close>.\<close>

fun scheme_index :: "string \<Rightarrow> nat option" where
  "scheme_index [] = None"
| "scheme_index (c # cs) = (if has_prefix (c # cs) ''://'' then Some 0 else map_option Suc (scheme_index cs))"

definition splitHostPort :: "string \<Rightarrow> string \<times> int" where
  "splitHostPort s0 =
     (let s = (case scheme_index s0 of None \<Rightarrow> s0 | Some i \<Rightarrow> drop (i + 3) s0)
      in case last_index_char (CHR '':'') s of
           None \<Rightarrow> (s, 0)
         | Some i \<Rightarrow> (take i s, i32 (atoi_value (drop (Suc i) s))))"

type_synonym environment = "string \<Rightarrow> string"

definition envInt32 :: "environment \<Rightarrow> string \<Rightarrow> int \<Rightarrow> int" where
  "envInt32 env key def = (if env key \<noteq> [] then (case parse_int (env key) of Some n \<Rightarrow> i32 n | None \<Rightarrow> def) else def)"

definition envInt64 :: "environment \<Rightarrow> string \<Rightarrow> int \<Rightarrow> int" where
  "envInt64 env key def = (if env key \<noteq> [] then (case parse_int (env key) of Some n \<Rightarrow> n | None \<Rightarrow> def) else def)"

definition envString :: "environment \<Rightarrow> string \<Rightarrow> string \<Rightarrow> string" where
  "envString env key def = (if env key \<noteq> [] then env key else def)"

definition envBool :: "environment \<Rightarrow> string \<Rightarrow> bool \<Rightarrow> bool" where
  "envBool env key def = (if env key \<noteq> [] then env key = ''true'' \<or> env key = ''1'' else def)"

definition load_env :: "environment \<Rightarrow> BrokerConfig \<Rightarrow> BrokerConfig" where
  "load_env env c =
     (let adv = env ''KAFKA_ADVERTISED_LISTENERS'';
          (host, port) = splitHostPort adv
      in c\<lparr>cf_Listen := envString env ''KAFKA_LISTENERS'' (cf_Listen c),
           cf_AdvertisedHost := (if adv \<noteq> [] \<and> host \<noteq> [] then host else cf_AdvertisedHost c),
           cf_AdvertisedPort := (if adv \<noteq> [] \<and> port \<noteq> 0 then port else cf_AdvertisedPort c),
           cf_LogDirs := envString env ''KAFKA_LOG_DIRS'' (cf_LogDirs c),
           cf_Brokers := envString env ''KAFKA_BROKERS'' (cf_Brokers c),
           cf_NodeID := envInt32 env ''KAFKA_NODE_ID'' (cf_NodeID c),
           cf_NumPartitions := envInt32 env ''KAFKA_NUM_PARTITIONS'' (cf_NumPartitions c),
           cf_ReplicationFactor := envInt32 env ''KAFKA_REPLICATION_FACTOR'' (cf_ReplicationFactor c),
           cf_SegmentBytes := envInt32 env ''KAFKA_SEGMENT_BYTES'' (cf_SegmentBytes c),
           cf_FlushMs := envInt32 env ''KAFKA_FLUSH_MS'' (i32 (cf_FlushMs c)),
           cf_RetentionMs := envInt64 env ''KAFKA_RETENTION_MS'' (cf_RetentionMs c),
           cf_RetentionBytes := envInt64 env ''KAFKA_RETENTION_BYTES'' (cf_RetentionBytes c),
           cf_AutoCreateTopics := envBool env ''KAFKA_AUTO_CREATE_TOPICS'' (cf_AutoCreateTopics c),
           cf_RaftBootstrap := envBool env ''KAFKA_RAFT_BOOTSTRAP'' (cf_RaftBootstrap c),
           cf_MetricsAddr := envString env ''KAFKA_METRICS_ADDR'' (cf_MetricsAddr c),
           cf_StorageBackend := envString env ''KAFKA_STORAGE_BACKEND'' (cf_StorageBackend c),
           cf_ObjectEndpoint := envString env ''KAFKA_OBJECT_ENDPOINT'' (cf_ObjectEndpoint c),
           cf_ObjectBucket := envString env ''KAFKA_OBJECT_BUCKET'' (cf_ObjectBucket c),
           cf_ObjectAccessKey := envString env ''KAFKA_OBJECT_ACCESS_KEY'' (cf_ObjectAccessKey c),
           cf_ObjectSecretKey := envString env ''KAFKA_OBJECT_SECRET_KEY'' (cf_ObjectSecretKey c),
           cf_ObjectRegion := envString env ''KAFKA_OBJECT_REGION'' (cf_ObjectRegion c),
           cf_ObjectUploadBytes := envInt64 env ''KAFKA_OBJECT_UPLOAD_BYTES'' (cf_ObjectUploadBytes c),
           cf_ObjectUploadMs := envInt64 env ''KAFKA_OBJECT_UPLOAD_MS'' (cf_ObjectUploadMs c)\<rparr>)"

section \<open>Flags\<close>

text \<open>The variables the flags are bound to, with the type of each.\<close>

record flags =
  fl_nodeID :: int
  fl_brokers :: string
  fl_listen :: string
  fl_advHost :: string
  fl_advPort :: int
  fl_logDirs :: string
  fl_numParts :: int
  fl_replFactor :: int
  fl_segBytes :: int
  fl_flushMs :: int
  fl_autoCreate :: bool
  fl_raftBootstrap :: bool
  fl_metricsAddr :: string
  fl_storageBackend :: string

datatype setter =
    IntFlag "int \<Rightarrow> flags \<Rightarrow> flags"
  | StringFlag "string \<Rightarrow> flags \<Rightarrow> flags"
  | BoolFlag "bool \<Rightarrow> flags \<Rightarrow> flags"

definition flag_table :: "(string \<times> setter) list" where
  "flag_table =
     [(''node-id'', IntFlag (\<lambda>v f. f\<lparr>fl_nodeID := v\<rparr>)),
      (''brokers'', StringFlag (\<lambda>v f. f\<lparr>fl_brokers := v\<rparr>)),
      (''listen'', StringFlag (\<lambda>v f. f\<lparr>fl_listen := v\<rparr>)),
      (''advertised-host'', StringFlag (\<lambda>v f. f\<lparr>fl_advHost := v\<rparr>)),
      (''advertised-port'', IntFlag (\<lambda>v f. f\<lparr>fl_advPort := v\<rparr>)),
      (''log-dirs'', StringFlag (\<lambda>v f. f\<lparr>fl_logDirs := v\<rparr>)),
      (''partitions'', IntFlag (\<lambda>v f. f\<lparr>fl_numParts := v\<rparr>)),
      (''replication-factor'', IntFlag (\<lambda>v f. f\<lparr>fl_replFactor := v\<rparr>)),
      (''segment-bytes'', IntFlag (\<lambda>v f. f\<lparr>fl_segBytes := v\<rparr>)),
      (''flush-ms'', IntFlag (\<lambda>v f. f\<lparr>fl_flushMs := v\<rparr>)),
      (''auto-create-topics'', BoolFlag (\<lambda>v f. f\<lparr>fl_autoCreate := v\<rparr>)),
      (''raft-bootstrap'', BoolFlag (\<lambda>v f. f\<lparr>fl_raftBootstrap := v\<rparr>)),
      (''metrics-addr'', StringFlag (\<lambda>v f. f\<lparr>fl_metricsAddr := v\<rparr>)),
      (''storage-backend'', StringFlag (\<lambda>v f. f\<lparr>fl_storageBackend := v\<rparr>))]"

text \<open>The \<open>Set\<close> methods of package \<open>flag\<close> store the parsed value before they report that it is wrong.\<close>

fun set_flag :: "setter \<Rightarrow> string \<Rightarrow> flags \<Rightarrow> flags \<times> bool" where
  "set_flag (IntFlag g) v f = (let (n, ok) = parse_int0 v in (g n f, ok))"
| "set_flag (StringFlag g) v f = (g v f, True)"
| "set_flag (BoolFlag g) v f = (let (b, ok) = parse_bool v in (g b f, ok))"

fun is_bool :: "setter \<Rightarrow> bool" where
  "is_bool (BoolFlag g) = True"
| "is_bool s = False"

text \<open>The name of a flag argument and its value after \<open>=\<close>, if any; \<open>None\<close> ends the parsing.\<close>

definition flag_arg :: "string \<Rightarrow> (string \<times> string option) option" where
  "flag_arg s =
     (if length s < 2 \<or> s ! 0 \<noteq> CHR ''-'' then None
      else
        let name = (if s ! 1 = CHR ''-'' then drop 2 s else drop 1 s) in
        if name = [] \<or> hd name = CHR ''-'' \<or> hd name = CHR ''='' then None
        else case index_char (CHR ''='') name of
          None \<Rightarrow> Some (name, None)
        | Some i \<Rightarrow> Some (take i name, Some (drop (Suc i) name)))"

fun parse_flags :: "string list \<Rightarrow> flags \<Rightarrow> flags" where
  "parse_flags [] f = f"
| "parse_flags (s # args) f =
     (case flag_arg s of
        None \<Rightarrow> f
      | Some (name, v) \<Rightarrow>
          (case map_of flag_table name of
             None \<Rightarrow> f
           | Some g \<Rightarrow>
               (case v of
                  Some x \<Rightarrow> (let (f', ok) = set_flag g x f in if ok then parse_flags args f' else f')
                | None \<Rightarrow>
                    if is_bool g then (let (f', ok) = set_flag g ''true'' f in if ok then parse_flags args f' else f')
                    else case args of
                      [] \<Rightarrow> f
                    | x # rest \<Rightarrow> (let (f', ok) = set_flag g x f in if ok then parse_flags rest f' else f'))))"

definition flag_defaults :: "BrokerConfig \<Rightarrow> flags" where
  "flag_defaults c =
     \<lparr>fl_nodeID = cf_NodeID c, fl_brokers = cf_Brokers c, fl_listen = cf_Listen c, fl_advHost = cf_AdvertisedHost c,
      fl_advPort = cf_AdvertisedPort c, fl_logDirs = cf_LogDirs c, fl_numParts = cf_NumPartitions c,
      fl_replFactor = cf_ReplicationFactor c, fl_segBytes = cf_SegmentBytes c, fl_flushMs = cf_FlushMs c,
      fl_autoCreate = cf_AutoCreateTopics c, fl_raftBootstrap = cf_RaftBootstrap c, fl_metricsAddr = cf_MetricsAddr c,
      fl_storageBackend = cf_StorageBackend c\<rparr>"

definition apply_flags :: "flags \<Rightarrow> BrokerConfig \<Rightarrow> BrokerConfig" where
  "apply_flags f c =
     c\<lparr>cf_NodeID := i32 (fl_nodeID f), cf_Brokers := fl_brokers f, cf_Listen := fl_listen f,
       cf_AdvertisedHost := fl_advHost f, cf_AdvertisedPort := i32 (fl_advPort f), cf_LogDirs := fl_logDirs f,
       cf_NumPartitions := i32 (fl_numParts f), cf_ReplicationFactor := i32 (fl_replFactor f),
       cf_SegmentBytes := i32 (fl_segBytes f), cf_FlushMs := fl_flushMs f, cf_AutoCreateTopics := fl_autoCreate f,
       cf_RaftBootstrap := fl_raftBootstrap f, cf_MetricsAddr := fl_metricsAddr f, cf_StorageBackend := fl_storageBackend f\<rparr>"

definition Load :: "environment \<Rightarrow> string list \<Rightarrow> BrokerConfig" where
  "Load env args = (let c = load_env env Default in apply_flags (parse_flags args (flag_defaults c)) c)"

section \<open>Precedence\<close>

text \<open>The 32-bit fields that are converted back and forth by the flags.\<close>

definition config_in_range :: "BrokerConfig \<Rightarrow> bool" where
  "config_in_range c \<longleftrightarrow> in_i32 (cf_NodeID c) \<and> in_i32 (cf_AdvertisedPort c) \<and> in_i32 (cf_NumPartitions c)
     \<and> in_i32 (cf_SegmentBytes c) \<and> in_i32 (cf_ReplicationFactor c)"

lemma envInt32_range: "in_i32 def \<Longrightarrow> in_i32 (envInt32 env key def)"
  by (simp add: envInt32_def i32_in split: option.split)

lemma splitHostPort_range: "splitHostPort s = (host, port) \<Longrightarrow> in_i32 port"
  by (auto simp: splitHostPort_def Let_def i32_in in_i32_def [of 0] split: option.splits)

lemma load_env_range:
  assumes "config_in_range c"
  shows "config_in_range (load_env env c)"
proof -
  obtain host port where hp: "splitHostPort (env ''KAFKA_ADVERTISED_LISTENERS'') = (host, port)" by fastforce
  show ?thesis
    using assms splitHostPort_range [OF hp] by (simp add: config_in_range_def load_env_def Let_def hp envInt32_range)
qed

lemma apply_flag_defaults: "config_in_range c \<Longrightarrow> apply_flags (flag_defaults c) c = c"
  by (simp add: apply_flags_def flag_defaults_def config_in_range_def i32_id)

lemma Default_in_range: "config_in_range Default"
  by (simp add: config_in_range_def Default_def in_i32_def)

lemma Load_no_flags: "Load env [] = load_env env Default"
  by (simp add: Load_def apply_flag_defaults load_env_range Default_in_range)

lemma Load_no_environment: "Load (\<lambda>_. []) [] = Default"
  unfolding Load_no_flags
  by (simp add: load_env_def Let_def envString_def envInt32_def envInt64_def envBool_def i32_id in_i32_def Default_def
      split: prod.split)

text \<open>An argument that is not a flag stops the parsing, and the flags behind it are ignored silently.\<close>

lemma stray_argument_hides_flags: "hd s \<noteq> CHR ''-'' \<Longrightarrow> Load env (s # args) = Load env []"
  by (cases s) (simp_all add: Load_def flag_arg_def)

text \<open>A number that does not parse is not an error either: the flag then reads as 0.\<close>

lemma parse_seven: "parse_int0 ''seven'' = (0, False)"
  by (simp add: parse_int0_def signed_number_def negative_def unsigned_def parse_uint0_def base_prefix_def
      digit_value_def lower_char_def)

lemma bad_number_reads_as_0: "cf_NodeID (Load env [''-node-id'', ''seven'']) = 0"
  by (simp add: Load_def Let_def flag_arg_def flag_table_def apply_flags_def parse_seven i32_id in_i32_def)

end
