(* ===== verification/Broker_Core.thy ===== *)
theory Broker_Core
  imports Replication Controller Cluster Broker_Config
begin

text \<open>
  \<open>internal/broker/broker.go\<close>: the topic catalog of a node, the logs it holds, and the leader side of
  replication. The logs live in the storage state \<open>br_store\<close> behind \<open>Backend_ops\<close>; \<open>br_logs\<close> are the keys of
  the map \<open>logs\<close>. With a controller the placement is read from the local copy of the metadata state
  machine, which follows the state of the quorum; what the copy shows after a proposal is part of the
  environment \<open>broker_env\<close>, with the clock and what the proposal meets.
\<close>

section \<open>State\<close>

record TopicInfo =
  ti_Name :: string
  ti_Partitions :: int

record followerProgress =
  fo_endOffset :: int
  fo_lastSeen :: int

record control =
  ct_quorum :: metaState
  ct_fsm :: metaState

record 's BrokerState =
  br_cfg :: BrokerConfig
  br_cluster :: Cluster
  br_ctrl :: "control option"
  br_repl :: "Manager option"
  br_store :: 's
  br_catalog :: "(string, int) fmap"
  br_logs :: "tpKey fset"
  br_followers :: "(tpKey, (int, followerProgress) fmap) fmap"
  br_leadSince :: "(tpKey, int) fmap"
  br_maint :: bool

record broker_env =
  bv_now :: int
  bv_ctl :: ctl_env
  bv_views :: "Command \<Rightarrow> metaState list"

definition replicaLagTimeout :: int where
  "replicaLagTimeout = 10 * 10 ^ 9"

abbreviation br_self :: "'s BrokerState \<Rightarrow> int" where
  "br_self b \<equiv> Self (br_cluster b)"

definition set_fsm :: "metaState \<Rightarrow> 's BrokerState \<Rightarrow> 's BrokerState" where
  "set_fsm m b = b\<lparr>br_ctrl := map_option (\<lambda>c. c\<lparr>ct_fsm := m\<rparr>) (br_ctrl b)\<rparr>"

definition set_quorum :: "metaState \<Rightarrow> 's BrokerState \<Rightarrow> 's BrokerState" where
  "set_quorum q b = b\<lparr>br_ctrl := map_option (\<lambda>c. c\<lparr>ct_quorum := q\<rparr>) (br_ctrl b)\<rparr>"

section \<open>Opening logs\<close>

definition openLocked :: "'s Backend_ops \<Rightarrow> 's BrokerState \<Rightarrow> tpKey \<Rightarrow> (goerror option \<times> 's BrokerState) run" where
  "openLocked B b k =
     (if k |\<in>| br_logs b then ret (None, b)
      else case be_Open B (br_store b) k of
        None \<Rightarrow> None
      | Some (Some e, s) \<Rightarrow> ret (Some e, b\<lparr>br_store := s\<rparr>)
      | Some (None, s) \<Rightarrow> ret (None, b\<lparr>br_store := s, br_logs := finsert k (br_logs b)\<rparr>))"

definition replicaLog :: "'s Backend_ops \<Rightarrow> 's BrokerState \<Rightarrow> tpKey \<Rightarrow> (goerror option \<times> 's BrokerState) run" where
  "replicaLog B b k = openLocked B b k"

definition getLog :: "'s BrokerState \<Rightarrow> tpKey \<Rightarrow> bool" where
  "getLog b k \<longleftrightarrow> k |\<in>| br_logs b"

fun register_loop :: "'s Backend_ops \<Rightarrow> string \<Rightarrow> int list \<Rightarrow> 's BrokerState \<Rightarrow> (goerror option \<times> 's BrokerState) run" where
  "register_loop B name [] b = ret (None, b)"
| "register_loop B name (p # ps) b =
     run_bind (Some (IsLeader (br_cluster b) name p)) (\<lambda>lead.
       if lead then run_bind (openLocked B b (name, p)) (\<lambda>(e, b'). if e \<noteq> None then ret (e, b') else register_loop B name ps b')
       else register_loop B name ps b)"

abbreviation int_range :: "int \<Rightarrow> int \<Rightarrow> int list" where
  "int_range lo hi \<equiv> map (\<lambda>i. lo + int i) [0 ..< nat (hi - lo)]"

definition registerLocked :: "'s Backend_ops \<Rightarrow> 's BrokerState \<Rightarrow> string \<Rightarrow> int \<Rightarrow> (goerror option \<times> 's BrokerState) run" where
  "registerLocked B b name partitions0 =
     (let partitions = (if partitions0 \<le> 0 then cf_NumPartitions (br_cfg b) else partitions0)
      in register_loop B name (int_range 0 partitions) (b\<lparr>br_catalog := fmupd name partitions (br_catalog b)\<rparr>))"

section \<open>Start-up\<close>

text \<open>A directory name \<open>topic-partition\<close>.\<close>

definition dir_partition :: "string \<times> bool \<Rightarrow> (string \<times> int) option" where
  "dir_partition = (\<lambda>(name, isDir).
     if \<not> isDir \<or> has_prefix name ''__'' then None
     else case last_index_char (CHR ''-'') name of
       None \<Rightarrow> None
     | Some i \<Rightarrow> map_option (\<lambda>pid. (take i name, i32 pid)) (parse_int (drop (Suc i) name)))"

fun open_all :: "'s Backend_ops \<Rightarrow> string \<Rightarrow> int list \<Rightarrow> 's BrokerState \<Rightarrow> (goerror option \<times> 's BrokerState) run" where
  "open_all B topic [] b = ret (None, b)"
| "open_all B topic (pid # pids) b =
     run_bind (openLocked B b (topic, pid)) (\<lambda>(e, b'). if e \<noteq> None then ret (e, b') else open_all B topic pids b')"

fun load_topics :: "'s Backend_ops \<Rightarrow> (string \<times> int) list \<Rightarrow> string list \<Rightarrow> 's BrokerState \<Rightarrow> (goerror option \<times> 's BrokerState) run" where
  "load_topics B found [] b = ret (None, b)"
| "load_topics B found (topic # topics) b =
     (let pids = map snd (filter (\<lambda>(t, _). t = topic) found);
          maxPart = fold (\<lambda>pid m. if pid > m then pid else m) pids 0
      in run_bind (open_all B topic pids (b\<lparr>br_catalog := fmupd topic (i32 (maxPart + 1)) (br_catalog b)\<rparr>)) (\<lambda>(e, b').
           if e \<noteq> None then ret (e, b') else load_topics B found topics b'))"

text \<open>\<open>entries\<close> is what \<open>os.ReadDir\<close> returns, \<open>order\<close> the order in which the map of topics is visited.\<close>

definition loadExisting :: "'s Backend_ops \<Rightarrow> (string set \<Rightarrow> string list) \<Rightarrow> goerror + (string \<times> bool) list
    \<Rightarrow> 's BrokerState \<Rightarrow> (goerror option \<times> 's BrokerState) run" where
  "loadExisting B order entries b =
     (case entries of
        Inl e \<Rightarrow> ret (Some e, b)
      | Inr es \<Rightarrow>
          let found = List.map_filter dir_partition es in load_topics B found (order (fst ` set found)) b)"

definition Broker_New :: "'s Backend_ops \<Rightarrow> (string set \<Rightarrow> string list) \<Rightarrow> BrokerConfig \<Rightarrow> Cluster \<Rightarrow> goerror option
    \<Rightarrow> goerror + (string \<times> bool) list \<Rightarrow> 's \<Rightarrow> (goerror + 's BrokerState) run" where
  "Broker_New B order conf cl mkdirErr entries s =
     (let b = \<lparr>br_cfg = conf, br_cluster = cl, br_ctrl = None, br_repl = None, br_store = s, br_catalog = fmempty,
               br_logs = {||}, br_followers = fmempty, br_leadSince = fmempty, br_maint = False\<rparr>
      in case mkdirErr of
           Some e \<Rightarrow> ret (Inl e)
         | None \<Rightarrow>
             if cf_StorageBackend conf \<noteq> ''object'' then
               run_bind (loadExisting B order entries b) (\<lambda>(e, b'). case e of Some e \<Rightarrow> ret (Inl e) | None \<Rightarrow> ret (Inr b'))
             else ret (Inr b))"

text \<open>\<open>SetObjectStorage\<close>, called once before any log is open: from then on logs are opened in \<open>s\<close>.\<close>

definition SetObjectStorage :: "'t \<Rightarrow> 's BrokerState \<Rightarrow> 't BrokerState" where
  "SetObjectStorage s b =
     \<lparr>br_cfg = br_cfg b, br_cluster = br_cluster b, br_ctrl = br_ctrl b, br_repl = br_repl b, br_store = s,
      br_catalog = br_catalog b, br_logs = br_logs b, br_followers = br_followers b, br_leadSince = br_leadSince b,
      br_maint = br_maint b\<rparr>"

definition SetAdvertised :: "string \<Rightarrow> int \<Rightarrow> 's BrokerState \<Rightarrow> 's BrokerState" where
  "SetAdvertised host port b = b\<lparr>br_cfg := (br_cfg b)\<lparr>cf_AdvertisedHost := host, cf_AdvertisedPort := port\<rparr>\<rparr>"

section \<open>Leader-side replication\<close>

text \<open>The high watermark the in-sync replicas allow: the smallest of their offsets, 0 for one that has
  not been heard from.\<close>

definition isr_offset :: "(int, followerProgress) fmap \<Rightarrow> int \<Rightarrow> int" where
  "isr_offset prog nid = (case fmlookup prog nid of Some pr \<Rightarrow> fo_endOffset pr | None \<Rightarrow> 0)"

definition isr_min :: "int \<Rightarrow> (int, followerProgress) fmap \<Rightarrow> int list \<Rightarrow> int \<Rightarrow> int" where
  "isr_min slf prog isr leo =
     fold (\<lambda>nid hwm. if nid = slf then hwm else if isr_offset prog nid < hwm then isr_offset prog nid else hwm) isr leo"

definition progress_of :: "'s BrokerState \<Rightarrow> tpKey \<Rightarrow> (int, followerProgress) fmap" where
  "progress_of b k = (case fmlookup (br_followers b) k of Some prog \<Rightarrow> prog | None \<Rightarrow> fmempty)"

definition fsm_view :: "'s BrokerState \<Rightarrow> tpKey \<Rightarrow> PartitionView option" where
  "fsm_view b k = (case br_ctrl b of None \<Rightarrow> None | Some c \<Rightarrow> Partition (ct_fsm c) (fst k) (snd k))"

definition advanceHighWatermark :: "'s Backend_ops \<Rightarrow> 's BrokerState \<Rightarrow> tpKey \<Rightarrow> 's BrokerState" where
  "advanceHighWatermark B b k =
     (case fsm_view b k of
        None \<Rightarrow> b
      | Some pv \<Rightarrow>
          if pv_Leader pv \<noteq> br_self b then b
          else if \<not> getLog b k then b
          else b\<lparr>br_store := be_SetHighWatermark B (br_store b) k
                 (isr_min (br_self b) (progress_of b k) (pv_ISR pv) (be_LatestOffset B (br_store b) k))\<rparr>)"

definition RecordReplicaFetch :: "'s Backend_ops \<Rightarrow> int \<Rightarrow> 's BrokerState \<Rightarrow> tpKey \<Rightarrow> int \<Rightarrow> int \<Rightarrow> 's BrokerState" where
  "RecordReplicaFetch B now b k replicaID fetchOffset =
     (if br_ctrl b = None then b
      else advanceHighWatermark B (b\<lparr>br_followers := fmupd k
        (fmupd replicaID \<lparr>fo_endOffset = fetchOffset, fo_lastSeen = now\<rparr> (progress_of b k)) (br_followers b)\<rparr>) k)"

definition noteLeadSince :: "int \<Rightarrow> tpKey \<Rightarrow> 's BrokerState \<Rightarrow> 's BrokerState" where
  "noteLeadSince now k b = (if fmlookup (br_leadSince b) k = None then b\<lparr>br_leadSince := fmupd k now (br_leadSince b)\<rparr> else b)"

definition sameNodeSet :: "int list \<Rightarrow> int list \<Rightarrow> bool" where
  "sameNodeSet xs ys \<longleftrightarrow> length xs = length ys \<and> list_all (\<lambda>y. y \<in> set xs) ys"

definition in_sync :: "int \<Rightarrow> 's BrokerState \<Rightarrow> tpKey \<Rightarrow> int \<Rightarrow> bool" where
  "in_sync now b k r \<longleftrightarrow>
     r = br_self b
     \<or> (case fmlookup (progress_of b k) r of
          Some pr \<Rightarrow> now - fo_lastSeen pr \<le> replicaLagTimeout
        | None \<Rightarrow> (case fmlookup (br_leadSince b) k of None \<Rightarrow> False | Some t \<Rightarrow> now - t \<le> replicaLagTimeout))"

text \<open>The local copy of the metadata as first read after a proposal.\<close>

fun first_view :: "metaState list \<Rightarrow> metaState \<Rightarrow> metaState" where
  "first_view [] m = m"
| "first_view (v # _) m = v"

definition maintainPartitionISR :: "broker_env \<Rightarrow> 's BrokerState \<Rightarrow> tpKey \<Rightarrow> PartitionView \<Rightarrow> 's BrokerState" where
  "maintainPartitionISR env b k pv =
     (let desired = filter (in_sync (bv_now env) b k) (pv_Replicas pv) in
      if sameNodeSet desired (pv_ISR pv) then b
      else case br_ctrl b of
        None \<Rightarrow> b
      | Some c \<Rightarrow>
          let cmd = (zero_cmd CmdChangeISR)\<lparr>c_Topic := fst k, c_Partition := snd k, c_ISR := desired\<rparr>
          in set_fsm (first_view (bv_views env cmd) (ct_fsm c)) (set_quorum (snd (Ctl_Apply (bv_ctl env) (ct_quorum c) cmd)) b))"

definition topic_parts :: "metaState \<Rightarrow> (tpKey \<times> PartitionView) list" where
  "topic_parts m =
     concat (map (\<lambda>tv. map (\<lambda>p. ((tv_Name tv, i32 (int p)), tv_Parts tv ! p)) [0 ..< length (tv_Parts tv)]) (Topics m))"

definition maintainReplicas :: "'s Backend_ops \<Rightarrow> broker_env \<Rightarrow> 's BrokerState \<Rightarrow> 's BrokerState" where
  "maintainReplicas B env b =
     (case br_ctrl b of
        None \<Rightarrow> b
      | Some c \<Rightarrow>
          fold (\<lambda>(k, pv) b.
            if pv_Leader pv \<noteq> br_self b \<or> length (pv_Replicas pv) \<le> 1 then b
            else advanceHighWatermark B (maintainPartitionISR env b k pv) k) (topic_parts (ct_fsm c)) b)"

section \<open>Reconciling with the placement\<close>

definition containsNode :: "int list \<Rightarrow> int \<Rightarrow> bool" where
  "containsNode ids nid = list_ex (\<lambda>x. x = nid) ids"

text \<open>The first pass opens the logs this node replicates and collects what to do about their fetchers.\<close>

fun reconcile_open :: "'s Backend_ops \<Rightarrow> (tpKey \<times> PartitionView) list \<Rightarrow> (tpKey \<times> bool) list \<Rightarrow> 's BrokerState
    \<Rightarrow> ((tpKey \<times> bool) list \<times> 's BrokerState) run" where
  "reconcile_open B [] acts b = ret (acts, b)"
| "reconcile_open B ((k, pv) # rest) acts b =
     (if \<not> containsNode (pv_Replicas pv) (br_self b) then reconcile_open B rest acts b
      else run_bind (openLocked B b k) (\<lambda>(e, b').
        if e \<noteq> None then reconcile_open B rest acts b'
        else if length (pv_Replicas pv) > 1 then
          reconcile_open B rest (acts @ [(k, pv_Leader pv = br_self b')]) (b'\<lparr>br_store := be_HoldHighWatermark B (br_store b') k\<rparr>)
        else reconcile_open B rest acts b'))"

definition reconcile_action :: "int \<Rightarrow> tpKey \<times> bool \<Rightarrow> 's BrokerState \<Rightarrow> 's BrokerState" where
  "reconcile_action now = (\<lambda>(k, lead) b.
     if lead then noteLeadSince now k (b\<lparr>br_repl := map_option (\<lambda>m. StopFollowing m k) (br_repl b)\<rparr>)
     else b\<lparr>br_repl := map_option (\<lambda>m. EnsureFollowing m k) (br_repl b)\<rparr>)"

definition reconcileFromFSM :: "'s Backend_ops \<Rightarrow> int \<Rightarrow> 's BrokerState \<Rightarrow> 's BrokerState run" where
  "reconcileFromFSM B now b =
     (case br_ctrl b of
        None \<Rightarrow> ret b
      | Some c \<Rightarrow>
          run_bind (reconcile_open B (topic_parts (ct_fsm c)) [] b) (\<lambda>(acts, b').
            if br_repl b' = None then ret b' else ret (fold (reconcile_action now) acts b')))"

definition SetController :: "'s Backend_ops \<Rightarrow> int \<Rightarrow> control \<Rightarrow> 's BrokerState \<Rightarrow> 's BrokerState run" where
  "SetController B now c b =
     run_bind (reconcileFromFSM B now (b\<lparr>br_ctrl := Some c, br_repl := Some (NewManager (br_self b))\<rparr>)) (\<lambda>b'.
       ret (b'\<lparr>br_maint := True\<rparr>))"

text \<open>The hook the state machine calls after every command it applies.\<close>

definition onApply :: "'s Backend_ops \<Rightarrow> int \<Rightarrow> metaState \<Rightarrow> 's BrokerState \<Rightarrow> 's BrokerState run" where
  "onApply B now m b = reconcileFromFSM B now (set_fsm m b)"

definition leaderAddr :: "'s BrokerState \<Rightarrow> tpKey \<Rightarrow> (int \<times> string) option" where
  "leaderAddr b k =
     (case fsm_view b k of
        None \<Rightarrow> None
      | Some pv \<Rightarrow>
          if pv_Leader pv < 0 then None
          else map_option (\<lambda>bi. (pv_Leader pv, bi_Host bi @ '':'' @ itoa (bi_Port bi))) (Broker (br_cluster b) (pv_Leader pv)))"

section \<open>Topics\<close>

definition replicationFactor :: "'s BrokerState \<Rightarrow> int" where
  "replicationFactor b =
     (let rf = (if cf_ReplicationFactor (br_cfg b) < 1 then 1 else cf_ReplicationFactor (br_cfg b));
          n = i32 (int (Cluster_Size (br_cluster b)))
      in if rf > n then n else rf)"

fun go_mapM :: "('a \<Rightarrow> 'b go) \<Rightarrow> 'a list \<Rightarrow> 'b list go" where
  "go_mapM f [] = Ret []"
| "go_mapM f (x # xs) = go_bind (f x) (\<lambda>y. go_bind (go_mapM f xs) (\<lambda>ys. Ret (y # ys)))"

text \<open>\<open>waitTopic\<close> and \<open>waitPartitions\<close>: the readings of the local copy up to the deadline, until one shows
  the change; the result is the last reading.\<close>

fun wait_view :: "(metaState \<Rightarrow> bool) \<Rightarrow> metaState list \<Rightarrow> metaState \<Rightarrow> metaState" where
  "wait_view shown [] m = m"
| "wait_view shown (v # vs) m = (if shown v then v else wait_view shown vs v)"

definition waitTopic :: "string \<Rightarrow> metaState list \<Rightarrow> metaState \<Rightarrow> metaState" where
  "waitTopic name = wait_view (\<lambda>m. HasTopic m name)"

definition waitPartitions :: "string \<Rightarrow> int \<Rightarrow> metaState list \<Rightarrow> metaState \<Rightarrow> metaState" where
  "waitPartitions name want = wait_view (\<lambda>m. case Partitions m name of None \<Rightarrow> False | Some n \<Rightarrow> n \<ge> want)"

definition proposeCreate :: "'s Backend_ops \<Rightarrow> broker_env \<Rightarrow> control \<Rightarrow> string \<Rightarrow> int \<Rightarrow> 's BrokerState
    \<Rightarrow> (goerror option \<times> 's BrokerState) run" where
  "proposeCreate B env c name np0 b =
     (let np1 = (if np0 \<le> 0 then cf_NumPartitions (br_cfg b) else np0);
          np = (if np1 \<le> 0 then 1 else np1)
      in run_bind (Some (go_mapM (\<lambda>p. ReplicasFor (br_cluster b) name p (replicationFactor b)) (int_range 0 np))) (\<lambda>replicas.
           let cmd = (zero_cmd CmdCreateTopic)\<lparr>c_Topic := name, c_Replicas := replicas\<rparr>;
               (e, q) = Ctl_Apply (bv_ctl env) (ct_quorum c) cmd;
               m = first_view (bv_views env cmd) (ct_fsm c);
               b1 = set_quorum q b
           in if e \<noteq> None \<and> \<not> HasTopic m name then ret (e, set_fsm m b1)
              else run_bind (reconcileFromFSM B (bv_now env) (set_fsm (waitTopic name (bv_views env cmd) m) b1)) (\<lambda>b2.
                ret (None, b2))))"

definition CreatePartitions :: "'s Backend_ops \<Rightarrow> broker_env \<Rightarrow> string \<Rightarrow> int \<Rightarrow> 's BrokerState
    \<Rightarrow> (goerror option \<times> 's BrokerState) run" where
  "CreatePartitions B env name newCount b =
     (case br_ctrl b of
        Some c \<Rightarrow>
          (case Partitions (ct_fsm c) name of
             None \<Rightarrow> ret (Some (ErrTopicDoesNotExist name), b)
           | Some cur \<Rightarrow>
               if newCount \<le> cur then ret (Some (ErrAlreadyHasPartitions name cur), b)
               else run_bind (Some (go_mapM (\<lambda>p. ReplicasFor (br_cluster b) name p (replicationFactor b)) (int_range cur newCount))) (\<lambda>added.
                 let cmd = (zero_cmd CmdCreatePartitions)\<lparr>c_Topic := name, c_Replicas := added\<rparr>;
                     (e, q) = Ctl_Apply (bv_ctl env) (ct_quorum c) cmd;
                     m = first_view (bv_views env cmd) (ct_fsm c);
                     b1 = set_quorum q b
                 in if e \<noteq> None then ret (e, set_fsm m b1)
                    else run_bind (reconcileFromFSM B (bv_now env)
                      (set_fsm (waitPartitions name newCount (bv_views env cmd) m) b1)) (\<lambda>b2. ret (None, b2))))
      | None \<Rightarrow>
          (case fmlookup (br_catalog b) name of
             None \<Rightarrow> ret (Some (ErrTopicDoesNotExist name), b)
           | Some cur \<Rightarrow>
               if newCount \<le> cur then ret (Some (ErrAlreadyHasPartitions name cur), b)
               else registerLocked B b name newCount))"

definition NumPartitions :: "'s BrokerState \<Rightarrow> string \<Rightarrow> int" where
  "NumPartitions b topic =
     (case (case br_ctrl b of Some c \<Rightarrow> Partitions (ct_fsm c) topic | None \<Rightarrow> fmlookup (br_catalog b) topic) of
        Some n \<Rightarrow> n
      | None \<Rightarrow> cf_NumPartitions (br_cfg b))"

definition KnownTopics :: "'s BrokerState \<Rightarrow> TopicInfo list" where
  "KnownTopics b =
     (case br_ctrl b of
        Some c \<Rightarrow> map (\<lambda>tv. \<lparr>ti_Name = tv_Name tv, ti_Partitions = tv_Partitions tv\<rparr>) (Topics (ct_fsm c))
      | None \<Rightarrow> map (\<lambda>(name, n). \<lparr>ti_Name = name, ti_Partitions = n\<rparr>) (sorted_list_of_fmap (br_catalog b)))"

definition Knows :: "'s BrokerState \<Rightarrow> string \<Rightarrow> bool" where
  "Knows b topic \<longleftrightarrow> (case br_ctrl b of Some c \<Rightarrow> HasTopic (ct_fsm c) topic | None \<Rightarrow> fmlookup (br_catalog b) topic \<noteq> None)"

definition CreateTopic :: "'s Backend_ops \<Rightarrow> broker_env \<Rightarrow> string \<Rightarrow> int \<Rightarrow> 's BrokerState
    \<Rightarrow> (goerror option \<times> 's BrokerState) run" where
  "CreateTopic B env name partitions b =
     (case br_ctrl b of
        Some c \<Rightarrow>
          if HasTopic (ct_fsm c) name then ret (Some (ErrTopicExists name), b) else proposeCreate B env c name partitions b
      | None \<Rightarrow>
          if fmlookup (br_catalog b) name \<noteq> None then ret (Some (ErrTopicExists name), b)
          else registerLocked B b name partitions)"

definition EnsureTopic :: "'s Backend_ops \<Rightarrow> broker_env \<Rightarrow> string \<Rightarrow> 's BrokerState
    \<Rightarrow> (int \<times> goerror option \<times> 's BrokerState) run" where
  "EnsureTopic B env name b =
     (case br_ctrl b of
        Some c \<Rightarrow>
          (case Partitions (ct_fsm c) name of
             Some n \<Rightarrow> ret (n, None, b)
           | None \<Rightarrow> run_bind (proposeCreate B env c name (cf_NumPartitions (br_cfg b)) b) (\<lambda>(e, b').
               if e \<noteq> None then ret (0, e, b') else ret (NumPartitions b' name, None, b')))
      | None \<Rightarrow>
          (case fmlookup (br_catalog b) name of
             Some n \<Rightarrow> ret (n, None, b)
           | None \<Rightarrow>
               let n = cf_NumPartitions (br_cfg b) in
               run_bind (registerLocked B b name n) (\<lambda>(e, b'). if e \<noteq> None then ret (0, e, b') else ret (n, None, b'))))"

section \<open>Placement and logs\<close>

definition PartitionMeta :: "'s BrokerState \<Rightarrow> tpKey \<Rightarrow> (int \<times> int \<times> int list \<times> int list) go" where
  "PartitionMeta b k =
     (case fsm_view b k of
        Some pv \<Rightarrow> Ret (pv_Leader pv, pv_LeaderEpoch pv, pv_Replicas pv, pv_ISR pv)
      | None \<Rightarrow> go_bind (LeaderFor (br_cluster b) (fst k) (snd k)) (\<lambda>leader. Ret (leader, 0, [leader], [leader])))"

definition leads :: "'s BrokerState \<Rightarrow> tpKey \<Rightarrow> bool go" where
  "leads b k =
     (if br_ctrl b \<noteq> None then
        Ret (case fsm_view b k of Some pv \<Rightarrow> pv_Leader pv = br_self b | None \<Rightarrow> False)
      else IsLeader (br_cluster b) (fst k) (snd k))"

definition LocalLog :: "'s Backend_ops \<Rightarrow> 's BrokerState \<Rightarrow> tpKey \<Rightarrow> (goerror option \<times> 's BrokerState) run" where
  "LocalLog B b k =
     (let np = NumPartitions b (fst k) in
      if snd k < 0 \<or> snd k \<ge> np then ret (Some ErrUnknownPartition, b)
      else run_bind (Some (leads b k)) (\<lambda>lead.
        if \<not> lead then ret (Some ErrNotLeader, b)
        else if k |\<in>| br_logs b then ret (None, b)
        else if br_ctrl b = None \<and> fmlookup (br_catalog b) (fst k) = None then
          run_bind (registerLocked B b (fst k) np) (\<lambda>(e, b'). if e \<noteq> None then ret (e, b') else openLocked B b' k)
        else openLocked B b k))"

text \<open>The background passes over all logs, in the order in which the maps are visited.\<close>

fun flush_logs :: "'s Backend_ops \<Rightarrow> tpKey list \<Rightarrow> 's \<Rightarrow> goerror option \<times> 's" where
  "flush_logs B [] s = (None, s)"
| "flush_logs B (k # ks) s = (case be_Flush B s k of (Some e, s') \<Rightarrow> (Some e, s') | (None, s') \<Rightarrow> flush_logs B ks s')"

definition FlushAll :: "'s Backend_ops \<Rightarrow> (tpKey fset \<Rightarrow> tpKey list) \<Rightarrow> 's BrokerState \<Rightarrow> goerror option \<times> 's BrokerState" where
  "FlushAll B order b = (case flush_logs B (order (br_logs b)) (br_store b) of (e, s) \<Rightarrow> (e, b\<lparr>br_store := s\<rparr>))"

definition Broker_EnforceRetention :: "'s Backend_ops \<Rightarrow> (tpKey fset \<Rightarrow> tpKey list) \<Rightarrow> 's BrokerState \<Rightarrow> 's BrokerState" where
  "Broker_EnforceRetention B order b =
     (let conf = br_cfg b in
      if cf_RetentionMs conf \<le> 0 \<and> cf_RetentionBytes conf \<le> 0 then b
      else b\<lparr>br_store := fold (\<lambda>k s. snd (be_EnforceRetention B s k (cf_RetentionMs conf) (cf_RetentionBytes conf)))
             (order (br_logs b)) (br_store b)\<rparr>)"

definition Broker_Close :: "'s BrokerState \<Rightarrow> 's BrokerState" where
  "Broker_Close b = b\<lparr>br_maint := False, br_repl := map_option Manager_Close (br_repl b)\<rparr>"

end
