(* ===== verification/Data_Handlers.thy ===== *)
theory Data_Handlers
  imports Broker_Core
begin

text \<open>
  The handlers of \<open>internal/server/handlers.go\<close> that read and write partition logs: Produce, Fetch and
  ListOffsets. Produce with \<open>acks = -1\<close> and Fetch sleep and look again until their deadline; what the
  other requests do to the broker during a sleep is a function on its state, and the list of these
  functions covers the sleeps before the deadline.
\<close>

definition encode :: "(writer \<Rightarrow> writer) \<Rightarrow> bytes" where
  "encode fn = fn NewWriter"

definition leaderLog :: "'s Backend_ops \<Rightarrow> 's BrokerState \<Rightarrow> tpKey \<Rightarrow> (int \<times> 's BrokerState) run" where
  "leaderLog B b k =
     run_bind (LocalLog B b k) (\<lambda>(e, b').
       ret (case e of None \<Rightarrow> ErrNone_code | Some ErrNotLeader \<Rightarrow> ErrNotLeader_code | Some _ \<Rightarrow> ErrUnknownTopicOrPart_code, b'))"

section \<open>Produce\<close>

text \<open>The callback of \<open>Iterate\<close>: append, and remember the first offset.\<close>

definition produce_batch :: "'s Backend_ops \<Rightarrow> tpKey \<Rightarrow> bytes \<Rightarrow> 's \<times> int \<Rightarrow> (goerror option \<times> 's \<times> int) go" where
  "produce_batch B k batch = (\<lambda>(s, base).
     go_bind (be_Append B s k batch) (\<lambda>(off, aerr, s'). Ret (aerr, (s', if base < 0 then off else base))))"

definition records_of :: "bytes option \<Rightarrow> bytes" where
  "records_of rs = (case rs of None \<Rightarrow> [] | Some d \<Rightarrow> d)"

text \<open>One partition of a request: its slot in the response, and the offset to wait for.\<close>

definition produce_partition :: "'s Backend_ops \<Rightarrow> int \<Rightarrow> string \<Rightarrow> ProducePartition \<Rightarrow> 's BrokerState
    \<Rightarrow> (ProducePartitionResp \<times> int option \<times> 's BrokerState) run" where
  "produce_partition B acks topic p b =
     (let k = (topic, pp_Index p);
          pr = \<lparr>ppr_Index = pp_Index p, ppr_ErrorCode = ErrNone_code, ppr_BaseOffset = -1, ppr_LogAppendTime = 0,
                ppr_LogStartOffset = 0\<rparr>
      in run_bind (leaderLog B b k) (\<lambda>(code, b1).
           if code \<noteq> ErrNone_code then ret (pr\<lparr>ppr_ErrorCode := code\<rparr>, None, b1)
           else run_bind (Iterate (records_of (pp_Records p)) (produce_batch B k) (br_store b1, -1)) (\<lambda>(_, e, s, base).
             ret (pr\<lparr>ppr_BaseOffset := base, ppr_LogStartOffset := be_EarliestOffset B s k\<rparr>,
                  if acks = -1 \<and> e = None \<and> base \<ge> 0 then Some (be_LatestOffset B s k) else None,
                  b1\<lparr>br_store := s\<rparr>))))"

record produceWait =
  pw_key :: tpKey
  pw_target :: int
  pw_ti :: nat
  pw_pi :: nat

fun produce_partitions :: "'s Backend_ops \<Rightarrow> int \<Rightarrow> nat \<Rightarrow> string \<Rightarrow> ProducePartition list \<Rightarrow> ProducePartitionResp list
    \<Rightarrow> produceWait list \<Rightarrow> 's BrokerState \<Rightarrow> (ProducePartitionResp list \<times> produceWait list \<times> 's BrokerState) run" where
  "produce_partitions B acks ti topic [] out waits b = ret (out, waits, b)"
| "produce_partitions B acks ti topic (p # ps) out waits b =
     run_bind (produce_partition B acks topic p b) (\<lambda>(pr, target, b').
       produce_partitions B acks ti topic ps (out @ [pr])
         (case target of None \<Rightarrow> waits
          | Some t \<Rightarrow> waits @ [\<lparr>pw_key = (topic, pp_Index p), pw_target = t, pw_ti = ti, pw_pi = length out\<rparr>]) b')"

fun produce_topics :: "'s Backend_ops \<Rightarrow> int \<Rightarrow> ProduceTopic list \<Rightarrow> ProduceTopicResp list \<Rightarrow> produceWait list \<Rightarrow> 's BrokerState
    \<Rightarrow> (ProduceTopicResp list \<times> produceWait list \<times> 's BrokerState) run" where
  "produce_topics B acks [] out waits b = ret (out, waits, b)"
| "produce_topics B acks (t # ts) out waits b =
     run_bind (produce_partitions B acks (length out) (pt_Name t) (pt_Partitions t) [] waits b) (\<lambda>(prs, waits', b').
       produce_topics B acks ts (out @ [\<lparr>ptr_Name = pt_Name t, ptr_Partitions = prs\<rparr>]) waits' b')"

text \<open>\<open>committed\<close>: the watermark is read, then again after each sleep before the deadline.\<close>

fun hwm_committed :: "'s Backend_ops \<Rightarrow> tpKey \<Rightarrow> int \<Rightarrow> ('s BrokerState \<Rightarrow> 's BrokerState) list \<Rightarrow> 's BrokerState
    \<Rightarrow> bool \<times> 's BrokerState" where
  "hwm_committed B k target [] b = (be_HighWatermark B (br_store b) k \<ge> target, b)"
| "hwm_committed B k target (g # gs) b =
     (if be_HighWatermark B (br_store b) k \<ge> target then (True, b) else hwm_committed B k target gs (g b))"

definition mark_timeout :: "produceWait \<Rightarrow> ProduceTopicResp list \<Rightarrow> ProduceTopicResp list" where
  "mark_timeout w topics =
     (let t = topics ! pw_ti w;
          pr = (ptr_Partitions t ! pw_pi w)\<lparr>ppr_ErrorCode := ErrRequestTimedOut_code, ppr_BaseOffset := -1\<rparr>
      in topics[pw_ti w := t\<lparr>ptr_Partitions := (ptr_Partitions t)[pw_pi w := pr]\<rparr>])"

fun awaitCommit :: "'s Backend_ops \<Rightarrow> (produceWait \<Rightarrow> ('s BrokerState \<Rightarrow> 's BrokerState) list) \<Rightarrow> produceWait list
    \<Rightarrow> ProduceTopicResp list \<Rightarrow> 's BrokerState \<Rightarrow> ProduceTopicResp list \<times> 's BrokerState" where
  "awaitCommit B polls [] topics b = (topics, b)"
| "awaitCommit B polls (w # ws) topics b =
     (case hwm_committed B (pw_key w) (pw_target w) (polls w) b of
        (True, b') \<Rightarrow> awaitCommit B polls ws topics b'
      | (False, b') \<Rightarrow> awaitCommit B polls ws (mark_timeout w topics) b')"

definition produce :: "'s Backend_ops \<Rightarrow> (produceWait \<Rightarrow> ('s BrokerState \<Rightarrow> 's BrokerState) list) \<Rightarrow> int \<Rightarrow> reader \<Rightarrow> 's BrokerState
    \<Rightarrow> ((bytes \<times> bool) \<times> 's BrokerState) run" where
  "produce B polls version r b =
     (let req = fst (run_state (ProduceRequest_Decode version) r) in
      run_bind (produce_topics B (pr_Acks req) (pr_Topics req) [] [] b) (\<lambda>(topics, waits, b1).
        if pr_Acks req = 0 then ret (([], False), b1)
        else
          let (topics', b2) = (if pr_Acks req = -1 then awaitCommit B polls waits topics b1 else (topics, b1))
          in ret ((encode (ProduceResponse_Encode \<lparr>prr_Topics = topics', prr_ThrottleTime = 0\<rparr> version), True), b2)))"

section \<open>Fetch\<close>

definition defaultFetchBytes :: int where
  "defaultFetchBytes = 2 ^ 20"

text \<open>The callback of the clamp: the bytes of the batches below the watermark.\<close>

definition clamp_batch :: "int \<Rightarrow> bytes \<Rightarrow> int \<Rightarrow> (goerror option \<times> int) go" where
  "clamp_batch hwm batch keep =
     (case ParseHeader batch of
        (h, Some e) \<Rightarrow> Ret (Some e, keep)
      | (h, None) \<Rightarrow> if LastOffset h \<ge> hwm then Ret (Some ErrClampStop, keep) else Ret (None, keep + TotalSize h))"

definition clampToHighWatermark :: "bytes \<Rightarrow> int \<Rightarrow> bytes run" where
  "clampToHighWatermark data hwm =
     (if length data = 0 then ret data
      else run_bind (Iterate data (clamp_batch hwm) 0) (\<lambda>(_, _, keep).
        if 0 \<le> keep \<and> keep \<le> int (length data) then ret (take (nat keep) data) else Some Panic))"

text \<open>One partition: its slot in the response, the bytes gathered, and whether the poll must end. A read
  that returns no bytes returns \<open>nil\<close>.\<close>

definition fetch_partition :: "'s Backend_ops \<Rightarrow> int \<Rightarrow> int \<Rightarrow> string \<Rightarrow> FetchPartition \<Rightarrow> 's BrokerState
    \<Rightarrow> (FetchPartitionResp \<times> int \<times> bool \<times> 's BrokerState) run" where
  "fetch_partition B now replicaID topic p b =
     (let k = (topic, fp_Partition p);
          pr = \<lparr>fpr_Partition = fp_Partition p, fpr_ErrorCode = ErrNone_code, fpr_HighWatermark = 0, fpr_LastStable = 0,
                fpr_LogStartOffset = 0, fpr_Records = None\<rparr>
      in run_bind (leaderLog B b k) (\<lambda>(code, b1).
           if code \<noteq> ErrNone_code then ret (pr\<lparr>fpr_ErrorCode := code\<rparr>, 0, False, b1)
           else
             let maxBytes = (if fp_MaxBytes p \<le> 0 then defaultFetchBytes else fp_MaxBytes p) in
             run_bind (be_Read B (br_store b1) k (fp_FetchOffset p) maxBytes) (\<lambda>(data, e).
               let hard = (e = Some ErrOffsetOutOfRange);
                   code' = (if hard then ErrOffsetOutOfRange_code else ErrNone_code);
                   hwm = be_HighWatermark B (br_store b1) k;
                   b2 = (if replicaID \<ge> 0 then RecordReplicaFetch B now b1 k replicaID (fp_FetchOffset p) else b1)
               in run_bind (if replicaID \<ge> 0 then ret data else clampToHighWatermark data hwm) (\<lambda>data'.
                 ret (pr\<lparr>fpr_ErrorCode := code', fpr_HighWatermark := hwm, fpr_LastStable := hwm,
                         fpr_LogStartOffset := be_EarliestOffset B (br_store b2) k,
                         fpr_Records := (if data = [] then None else Some data')\<rparr>,
                      int (length data'), hard, b2)))))"

fun fetch_partitions :: "'s Backend_ops \<Rightarrow> int \<Rightarrow> int \<Rightarrow> string \<Rightarrow> FetchPartition list \<Rightarrow> FetchPartitionResp list \<Rightarrow> int \<Rightarrow> bool
    \<Rightarrow> 's BrokerState \<Rightarrow> (FetchPartitionResp list \<times> int \<times> bool \<times> 's BrokerState) run" where
  "fetch_partitions B now rid topic [] out n hard b = ret (out, n, hard, b)"
| "fetch_partitions B now rid topic (p # ps) out n hard b =
     run_bind (fetch_partition B now rid topic p b) (\<lambda>(pr, len, h, b').
       fetch_partitions B now rid topic ps (out @ [pr]) (n + len) (hard \<or> h) b')"

fun fetch_topics :: "'s Backend_ops \<Rightarrow> int \<Rightarrow> int \<Rightarrow> FetchTopic list \<Rightarrow> FetchTopicResp list \<Rightarrow> int \<Rightarrow> bool \<Rightarrow> 's BrokerState
    \<Rightarrow> (FetchTopicResp list \<times> int \<times> bool \<times> 's BrokerState) run" where
  "fetch_topics B now rid [] out n hard b = ret (out, n, hard, b)"
| "fetch_topics B now rid (t # ts) out n hard b =
     run_bind (fetch_partitions B now rid (ft_Name t) (ft_Partitions t) [] n hard b) (\<lambda>(prs, n', hard', b').
       fetch_topics B now rid ts (out @ [\<lparr>ftr_Name = ft_Name t, ftr_Partitions = prs\<rparr>]) n' hard' b')"

definition buildFetch :: "'s Backend_ops \<Rightarrow> int \<Rightarrow> FetchRequest \<Rightarrow> 's BrokerState
    \<Rightarrow> (FetchResponse \<times> int \<times> bool \<times> 's BrokerState) run" where
  "buildFetch B now req b =
     run_bind (fetch_topics B now (fr_ReplicaID req) (fr_Topics req) [] 0 False b) (\<lambda>(topics, n, hard, b').
       ret (\<lparr>frr_ThrottleTime = 0, frr_ErrorCode = 0, frr_SessionID = 0, frr_Topics = topics\<rparr>, n, hard, b'))"

text \<open>The long poll: each element of the list is the clock of a turn and what happens during the sleep after it; the last
  turn, at \<open>final\<close>, is the first at or after the deadline.\<close>

definition maxFetchWait :: int where
  "maxFetchWait = 5 * 10 ^ 9"

definition fetch_wait :: "FetchRequest \<Rightarrow> int" where
  "fetch_wait req = (let wait = fr_MaxWaitMs req * 10 ^ 6 in if wait > maxFetchWait then maxFetchWait else wait)"

definition fetch_min :: "FetchRequest \<Rightarrow> int" where
  "fetch_min req = (if fr_MinBytes req < 1 then 1 else fr_MinBytes req)"

fun fetch_loop :: "'s Backend_ops \<Rightarrow> FetchRequest \<Rightarrow> (int \<times> ('s BrokerState \<Rightarrow> 's BrokerState)) list \<Rightarrow> int \<Rightarrow> 's BrokerState
    \<Rightarrow> (FetchResponse \<times> 's BrokerState) run" where
  "fetch_loop B req [] final b = run_bind (buildFetch B final req b) (\<lambda>(resp, _, _, b'). ret (resp, b'))"
| "fetch_loop B req ((now, g) # turns) final b =
     run_bind (buildFetch B now req b) (\<lambda>(resp, n, hard, b').
       if hard \<or> n \<ge> fetch_min req \<or> fetch_wait req \<le> 0 then ret (resp, b')
       else fetch_loop B req turns final (g b'))"

definition fetch :: "'s Backend_ops \<Rightarrow> (int \<times> ('s BrokerState \<Rightarrow> 's BrokerState)) list \<Rightarrow> int \<Rightarrow> int \<Rightarrow> reader \<Rightarrow> 's BrokerState
    \<Rightarrow> (bytes \<times> 's BrokerState) run" where
  "fetch B turns final version r b =
     (let req = fst (run_state (FetchRequest_Decode version) r) in
      run_bind (fetch_loop B req turns final b) (\<lambda>(resp, b'). ret (encode (FetchResponse_Encode resp version), b')))"

section \<open>ListOffsets\<close>

definition list_partition :: "'s Backend_ops \<Rightarrow> string \<Rightarrow> ListOffsetsPartition \<Rightarrow> 's BrokerState
    \<Rightarrow> (ListOffsetsPartitionResp \<times> 's BrokerState) run" where
  "list_partition B topic p b =
     (let k = (topic, lp_Index p);
          pr = \<lparr>lpr_Index = lp_Index p, lpr_ErrorCode = ErrNone_code, lpr_Timestamp = -1, lpr_Offset = 0\<rparr>
      in run_bind (leaderLog B b k) (\<lambda>(code, b1).
           if code \<noteq> ErrNone_code then ret (pr\<lparr>lpr_ErrorCode := code\<rparr>, b1)
           else if lp_Timestamp p = TimestampEarliest then ret (pr\<lparr>lpr_Offset := be_EarliestOffset B (br_store b1) k\<rparr>, b1)
           else if lp_Timestamp p = TimestampLatest then ret (pr\<lparr>lpr_Offset := be_HighWatermark B (br_store b1) k\<rparr>, b1)
           else run_bind (be_OffsetForTimestamp B (br_store b1) k (lp_Timestamp p)) (\<lambda>(off, found).
             ret (pr\<lparr>lpr_Offset := (if found then off else -1)\<rparr>, b1))))"

text \<open>A handler that maps a step over the items of a request.\<close>

fun map_run :: "('x \<Rightarrow> 'st \<Rightarrow> ('y \<times> 'st) run) \<Rightarrow> 'x list \<Rightarrow> 'st \<Rightarrow> ('y list \<times> 'st) run" where
  "map_run f [] s = ret ([], s)"
| "map_run f (x # xs) s =
     run_bind (f x s) (\<lambda>(y, s1). run_bind (map_run f xs s1) (\<lambda>(ys, s2). ret (y # ys, s2)))"

definition listOffsets :: "'s Backend_ops \<Rightarrow> int \<Rightarrow> reader \<Rightarrow> 's BrokerState \<Rightarrow> (bytes \<times> 's BrokerState) run" where
  "listOffsets B version r b =
     (let req = fst (run_state (ListOffsetsRequest_Decode version) r) in
      run_bind (map_run (\<lambda>t b. run_bind (map_run (list_partition B (lt_Name t)) (lt_Partitions t) b)
          (\<lambda>(prs, b'). ret (\<lparr>ltr_Name = lt_Name t, ltr_Partitions = prs\<rparr>, b'))) (lr_Topics req) b) (\<lambda>(topics, b').
        ret (encode (ListOffsetsResponse_Encode \<lparr>lrr_ThrottleTime = 0, lrr_Topics = topics\<rparr> version), b')))"

end
