(* ===== verification/Group.thy ===== *)
theory Group
  imports Offset_Store Protocol_Core
begin

text \<open>
  \<open>internal/group/coordinator.go\<close>: the consumer-group coordinator. A coordinator maps group ids to
  groups; a group has a generation, a leader and its members. Every method runs under the lock of
  its group, so an operation is a function on the state; \<open>Sync\<close> of a follower releases the lock
  while it waits and is two functions, entering and waking. Times are in nanoseconds and arguments.
  The iteration order of the member map is the argument \<open>iter\<close>, the random part of a new member id
  the argument \<open>rid\<close>.
\<close>

section \<open>State\<close>

definition syncWaitTimeout :: int where
  "syncWaitTimeout = 30 * 10 ^ 9"

datatype groupState = stateEmpty | stateAwaitingSync | stateStable

fun groupState_String :: "groupState \<Rightarrow> string" where
  "groupState_String stateEmpty = ''Empty''"
| "groupState_String stateAwaitingSync = ''CompletingRebalance''"
| "groupState_String stateStable = ''Stable''"

record Protocol =
  pr_Name :: string
  pr_Metadata :: "bytes option"

record member =
  m_id :: string
  m_protocols :: "Protocol list"
  m_assignment :: "bytes option"
  m_lastHeartbeat :: int
  m_sessionTimeout :: int
  m_synced :: bool

type_synonym members = "(string, member) fmap"

record cgroup =
  g_id :: string
  g_protocolType :: string
  g_generation :: int
  g_leaderID :: string
  g_protocolName :: string
  g_state :: groupState
  g_members :: members

record Coordinator =
  co_groups :: "(string, cgroup) fmap"
  co_store :: OffsetStore

definition NewCoordinator :: "OffsetStore \<Rightarrow> Coordinator" where
  "NewCoordinator store = \<lparr>co_groups = fmempty, co_store = store\<rparr>"

text \<open>An iteration order visits every key once.\<close>

type_synonym iteration = "members \<Rightarrow> string list"

definition iter_ok :: "iteration \<Rightarrow> bool" where
  "iter_ok iter \<longleftrightarrow> (\<forall>m. distinct (iter m) \<and> set (iter m) = fset (fmdom m))"

definition lookup :: "Coordinator \<Rightarrow> string \<Rightarrow> cgroup option" where
  "lookup c gid = fmlookup (co_groups c) gid"

definition set_group :: "Coordinator \<Rightarrow> string \<Rightarrow> cgroup \<Rightarrow> Coordinator" where
  "set_group c gid g = c\<lparr>co_groups := fmupd gid g (co_groups c)\<rparr>"

definition metadataFor :: "member \<Rightarrow> string \<Rightarrow> bytes option" where
  "metadataFor m name =
     (case find (\<lambda>p. pr_Name p = name) (m_protocols m) of
        Some p \<Rightarrow> pr_Metadata p
      | None \<Rightarrow> (case m_protocols m of p # _ \<Rightarrow> pr_Metadata p | [] \<Rightarrow> None))"

definition chooseProtocol :: "iteration \<Rightarrow> cgroup \<Rightarrow> string" where
  "chooseProtocol iter g =
     (let any = (case List.map_filter (\<lambda>mid. case fmlookup (g_members g) mid of
                     None \<Rightarrow> None
                   | Some m \<Rightarrow> (case m_protocols m of p # _ \<Rightarrow> Some (pr_Name p) | [] \<Rightarrow> None)) (iter (g_members g)) of
                   n # _ \<Rightarrow> n | [] \<Rightarrow> [])
      in case fmlookup (g_members g) (g_leaderID g) of
        Some m \<Rightarrow> (case m_protocols m of p # _ \<Rightarrow> pr_Name p | [] \<Rightarrow> any)
      | None \<Rightarrow> any)"

section \<open>JoinGroup\<close>

definition getOrCreate :: "Coordinator \<Rightarrow> string \<Rightarrow> string \<Rightarrow> cgroup" where
  "getOrCreate c gid protocolType =
     (case lookup c gid of
        Some g \<Rightarrow> g
      | None \<Rightarrow> \<lparr>g_id = gid, g_protocolType = protocolType, g_generation = 0, g_leaderID = [], g_protocolName = [],
                 g_state = stateEmpty, g_members = fmempty\<rparr>)"

record JoinArgs =
  ja_GroupID :: string
  ja_MemberID :: string
  ja_ClientID :: string
  ja_ProtocolType :: string
  ja_Protocols :: "Protocol list"
  ja_SessionTimeoutMs :: int
  ja_RebalanceTimeoutMs :: int

record JoinResult =
  jo_ErrorCode :: int
  jo_GenerationID :: int
  jo_ProtocolName :: string
  jo_LeaderID :: string
  jo_MemberID :: string
  jo_Members :: "(string \<times> bytes option) list"

text \<open>A new round: the next generation, in which nobody has synced.\<close>

definition unsync_all :: "members \<Rightarrow> members" where
  "unsync_all ms = fmmap (\<lambda>m. m\<lparr>m_synced := False\<rparr>) ms"

definition join_id :: "string \<Rightarrow> JoinArgs \<Rightarrow> string" where
  "join_id rid args = (if ja_MemberID args = [] then ja_ClientID args @ ''-'' @ rid else ja_MemberID args)"

definition join_member :: "int \<Rightarrow> JoinArgs \<Rightarrow> string \<Rightarrow> member option \<Rightarrow> member" where
  "join_member now args memberID old =
     (let m0 = (case old of Some m \<Rightarrow> m
                | None \<Rightarrow> \<lparr>m_id = memberID, m_protocols = [], m_assignment = None, m_lastHeartbeat = 0,
                           m_sessionTimeout = 0, m_synced = False\<rparr>);
          timeout = ja_SessionTimeoutMs args * 10 ^ 6
      in m0\<lparr>m_protocols := ja_Protocols args, m_lastHeartbeat := now,
            m_sessionTimeout := (if timeout \<le> 0 then 30 * 10 ^ 9 else timeout)\<rparr>)"

definition open_round :: "cgroup \<Rightarrow> cgroup" where
  "open_round g =
     g\<lparr>g_generation := i32 (g_generation g + 1), g_state := stateAwaitingSync, g_members := unsync_all (g_members g)\<rparr>"

definition elect_joiner :: "string \<Rightarrow> cgroup \<Rightarrow> cgroup" where
  "elect_joiner memberID g =
     (if fmlookup (g_members g) (g_leaderID g) = None \<or> g_leaderID g = [] then g\<lparr>g_leaderID := memberID\<rparr> else g)"

definition join_result :: "iteration \<Rightarrow> string \<Rightarrow> cgroup \<Rightarrow> JoinResult" where
  "join_result iter memberID g =
     \<lparr>jo_ErrorCode = ErrNone_code, jo_GenerationID = g_generation g, jo_ProtocolName = g_protocolName g,
      jo_LeaderID = g_leaderID g, jo_MemberID = memberID,
      jo_Members = (if memberID = g_leaderID g
        then List.map_filter (\<lambda>mid. map_option (\<lambda>m. (mid, metadataFor m (g_protocolName g))) (fmlookup (g_members g) mid))
               (iter (g_members g))
        else [])\<rparr>"

definition join_group :: "iteration \<Rightarrow> string \<Rightarrow> int \<Rightarrow> JoinArgs \<Rightarrow> cgroup \<Rightarrow> JoinResult \<times> cgroup" where
  "join_group iter rid now args g =
     (let memberID = join_id rid args;
          old = fmlookup (g_members g) memberID;
          isNew = (ja_MemberID args = [] \<or> old = None);
          g1 = g\<lparr>g_members := fmupd memberID (join_member now args memberID old) (g_members g)\<rparr>;
          g2 = (if isNew \<or> g_state g1 \<noteq> stateAwaitingSync then open_round g1 else g1);
          g3 = elect_joiner memberID g2;
          g4 = g3\<lparr>g_protocolName := chooseProtocol iter g3\<rparr>
      in (join_result iter memberID g4, g4))"

definition Join :: "iteration \<Rightarrow> string \<Rightarrow> int \<Rightarrow> JoinArgs \<Rightarrow> Coordinator \<Rightarrow> JoinResult \<times> Coordinator" where
  "Join iter rid now args c =
     (case join_group iter rid now args (getOrCreate c (ja_GroupID args) (ja_ProtocolType args)) of
        (res, g) \<Rightarrow> (res, set_group c (ja_GroupID args) g))"

section \<open>SyncGroup\<close>

record SyncResult =
  sy_ErrorCode :: int
  sy_Assignment :: "bytes option"

abbreviation sync_error :: "int \<Rightarrow> SyncResult" where
  "sync_error code \<equiv> \<lparr>sy_ErrorCode = code, sy_Assignment = None\<rparr>"

text \<open>The result of entering or waking: done, or still waiting on the condition variable.\<close>

datatype sync_out = SyncDone SyncResult | SyncWaiting

text \<open>The end of \<open>Sync\<close>: mark the member synced and hand out its assignment. (A member that is no longer
  in the map would be read through the old pointer; its generation is then over, see below.)\<close>

definition sync_finish :: "string \<Rightarrow> int \<Rightarrow> cgroup \<Rightarrow> SyncResult \<times> cgroup" where
  "sync_finish memberID now g =
     (case fmlookup (g_members g) memberID of
        None \<Rightarrow> (sync_error ErrNone_code, g)
      | Some m \<Rightarrow>
          (\<lparr>sy_ErrorCode = ErrNone_code, sy_Assignment = m_assignment m\<rparr>,
           g\<lparr>g_members := fmupd memberID (m\<lparr>m_synced := True, m_lastHeartbeat := now\<rparr>) (g_members g)\<rparr>))"

text \<open>One check of a waiting follower: the loop condition, then the code after the loop.\<close>

definition sync_check :: "string \<Rightarrow> int \<Rightarrow> int \<Rightarrow> int \<Rightarrow> cgroup \<Rightarrow> sync_out \<times> cgroup" where
  "sync_check memberID generation deadline now g =
     (if g_state g \<noteq> stateStable \<and> generation = g_generation g \<and> now < deadline then (SyncWaiting, g)
      else if generation \<noteq> g_generation g then (SyncDone (sync_error ErrRebalanceInProgress_code), g)
      else (case sync_finish memberID now g of (r, g') \<Rightarrow> (SyncDone r, g')))"

definition assign_all :: "(string, bytes option) fmap \<Rightarrow> members \<Rightarrow> members" where
  "assign_all assignments ms =
     fmmap_keys (\<lambda>mid m. case fmlookup assignments mid of None \<Rightarrow> m | Some a \<Rightarrow> m\<lparr>m_assignment := a\<rparr>) ms"

definition sync_group ::
  "string \<Rightarrow> int \<Rightarrow> (string, bytes option) fmap \<Rightarrow> int \<Rightarrow> cgroup \<Rightarrow> sync_out \<times> cgroup" where
  "sync_group memberID generation assignments now g =
     (if fmlookup (g_members g) memberID = None then (SyncDone (sync_error ErrUnknownMemberID_code), g)
      else if generation \<noteq> g_generation g then (SyncDone (sync_error ErrIllegalGeneration_code), g)
      else if memberID = g_leaderID g then
        (case sync_finish memberID now (g\<lparr>g_members := assign_all assignments (g_members g), g_state := stateStable\<rparr>) of
           (r, g') \<Rightarrow> (SyncDone r, g'))
      else sync_check memberID generation (now + syncWaitTimeout) now g)"

definition Sync_enter ::
  "string \<Rightarrow> string \<Rightarrow> int \<Rightarrow> (string, bytes option) fmap \<Rightarrow> int \<Rightarrow> Coordinator \<Rightarrow> sync_out \<times> Coordinator" where
  "Sync_enter groupID memberID generation assignments now c =
     (case lookup c groupID of
        None \<Rightarrow> (SyncDone (sync_error ErrUnknownMemberID_code), c)
      | Some g \<Rightarrow>
          (case sync_group memberID generation assignments now g of (r, g') \<Rightarrow> (r, set_group c groupID g')))"

definition Sync_wake :: "string \<Rightarrow> string \<Rightarrow> int \<Rightarrow> int \<Rightarrow> int \<Rightarrow> Coordinator \<Rightarrow> sync_out \<times> Coordinator" where
  "Sync_wake groupID memberID generation deadline now c =
     (case lookup c groupID of
        None \<Rightarrow> (SyncWaiting, c)
      | Some g \<Rightarrow>
          (case sync_check memberID generation deadline now g of (r, g') \<Rightarrow> (r, set_group c groupID g')))"

section \<open>Heartbeat, LeaveGroup and session expiry\<close>

definition heartbeat_group :: "string \<Rightarrow> int \<Rightarrow> int \<Rightarrow> cgroup \<Rightarrow> int \<times> cgroup" where
  "heartbeat_group memberID generation now g =
     (case fmlookup (g_members g) memberID of
        None \<Rightarrow> (ErrUnknownMemberID_code, g)
      | Some m \<Rightarrow>
          if generation < g_generation g then (ErrRebalanceInProgress_code, g)
          else if generation > g_generation g then (ErrIllegalGeneration_code, g)
          else (ErrNone_code, g\<lparr>g_members := fmupd memberID (m\<lparr>m_lastHeartbeat := now\<rparr>) (g_members g)\<rparr>))"

definition Heartbeat :: "string \<Rightarrow> string \<Rightarrow> int \<Rightarrow> int \<Rightarrow> Coordinator \<Rightarrow> int \<times> Coordinator" where
  "Heartbeat groupID memberID generation now c =
     (case lookup c groupID of
        None \<Rightarrow> (ErrUnknownMemberID_code, c)
      | Some g \<Rightarrow> (case heartbeat_group memberID generation now g of (e, g') \<Rightarrow> (e, set_group c groupID g')))"

definition rebalanceLocked :: "iteration \<Rightarrow> cgroup \<Rightarrow> cgroup" where
  "rebalanceLocked iter g =
     (let g1 = g\<lparr>g_generation := i32 (g_generation g + 1)\<rparr> in
      if g_members g1 = fmempty then g1\<lparr>g_state := stateEmpty, g_leaderID := []\<rparr>
      else
        let g2 = g1\<lparr>g_state := stateAwaitingSync\<rparr>;
            g3 = (if fmlookup (g_members g2) (g_leaderID g2) = None
                  then (case iter (g_members g2) of mid # _ \<Rightarrow> g2\<lparr>g_leaderID := mid\<rparr> | [] \<Rightarrow> g2) else g2)
        in g3\<lparr>g_members := unsync_all (g_members g3)\<rparr>)"

definition leave_group :: "iteration \<Rightarrow> string \<Rightarrow> cgroup \<Rightarrow> int \<times> cgroup" where
  "leave_group iter memberID g =
     (if fmlookup (g_members g) memberID = None then (ErrUnknownMemberID_code, g)
      else (ErrNone_code, rebalanceLocked iter (g\<lparr>g_members := fmdrop memberID (g_members g)\<rparr>)))"

definition Leave :: "iteration \<Rightarrow> string \<Rightarrow> string \<Rightarrow> Coordinator \<Rightarrow> int \<times> Coordinator" where
  "Leave iter groupID memberID c =
     (case lookup c groupID of
        None \<Rightarrow> (ErrUnknownMemberID_code, c)
      | Some g \<Rightarrow> (case leave_group iter memberID g of (e, g') \<Rightarrow> (e, set_group c groupID g')))"

definition session_dead :: "int \<Rightarrow> member \<Rightarrow> bool" where
  "session_dead now m = (now - m_lastHeartbeat m > m_sessionTimeout m)"

definition reap_group :: "iteration \<Rightarrow> int \<Rightarrow> cgroup \<Rightarrow> cgroup" where
  "reap_group iter now g =
     (let dead = ffilter (\<lambda>mid. session_dead now (the (fmlookup (g_members g) mid))) (fmdom (g_members g)) in
      if dead = {||} then g
      else rebalanceLocked iter (g\<lparr>g_members := fmdrop_fset dead (g_members g)\<rparr>))"

text \<open>One tick of the reaper.\<close>

definition reap :: "iteration \<Rightarrow> int \<Rightarrow> Coordinator \<Rightarrow> Coordinator" where
  "reap iter now c = c\<lparr>co_groups := fmmap (reap_group iter now) (co_groups c)\<rparr>"

section \<open>ListGroups and DescribeGroups\<close>

definition ListGroups :: "Coordinator \<Rightarrow> (string \<times> string \<times> string) list" where
  "ListGroups c = map (\<lambda>(gid, g). (g_id g, g_protocolType g, groupState_String (g_state g))) (sorted_list_of_fmap (co_groups c))"

record GroupDescription =
  gd_State :: string
  gd_ProtocolType :: string
  gd_Protocol :: string
  gd_Members :: "(string \<times> bytes option \<times> bytes option) list"

definition DescribeGroup :: "iteration \<Rightarrow> Coordinator \<Rightarrow> string \<Rightarrow> GroupDescription option" where
  "DescribeGroup iter c gid =
     map_option (\<lambda>g. \<lparr>gd_State = groupState_String (g_state g), gd_ProtocolType = g_protocolType g,
         gd_Protocol = g_protocolName g,
         gd_Members = List.map_filter (\<lambda>mid. map_option (\<lambda>m. (m_id m, metadataFor m (g_protocolName g), m_assignment m))
             (fmlookup (g_members g) mid)) (iter (g_members g))\<rparr>) (lookup c gid)"

section \<open>The group invariant\<close>

text \<open>A group without members is empty and has no leader; any other group is in a round and is led by one
  of its members. Members are filed under their id and have a positive session timeout.\<close>

definition member_ok :: "string \<Rightarrow> member \<Rightarrow> bool" where
  "member_ok mid m \<longleftrightarrow> mid \<noteq> [] \<and> m_id m = mid \<and> 0 < m_sessionTimeout m"

abbreviation members_ok :: "members \<Rightarrow> bool" where
  "members_ok ms \<equiv> fmpred member_ok ms"

definition grp_ok :: "cgroup \<Rightarrow> bool" where
  "grp_ok g \<longleftrightarrow>
     (g_members g = fmempty \<longrightarrow> g_state g = stateEmpty \<and> g_leaderID g = [])
   \<and> (g_members g \<noteq> fmempty \<longrightarrow> g_state g \<noteq> stateEmpty \<and> g_leaderID g |\<in>| fmdom (g_members g))
   \<and> members_ok (g_members g)"

text \<open>What one operation does to the round: it keeps the generation, the members and the leader, or it
  opens the next generation.\<close>

definition evolves :: "cgroup \<Rightarrow> cgroup \<Rightarrow> bool" where
  "evolves g g' \<longleftrightarrow>
     g_generation g' = g_generation g \<and> fmdom (g_members g') = fmdom (g_members g) \<and> g_leaderID g' = g_leaderID g
   \<or> g_generation g' = i32 (g_generation g + 1)"

lemma evolves_refl [simp]: "evolves g g"
  by (simp add: evolves_def)

lemma fmempty_dom: "m = fmempty \<longleftrightarrow> fmdom m = {||}"
  by (metis fmdom_empty fmrestrict_fset_dom fmrestrict_fset_null)

lemma lookup_unsync: "fmlookup (unsync_all ms) mid = map_option (\<lambda>m. m\<lparr>m_synced := False\<rparr>) (fmlookup ms mid)"
  by (simp add: unsync_all_def)

lemma dom_unsync [simp]: "fmdom (unsync_all ms) = fmdom ms"
  by (simp add: unsync_all_def)

lemma lookup_assign: "fmlookup (assign_all as ms) mid =
    map_option (\<lambda>m. case fmlookup as mid of None \<Rightarrow> m | Some a \<Rightarrow> m\<lparr>m_assignment := a\<rparr>) (fmlookup ms mid)"
  by (simp add: assign_all_def)

lemma dom_assign [simp]: "fmdom (assign_all as ms) = fmdom ms"
  by (simp add: assign_all_def)

lemma in_dom_iff: "mid |\<in>| fmdom ms \<longleftrightarrow> (\<exists>m. fmlookup ms mid = Some m)"
  by (auto simp: fmlookup_dom_iff)

lemma grp_ok_iff:
  "grp_ok g \<longleftrightarrow> (fmdom (g_members g) = {||} \<longrightarrow> g_state g = stateEmpty \<and> g_leaderID g = [])
   \<and> (fmdom (g_members g) \<noteq> {||} \<longrightarrow> g_state g \<noteq> stateEmpty \<and> g_leaderID g |\<in>| fmdom (g_members g)) \<and> members_ok (g_members g)"
  unfolding grp_ok_def fmempty_dom by blast

lemma fmpred_option: "fmpred P ms \<longleftrightarrow> (\<forall>mid. pred_option (P mid) (fmlookup ms mid))"
  by (auto simp: fmpred_iff option.pred_set split: option.splits)

lemma members_ok_unsync [simp]: "members_ok (unsync_all ms) = members_ok ms"
proof -
  have "pred_option (member_ok mid) (fmlookup (unsync_all ms) mid) = pred_option (member_ok mid) (fmlookup ms mid)" for mid
    by (cases "fmlookup ms mid") (simp_all add: lookup_unsync member_ok_def)
  then show ?thesis by (simp add: fmpred_option)
qed

lemma members_ok_assign [simp]: "members_ok (assign_all as ms) = members_ok ms"
proof -
  have "pred_option (member_ok mid) (fmlookup (assign_all as ms) mid) = pred_option (member_ok mid) (fmlookup ms mid)" for mid
    by (cases "fmlookup ms mid"; cases "fmlookup as mid") (simp_all add: lookup_assign member_ok_def)
  then show ?thesis by (simp add: fmpred_option)
qed

lemma members_ok_lookup: "members_ok ms \<Longrightarrow> fmlookup ms mid = Some m \<Longrightarrow> member_ok mid m"
  by (rule fmpredD)

lemma iter_hd:
  assumes "iter_ok iter" and "fmdom ms \<noteq> {||}"
  obtains x xs where "iter ms = x # xs" "x |\<in>| fmdom ms"
proof -
  have s: "set (iter ms) = fset (fmdom ms)" using assms(1) by (simp add: iter_ok_def)
  with assms(2) have "iter ms \<noteq> []" by (metis bot_fset.rep_eq fset_inject set_empty)
  then obtain x xs where x: "iter ms = x # xs" by (meson list.exhaust)
  with s have "x \<in> fset (fmdom ms)" by (metis list.set_intros(1))
  with x show thesis by (rule that)
qed

lemma rebalance_empty:
  "fmdom (g_members g) = {||} \<Longrightarrow> rebalanceLocked iter g =
     g\<lparr>g_generation := i32 (g_generation g + 1), g_state := stateEmpty, g_leaderID := []\<rparr>"
  by (simp add: rebalanceLocked_def Let_def fmempty_dom)

lemma rebalance_nonempty:
  assumes "iter_ok iter" and "fmdom (g_members g) \<noteq> {||}"
  obtains l where "l |\<in>| fmdom (g_members g)" "g_leaderID g |\<in>| fmdom (g_members g) \<Longrightarrow> l = g_leaderID g"
    "rebalanceLocked iter g = g\<lparr>g_generation := i32 (g_generation g + 1), g_state := stateAwaitingSync,
       g_leaderID := l, g_members := unsync_all (g_members g)\<rparr>"
proof (cases "fmlookup (g_members g) (g_leaderID g)")
  case None
  obtain x xs where "iter (g_members g) = x # xs" "x |\<in>| fmdom (g_members g)" using iter_hd [OF assms] .
  with None assms(2) show thesis
    by (intro that [of x]) (simp_all add: rebalanceLocked_def Let_def fmempty_dom in_dom_iff)
next
  case (Some m)
  with assms(2) show thesis
    by (intro that [of "g_leaderID g"]) (simp_all add: rebalanceLocked_def Let_def fmempty_dom in_dom_iff)
qed

lemma group_rebalance:
  assumes "iter_ok iter" and "members_ok (g_members g)"
  shows "grp_ok (rebalanceLocked iter g)" "g_generation (rebalanceLocked iter g) = i32 (g_generation g + 1)"
    "fmdom (g_members (rebalanceLocked iter g)) = fmdom (g_members g)"
proof -
  have "grp_ok (rebalanceLocked iter g) \<and> g_generation (rebalanceLocked iter g) = i32 (g_generation g + 1)
    \<and> fmdom (g_members (rebalanceLocked iter g)) = fmdom (g_members g)"
  proof (cases "fmdom (g_members g) = {||}")
    case True
    then show ?thesis using assms(2) by (simp add: rebalance_empty grp_ok_iff)
  next
    case False
    then obtain l where "l |\<in>| fmdom (g_members g)"
      "rebalanceLocked iter g = g\<lparr>g_generation := i32 (g_generation g + 1), g_state := stateAwaitingSync,
         g_leaderID := l, g_members := unsync_all (g_members g)\<rparr>"
      using rebalance_nonempty [OF assms(1)] by metis
    with False assms(2) show ?thesis by (simp add: grp_ok_iff)
  qed
  then show "grp_ok (rebalanceLocked iter g)" "g_generation (rebalanceLocked iter g) = i32 (g_generation g + 1)"
    "fmdom (g_members (rebalanceLocked iter g)) = fmdom (g_members g)" by blast+
qed

lemma join_id_nonempty [simp]: "join_id rid args \<noteq> []"
  by (simp add: join_id_def)

lemma join_member_ok:
  assumes "members_ok ms" and "mid \<noteq> []"
  shows "member_ok mid (join_member now args mid (fmlookup ms mid))"
proof (cases "fmlookup ms mid")
  case (Some m)
  with assms have "m_id m = mid" using fmpredD [of member_ok ms mid m] by (simp add: member_ok_def)
  with Some assms(2) show ?thesis by (simp add: join_member_def member_ok_def Let_def)
qed (use assms(2) in \<open>simp add: join_member_def member_ok_def Let_def\<close>)

lemma grp_ok_elect:
  assumes "g_state g \<noteq> stateEmpty" "mid |\<in>| fmdom (g_members g)" "members_ok (g_members g)"
  shows "grp_ok ((elect_joiner mid g)\<lparr>g_protocolName := n\<rparr>)"
proof (cases "fmlookup (g_members g) (g_leaderID g) = None \<or> g_leaderID g = []")
  case True
  with assms show ?thesis by (auto simp: grp_ok_iff elect_joiner_def)
next
  case False
  with assms show ?thesis by (auto simp: grp_ok_iff elect_joiner_def fmdomI)
qed

lemma elect_joiner_same: "g_leaderID g |\<in>| fmdom (g_members g) \<Longrightarrow> g_leaderID g \<noteq> [] \<Longrightarrow> elect_joiner mid g = g"
  by (auto simp: elect_joiner_def in_dom_iff)

lemma elect_joiner_fields [simp]: "g_generation (elect_joiner mid g) = g_generation g"
  "g_members (elect_joiner mid g) = g_members g" "g_state (elect_joiner mid g) = g_state g"
  by (simp_all add: elect_joiner_def)

lemma leader_nonempty:
  assumes "grp_ok g" and "g_members g \<noteq> fmempty"
  shows "g_leaderID g |\<in>| fmdom (g_members g) \<and> g_leaderID g \<noteq> []"
proof -
  from assms have l: "g_leaderID g |\<in>| fmdom (g_members g)" "members_ok (g_members g)" by (simp_all add: grp_ok_def)
  then obtain m where "fmlookup (g_members g) (g_leaderID g) = Some m" by (auto simp: in_dom_iff)
  with l(2) have "member_ok (g_leaderID g) m" by (rule fmpredD)
  with l(1) show ?thesis by (simp add: member_ok_def)
qed

lemma join_group_ok:
  assumes "grp_ok g"
  shows "grp_ok (snd (join_group iter rid now args g))" "evolves g (snd (join_group iter rid now args g))"
proof -
  define mid old where "mid = join_id rid args" and "old = fmlookup (g_members g) mid"
  define g1 where "g1 = g\<lparr>g_members := fmupd mid (join_member now args mid old) (g_members g)\<rparr>"
  define isNew where "isNew \<longleftrightarrow> ja_MemberID args = [] \<or> old = None"
  define g2 where "g2 = (if isNew \<or> g_state g1 \<noteq> stateAwaitingSync then open_round g1 else g1)"
  have mid: "mid \<noteq> []" by (simp add: mid_def)
  have j: "snd (join_group iter rid now args g) =
      (elect_joiner mid g2)\<lparr>g_protocolName := chooseProtocol iter (elect_joiner mid g2)\<rparr>"
    by (simp only: join_group_def Let_def snd_conv mid_def old_def g1_def isNew_def g2_def)
  have ok: "members_ok (g_members g)" using assms by (simp add: grp_ok_def)
  then have ok1: "members_ok (g_members g1)" "mid |\<in>| fmdom (g_members g1)"
    using join_member_ok [OF ok mid, of now args] by (auto simp: g1_def old_def)
  then have "members_ok (g_members g2)" "mid |\<in>| fmdom (g_members g2)" "g_state g2 = stateAwaitingSync"
    by (auto simp: g2_def open_round_def)
  then show "grp_ok (snd (join_group iter rid now args g))" unfolding j by (intro grp_ok_elect) simp_all
  show "evolves g (snd (join_group iter rid now args g))"
  proof (cases "isNew \<or> g_state g1 \<noteq> stateAwaitingSync")
    case True
    then have "g_generation g2 = i32 (g_generation g + 1)" by (simp add: g2_def open_round_def g1_def)
    then show ?thesis by (simp add: j evolves_def)
  next
    case False
    then have g2: "g2 = g1" by (simp add: g2_def)
    from False have "fmlookup (g_members g) mid \<noteq> None" by (simp add: isNew_def old_def)
    then have dom: "fmdom (g_members g1) = fmdom (g_members g)" "g_members g \<noteq> fmempty"
      by (auto simp: g1_def in_dom_iff)
    with leader_nonempty [OF assms] have "elect_joiner mid g1 = g1"
      by (intro elect_joiner_same) (simp_all add: g1_def)
    with dom show ?thesis by (simp add: j g2 evolves_def) (simp add: g1_def)
  qed
qed

lemma grp_ok_upd_member:
  assumes "grp_ok g" and "fmlookup (g_members g) mid = Some m" and "m_id m' = m_id m" "m_sessionTimeout m' = m_sessionTimeout m"
  shows "grp_ok (g\<lparr>g_members := fmupd mid m' (g_members g)\<rparr>)"
    "fmdom (fmupd mid m' (g_members g)) = fmdom (g_members g)"
proof -
  show dom: "fmdom (fmupd mid m' (g_members g)) = fmdom (g_members g)"
    using assms(2) by (auto simp: in_dom_iff)
  from assms(1) have ok: "members_ok (g_members g)" by (simp add: grp_ok_def)
  from fmpredD [OF this assms(2)] assms(3,4) have "member_ok mid m'" by (simp add: member_ok_def)
  with ok have "members_ok (fmupd mid m' (g_members g))" by (rule fmpred_upd)
  with assms(1) dom show "grp_ok (g\<lparr>g_members := fmupd mid m' (g_members g)\<rparr>)" unfolding grp_ok_iff by simp
qed

lemma sync_finish_ok:
  assumes "grp_ok g"
  shows "grp_ok (snd (sync_finish mid now g))" "evolves g (snd (sync_finish mid now g))"
proof -
  have "grp_ok (snd (sync_finish mid now g)) \<and> evolves g (snd (sync_finish mid now g))"
  proof (cases "fmlookup (g_members g) mid")
    case (Some m)
    with grp_ok_upd_member [OF assms Some] show ?thesis by (simp add: sync_finish_def evolves_def)
  qed (use assms in \<open>simp add: sync_finish_def\<close>)
  then show "grp_ok (snd (sync_finish mid now g))" "evolves g (snd (sync_finish mid now g))" by blast+
qed

lemma sync_check_ok:
  assumes "grp_ok g"
  shows "grp_ok (snd (sync_check mid gen deadline now g))" "evolves g (snd (sync_check mid gen deadline now g))"
  using assms sync_finish_ok [OF assms, of mid now] by (simp_all add: sync_check_def case_prod_beta)

lemma sync_group_ok:
  assumes "grp_ok g"
  shows "grp_ok (snd (sync_group mid gen as now g))" "evolves g (snd (sync_group mid gen as now g))"
proof -
  let ?g = "g\<lparr>g_members := assign_all as (g_members g), g_state := stateStable\<rparr>"
  consider "fmlookup (g_members g) mid = None \<or> gen \<noteq> g_generation g"
    | m where "fmlookup (g_members g) mid = Some m" "gen = g_generation g" "mid = g_leaderID g"
    | m where "fmlookup (g_members g) mid = Some m" "gen = g_generation g" "mid \<noteq> g_leaderID g" by fastforce
  then have "grp_ok (snd (sync_group mid gen as now g)) \<and> evolves g (snd (sync_group mid gen as now g))"
  proof cases
    case 1
    then show ?thesis using assms by (auto simp: sync_group_def)
  next
    case 2
    then have "fmdom (g_members g) \<noteq> {||}" by (auto dest: fmdomI)
    with assms have ok: "grp_ok ?g" by (simp add: grp_ok_iff)
    have "snd (sync_group mid gen as now g) = snd (sync_finish mid now ?g)"
      using 2 by (simp add: sync_group_def case_prod_beta)
    moreover have "evolves g (snd (sync_finish mid now ?g))"
      using sync_finish_ok(2) [OF ok, of mid now] by (simp add: evolves_def)
    ultimately show ?thesis using sync_finish_ok(1) [OF ok, of mid now] by simp
  next
    case 3
    then have "sync_group mid gen as now g = sync_check mid gen (now + syncWaitTimeout) now g" by (simp add: sync_group_def)
    then show ?thesis using sync_check_ok [OF assms] by simp
  qed
  then show "grp_ok (snd (sync_group mid gen as now g))" "evolves g (snd (sync_group mid gen as now g))" by blast+
qed

lemma heartbeat_group_ok:
  assumes "grp_ok g"
  shows "grp_ok (snd (heartbeat_group mid gen now g))" "evolves g (snd (heartbeat_group mid gen now g))"
proof -
  have "grp_ok (snd (heartbeat_group mid gen now g)) \<and> evolves g (snd (heartbeat_group mid gen now g))"
  proof (cases "fmlookup (g_members g) mid")
    case (Some m)
    with grp_ok_upd_member [OF assms Some, of "m\<lparr>m_lastHeartbeat := now\<rparr>"] assms show ?thesis
      by (simp add: heartbeat_group_def evolves_def)
  qed (use assms in \<open>simp add: heartbeat_group_def\<close>)
  then show "grp_ok (snd (heartbeat_group mid gen now g))" "evolves g (snd (heartbeat_group mid gen now g))" by blast+
qed

lemma rebalance_ok:
  assumes "iter_ok iter" and "members_ok ms" and "g_generation g0 = g_generation g" and "g_members g0 = ms"
  shows "grp_ok (rebalanceLocked iter g0)" "evolves g (rebalanceLocked iter g0)"
  using group_rebalance [OF assms(1), of g0] assms(2-4) by (simp_all add: evolves_def)

lemma leave_group_ok:
  assumes "grp_ok g" and "iter_ok iter"
  shows "grp_ok (snd (leave_group iter mid g))" "evolves g (snd (leave_group iter mid g))"
  using rebalance_ok [OF assms(2), of "fmdrop mid (g_members g)" "g\<lparr>g_members := fmdrop mid (g_members g)\<rparr>" g] assms(1)
  by (auto simp: leave_group_def grp_ok_iff)

lemma reap_group_ok:
  assumes "grp_ok g" and "iter_ok iter"
  shows "grp_ok (reap_group iter now g)" "evolves g (reap_group iter now g)"
proof -
  let ?dead = "ffilter (\<lambda>mid. session_dead now (the (fmlookup (g_members g) mid))) (fmdom (g_members g))"
  have "members_ok (fmdrop_fset ?dead (g_members g))" using assms(1) by (auto simp: grp_ok_iff)
  from rebalance_ok [OF assms(2) this, of "g\<lparr>g_members := fmdrop_fset ?dead (g_members g)\<rparr>" g]
  show "grp_ok (reap_group iter now g)" "evolves g (reap_group iter now g)"
    using assms(1) by (simp_all add: reap_group_def Let_def)
qed

section \<open>Runs of the coordinator\<close>

datatype co_event =
    EvJoin iteration string int JoinArgs
  | EvSync string string int "(string, bytes option) fmap" int
  | EvWake string string int int int
  | EvHeartbeat string string int int
  | EvLeave iteration string string
  | EvReap iteration int

fun co_exec :: "co_event \<Rightarrow> Coordinator \<Rightarrow> Coordinator" where
  "co_exec (EvJoin iter rid now args) c = snd (Join iter rid now args c)"
| "co_exec (EvSync gid mid gen as now) c = snd (Sync_enter gid mid gen as now c)"
| "co_exec (EvWake gid mid gen deadline now) c = snd (Sync_wake gid mid gen deadline now c)"
| "co_exec (EvHeartbeat gid mid gen now) c = snd (Heartbeat gid mid gen now c)"
| "co_exec (EvLeave iter gid mid) c = snd (Leave iter gid mid c)"
| "co_exec (EvReap iter now) c = reap iter now c"

fun event_ok :: "co_event \<Rightarrow> bool" where
  "event_ok (EvJoin iter rid now args) = iter_ok iter"
| "event_ok (EvLeave iter gid mid) = iter_ok iter"
| "event_ok (EvReap iter now) = iter_ok iter"
| "event_ok _ = True"

definition run_events :: "Coordinator \<Rightarrow> co_event list \<Rightarrow> Coordinator" where
  "run_events c evs = fold co_exec evs c"

lemma run_events_simps [simp]: "run_events c [] = c" "run_events c (e # es) = run_events (co_exec e c) es"
  by (simp_all add: run_events_def)

definition groups_ok :: "Coordinator \<Rightarrow> bool" where
  "groups_ok c \<longleftrightarrow> (\<forall>gid g. lookup c gid = Some g \<longrightarrow> grp_ok g)"

lemma lookup_set_group: "lookup (set_group c gid g) gid' = (if gid' = gid then Some g else lookup c gid')"
  by (simp add: lookup_def set_group_def)

text \<open>Every operation acts on each group by a step that keeps the group invariant and evolves the round;
  a group that did not exist starts empty.\<close>

definition acts :: "Coordinator \<Rightarrow> Coordinator \<Rightarrow> bool" where
  "acts c c' \<longleftrightarrow> (\<forall>gid. case lookup c gid of
       Some g \<Rightarrow> (\<exists>g'. lookup c' gid = Some g' \<and> (grp_ok g \<longrightarrow> grp_ok g' \<and> evolves g g'))
     | None \<Rightarrow> (case lookup c' gid of None \<Rightarrow> True | Some g' \<Rightarrow> grp_ok g'))"

lemma acts_refl [simp]: "acts c c"
  by (auto simp: acts_def split: option.split)

lemma acts_set_group:
  assumes "lookup c gid = Some g" and "grp_ok g \<Longrightarrow> grp_ok g' \<and> evolves g g'"
  shows "acts c (set_group c gid g')"
  using assms by (auto simp: acts_def lookup_set_group split: option.split)

lemma co_exec_acts:
  assumes "event_ok e"
  shows "acts c (co_exec e c)"
proof (cases e)
  case (EvJoin iter rid now args)
  let ?gid = "ja_GroupID args"
  show ?thesis
  proof (cases "lookup c ?gid")
    case None
    have "grp_ok (getOrCreate c ?gid (ja_ProtocolType args))"
      by (simp add: getOrCreate_def None grp_ok_def)
    note ok = join_group_ok(1) [OF this, of iter rid now args]
    show ?thesis using None ok
      by (auto simp: EvJoin Join_def case_prod_beta acts_def lookup_set_group split: option.split)
  next
    case (Some g)
    have "acts c (set_group c ?gid (snd (join_group iter rid now args g)))"
      by (rule acts_set_group [OF Some]) (simp add: join_group_ok)
    then show ?thesis by (simp add: EvJoin Join_def case_prod_beta getOrCreate_def Some)
  qed
next
  case (EvSync gid mid gen as now)
  then show ?thesis
    by (cases "lookup c gid") (auto simp: Sync_enter_def case_prod_beta sync_group_ok intro!: acts_set_group)
next
  case (EvWake gid mid gen deadline now)
  then show ?thesis
    by (cases "lookup c gid") (auto simp: Sync_wake_def case_prod_beta sync_check_ok intro!: acts_set_group)
next
  case (EvHeartbeat gid mid gen now)
  then show ?thesis
    by (cases "lookup c gid") (auto simp: Heartbeat_def case_prod_beta heartbeat_group_ok intro!: acts_set_group)
next
  case (EvLeave iter gid mid)
  then show ?thesis using assms
    by (cases "lookup c gid") (auto simp: Leave_def case_prod_beta leave_group_ok intro!: acts_set_group)
next
  case (EvReap iter now)
  then show ?thesis using assms reap_group_ok
    by (auto simp: acts_def reap_def lookup_def split: option.split)
qed

lemma acts_lookup:
  assumes "acts c c'" and "groups_ok c" and "lookup c gid = Some g"
  shows "\<exists>g'. lookup c' gid = Some g' \<and> grp_ok g' \<and> evolves g g'"
proof -
  from assms(1) [unfolded acts_def, rule_format, of gid] assms(3)
  obtain g' where "lookup c' gid = Some g'" "grp_ok g \<longrightarrow> grp_ok g' \<and> evolves g g'" by auto
  moreover have "grp_ok g" using assms(2,3) by (simp add: groups_ok_def)
  ultimately show ?thesis by blast
qed

lemma groups_ok_acts:
  assumes "groups_ok c" and "acts c c'"
  shows "groups_ok c'"
  unfolding groups_ok_def
proof (intro allI impI)
  fix gid g'
  assume g': "lookup c' gid = Some g'"
  show "grp_ok g'"
  proof (cases "lookup c gid")
    case None
    with assms(2) [unfolded acts_def, rule_format, of gid] g' show ?thesis by simp
  next
    case (Some g)
    with acts_lookup [OF assms(2,1) Some] g' show ?thesis by auto
  qed
qed

lemma groups_ok_exec: "groups_ok c \<Longrightarrow> event_ok e \<Longrightarrow> groups_ok (co_exec e c)"
  by (rule groups_ok_acts [OF _ co_exec_acts])

lemma groups_ok_run: "groups_ok c \<Longrightarrow> list_all event_ok evs \<Longrightarrow> groups_ok (run_events c evs)"
  by (induction evs arbitrary: c) (simp_all add: groups_ok_exec)

lemma run_round:
  assumes "groups_ok c" and "list_all event_ok evs" and "lookup c gid = Some g" and "0 \<le> g_generation g"
    and "g_generation g + int (length evs) < 2 ^ 31"
  shows "\<exists>g'. lookup (run_events c evs) gid = Some g' \<and> g_generation g \<le> g_generation g'
    \<and> (g_generation g' = g_generation g \<longrightarrow> fmdom (g_members g') = fmdom (g_members g) \<and> g_leaderID g' = g_leaderID g)"
  using assms
proof (induction evs arbitrary: c g)
  case (Cons e evs)
  then have e: "event_ok e" "list_all event_ok evs" by simp_all
  from acts_lookup [OF co_exec_acts [OF e(1)] Cons.prems(1,3)] obtain g1 where
    g1: "lookup (co_exec e c) gid = Some g1" "evolves g g1" by blast
  have "i32 (g_generation g + 1) = g_generation g + 1"
    using Cons.prems(4,5) by (intro i32_id) (simp add: in_i32_def)
  with g1(2) have gen: "g_generation g1 = g_generation g \<and> fmdom (g_members g1) = fmdom (g_members g) \<and> g_leaderID g1 = g_leaderID g
      \<or> g_generation g1 = g_generation g + 1" by (simp add: evolves_def)
  then have "0 \<le> g_generation g1" "g_generation g1 + int (length evs) < 2 ^ 31" using Cons.prems(4,5) by auto
  from Cons.IH [OF groups_ok_exec [OF Cons.prems(1) e(1)] e(2) g1(1) this] gen show ?case by auto
qed auto

text \<open>C19: a generation fixes a round. Whatever joins, syncs, heartbeats, leaves and session expiries
  happen, the generation of a group never decreases, and as long as it is the same the group has the
  same members and the same leader.\<close>

theorem generation_fixes_round:
  assumes "groups_ok c" and "list_all event_ok evs" and "lookup c gid = Some g" and "0 \<le> g_generation g"
    and "g_generation g + int (length evs) < 2 ^ 31"
  shows "\<exists>g'. lookup (run_events c evs) gid = Some g' \<and> g_generation g \<le> g_generation g'
    \<and> (g_generation g' = g_generation g \<longrightarrow> fmdom (g_members g') = fmdom (g_members g) \<and> g_leaderID g' = g_leaderID g)"
  by (rule run_round [OF assms])

definition sorted_iter :: iteration where
  "sorted_iter m = sorted_list_of_fset (fmdom m)"

lemma sorted_iter_ok [simp]: "iter_ok sorted_iter"
  by (simp add: iter_ok_def sorted_iter_def sorted_list_of_fset.rep_eq)

abbreviation sample_args :: JoinArgs where
  "sample_args \<equiv> \<lparr>ja_GroupID = ''g'', ja_MemberID = [], ja_ClientID = ''c'', ja_ProtocolType = ''consumer'',
     ja_Protocols = [], ja_SessionTimeoutMs = 10000, ja_RebalanceTimeoutMs = 10000\<rparr>"

abbreviation sample_member :: "string \<Rightarrow> member" where
  "sample_member mid \<equiv> \<lparr>m_id = mid, m_protocols = [], m_assignment = None, m_lastHeartbeat = 0,
     m_sessionTimeout = 10000000000, m_synced = False\<rparr>"

lemma sample_join:
  "\<exists>g. lookup (run_events (NewCoordinator s) [EvJoin sorted_iter ''x'' 0 sample_args]) ''g'' = Some g \<and> g_generation g = 1"
  by (simp add: Join_def case_prod_beta lookup_set_group join_group_def Let_def getOrCreate_def NewCoordinator_def
      lookup_def set_group_def open_round_def join_id_def i32_def)

theorem generation_fixes_round_witness:
  "\<exists>c g g'. lookup c ''g'' = Some g \<and> g_generation g = 1
     \<and> lookup (run_events c [EvHeartbeat ''g'' ''c-x'' 1 5]) ''g'' = Some g' \<and> 1 \<le> g_generation g'"
proof -
  define s where "s = \<lparr>os_root = [], os_cache = fmempty\<rparr>"
  define c where "c = run_events (NewCoordinator s) [EvJoin sorted_iter ''x'' 0 sample_args]"
  obtain g where g: "lookup c ''g'' = Some g" "g_generation g = 1" using sample_join [of s] by (auto simp: c_def)
  have "groups_ok (NewCoordinator s)" by (simp add: groups_ok_def NewCoordinator_def lookup_def)
  then have "groups_ok c" unfolding c_def by (rule groups_ok_run) simp
  from generation_fixes_round [OF this _ g(1), of "[EvHeartbeat ''g'' ''c-x'' 1 5]"] g show ?thesis by auto
qed

text \<open>C35: every reachable group is well-formed: an empty group has no leader, any other group is led by
  one of its members, and every member has a positive session timeout.\<close>

theorem reachable_groups_ok:
  assumes "list_all event_ok evs" and "lookup (run_events (NewCoordinator store) evs) gid = Some g"
  shows "grp_ok g"
proof -
  have "groups_ok (NewCoordinator store)" by (simp add: groups_ok_def NewCoordinator_def lookup_def)
  from groups_ok_run [OF this assms(1)] assms(2) show ?thesis by (simp add: groups_ok_def)
qed

theorem reachable_groups_ok_witness:
  "\<exists>g. lookup (run_events (NewCoordinator \<lparr>os_root = [], os_cache = fmempty\<rparr>) [EvJoin sorted_iter ''x'' 0 sample_args]) ''g'' = Some g
     \<and> grp_ok g"
proof -
  let ?s = "\<lparr>os_root = [], os_cache = fmempty\<rparr> :: OffsetStore" and ?evs = "[EvJoin sorted_iter ''x'' 0 sample_args]"
  from sample_join obtain g where g: "lookup (run_events (NewCoordinator ?s) ?evs) ''g'' = Some g" by blast
  have "list_all event_ok ?evs" by simp
  from reachable_groups_ok [OF this g] g show ?thesis by blast
qed

section \<open>Delivery of assignments\<close>

definition assigns :: "cgroup \<Rightarrow> string \<Rightarrow> bytes option option" where
  "assigns g mid = map_option m_assignment (fmlookup (g_members g) mid)"

text \<open>A step that stays in a stable generation and is not a sync of the leader keeps the assignments.\<close>

definition round_kept :: "cgroup \<Rightarrow> cgroup \<Rightarrow> bool" where
  "round_kept g g' \<longleftrightarrow> g_generation g' = i32 (g_generation g + 1)
     \<or> g_state g' = stateStable \<and> g_generation g' = g_generation g \<and> g_leaderID g' = g_leaderID g \<and> assigns g' = assigns g"

lemma round_kept_refl [simp]: "g_state g = stateStable \<Longrightarrow> round_kept g g"
  by (simp add: round_kept_def)

lemma assigns_upd:
  "fmlookup (g_members g) mid = Some m \<Longrightarrow> m_assignment m' = m_assignment m \<Longrightarrow>
     assigns (g\<lparr>g_members := fmupd mid m' (g_members g)\<rparr>) = assigns g"
  by (auto simp: assigns_def fun_eq_iff)

lemma sync_finish_keeps:
  assumes "g_state g = stateStable"
  shows "round_kept g (snd (sync_finish mid now g))"
proof (cases "fmlookup (g_members g) mid")
  case (Some m)
  with assms assigns_upd [OF Some, of "m\<lparr>m_synced := True, m_lastHeartbeat := now\<rparr>"] show ?thesis
    by (simp add: sync_finish_def round_kept_def)
qed (use assms in \<open>simp add: sync_finish_def\<close>)

lemma sync_check_keeps: "g_state g = stateStable \<Longrightarrow> round_kept g (snd (sync_check mid gen deadline now g))"
  using sync_finish_keeps [of g mid now] by (simp add: sync_check_def case_prod_beta)

lemma sync_group_keeps:
  assumes "g_state g = stateStable" and "mid \<noteq> g_leaderID g"
  shows "round_kept g (snd (sync_group mid gen as now g))"
  using assms sync_check_keeps [OF assms(1)] by (simp add: sync_group_def)

lemma heartbeat_keeps:
  assumes "g_state g = stateStable"
  shows "round_kept g (snd (heartbeat_group mid gen now g))"
proof (cases "fmlookup (g_members g) mid")
  case (Some m)
  with assms assigns_upd [OF Some, of "m\<lparr>m_lastHeartbeat := now\<rparr>"] show ?thesis
    by (simp add: heartbeat_group_def round_kept_def)
qed (use assms in \<open>simp add: heartbeat_group_def\<close>)

lemma join_keeps: "g_state g = stateStable \<Longrightarrow> round_kept g (snd (join_group iter rid now args g))"
  by (simp add: join_group_def Let_def round_kept_def open_round_def)

lemma rebalance_generation: "g_generation (rebalanceLocked iter g) = i32 (g_generation g + 1)"
  by (simp add: rebalanceLocked_def Let_def split: list.split)

lemma leave_keeps: "g_state g = stateStable \<Longrightarrow> round_kept g (snd (leave_group iter mid g))"
  by (simp add: leave_group_def round_kept_def rebalance_generation)

lemma reap_keeps: "g_state g = stateStable \<Longrightarrow> round_kept g (reap_group iter now g)"
  by (simp add: reap_group_def round_kept_def rebalance_generation Let_def)

fun leader_sync :: "string \<Rightarrow> string \<Rightarrow> co_event \<Rightarrow> bool" where
  "leader_sync gid l (EvSync gid' mid gen as now) = (gid' = gid \<and> mid = l)"
| "leader_sync gid l _ = False"

lemma co_exec_keeps:
  assumes "lookup c gid = Some g" and "g_state g = stateStable" and "\<not> leader_sync gid (g_leaderID g) e"
  shows "\<exists>g'. lookup (co_exec e c) gid = Some g' \<and> round_kept g g'"
proof (cases e)
  case (EvJoin iter rid now args)
  then show ?thesis using assms(1,2) join_keeps [OF assms(2), of iter rid now args]
    by (cases "ja_GroupID args = gid") (auto simp: Join_def case_prod_beta lookup_set_group getOrCreate_def)
next
  case (EvSync gid' mid gen as now)
  then show ?thesis using assms sync_group_keeps [OF assms(2), of mid gen as now]
    by (cases "gid' = gid"; cases "lookup c gid'") (auto simp: Sync_enter_def case_prod_beta lookup_set_group)
next
  case (EvWake gid' mid gen deadline now)
  then show ?thesis using assms sync_check_keeps [OF assms(2), of mid gen deadline now]
    by (cases "gid' = gid"; cases "lookup c gid'") (auto simp: Sync_wake_def case_prod_beta lookup_set_group)
next
  case (EvHeartbeat gid' mid gen now)
  then show ?thesis using assms heartbeat_keeps [OF assms(2), of mid gen now]
    by (cases "gid' = gid"; cases "lookup c gid'") (auto simp: Heartbeat_def case_prod_beta lookup_set_group)
next
  case (EvLeave iter gid' mid)
  then show ?thesis using assms leave_keeps [OF assms(2), of iter mid]
    by (cases "gid' = gid"; cases "lookup c gid'") (auto simp: Leave_def case_prod_beta lookup_set_group)
next
  case (EvReap iter now)
  then show ?thesis using assms reap_keeps [OF assms(2), of iter now] by (simp add: reap_def lookup_def)
qed

lemma run_keeps:
  assumes "groups_ok c" and "list_all event_ok evs" and "lookup c gid = Some g" and "0 \<le> g_generation g"
    and "g_generation g + int (length evs) < 2 ^ 31" and "g_state g = stateStable"
    and "list_all (\<lambda>e. \<not> leader_sync gid (g_leaderID g) e) evs"
    and "lookup (run_events c evs) gid = Some g'" and "g_generation g' = g_generation g"
  shows "g_state g' = stateStable \<and> assigns g' = assigns g \<and> g_leaderID g' = g_leaderID g"
  using assms
proof (induction evs arbitrary: c g)
  case (Cons e evs)
  then have e: "event_ok e" "list_all event_ok evs" "\<not> leader_sync gid (g_leaderID g) e" by simp_all
  from co_exec_keeps [OF Cons.prems(3,6) e(3)] obtain g1 where g1: "lookup (co_exec e c) gid = Some g1" "round_kept g g1"
    by blast
  have inc: "i32 (g_generation g + 1) = g_generation g + 1"
    using Cons.prems(4,5) by (intro i32_id) (simp add: in_i32_def)
  with g1(2) have gen: "g_generation g1 = g_generation g \<or> g_generation g1 = g_generation g + 1" by (auto simp: round_kept_def)
  then have b: "0 \<le> g_generation g1" "g_generation g1 + int (length evs) < 2 ^ 31" using Cons.prems(4,5) by auto
  note ok = groups_ok_exec [OF Cons.prems(1) e(1)]
  from run_round [OF ok e(2) g1(1) b] Cons.prems(8,9) have "g_generation g1 \<le> g_generation g" by simp
  with gen have same: "g_generation g1 = g_generation g" by auto
  with g1(2) inc have k: "g_state g1 = stateStable" "assigns g1 = assigns g" "g_leaderID g1 = g_leaderID g"
    by (auto simp: round_kept_def)
  with Cons.IH [OF ok e(2) g1(1) b] Cons.prems(7,8,9) same show ?case by simp
qed simp

lemma leader_sync_result:
  assumes "lookup c gid = Some g" and "fmlookup (g_members g) (g_leaderID g) = Some m"
  shows "\<exists>g1. lookup (snd (Sync_enter gid (g_leaderID g) (g_generation g) as now c)) gid = Some g1
    \<and> g_state g1 = stateStable \<and> g_generation g1 = g_generation g \<and> g_leaderID g1 = g_leaderID g
    \<and> (\<forall>mid a. fmlookup as mid = Some a \<longrightarrow> mid |\<in>| fmdom (g_members g) \<longrightarrow> assigns g1 mid = Some a)"
proof -
  let ?g = "g\<lparr>g_members := assign_all as (g_members g), g_state := stateStable\<rparr>"
  define g1 where "g1 = snd (sync_finish (g_leaderID g) now ?g)"
  obtain m1 where m1: "fmlookup (g_members ?g) (g_leaderID g) = Some m1" using assms(2) by (simp add: lookup_assign)
  then have g1: "g1 = ?g\<lparr>g_members := fmupd (g_leaderID g) (m1\<lparr>m_synced := True, m_lastHeartbeat := now\<rparr>) (g_members ?g)\<rparr>"
    by (simp add: g1_def sync_finish_def)
  have "assigns g1 = assigns ?g" unfolding g1 by (rule assigns_upd [OF m1]) simp
  then have k: "g_state g1 = stateStable" "g_generation g1 = g_generation g" "g_leaderID g1 = g_leaderID g"
    "assigns g1 = assigns ?g" by (simp_all add: g1)
  have "assigns ?g mid = Some a" if "fmlookup as mid = Some a" "mid |\<in>| fmdom (g_members g)" for mid a
    using that by (auto simp: assigns_def lookup_assign in_dom_iff)
  moreover have "lookup (snd (Sync_enter gid (g_leaderID g) (g_generation g) as now c)) gid = Some g1"
    using assms by (simp add: Sync_enter_def sync_group_def case_prod_beta lookup_set_group g1_def)
  ultimately show ?thesis using k by auto
qed

lemma stable_sync_result:
  assumes "lookup c gid = Some g" and "g_state g = stateStable" and "assigns g mid = Some a" and "mid \<noteq> g_leaderID g"
  shows "fst (Sync_enter gid mid (g_generation g) as now c) = SyncDone \<lparr>sy_ErrorCode = ErrNone_code, sy_Assignment = a\<rparr>"
    and "fst (Sync_wake gid mid (g_generation g) deadline now c) = SyncDone \<lparr>sy_ErrorCode = ErrNone_code, sy_Assignment = a\<rparr>"
proof -
  from assms(3) obtain m where m: "fmlookup (g_members g) mid = Some m" "m_assignment m = a" by (auto simp: assigns_def)
  have "fst (sync_check mid (g_generation g) d now g) = SyncDone \<lparr>sy_ErrorCode = ErrNone_code, sy_Assignment = a\<rparr>" for d
    using assms(2) m by (simp add: sync_check_def sync_finish_def)
  with assms m show "fst (Sync_enter gid mid (g_generation g) as now c) = SyncDone \<lparr>sy_ErrorCode = ErrNone_code, sy_Assignment = a\<rparr>"
    "fst (Sync_wake gid mid (g_generation g) deadline now c) = SyncDone \<lparr>sy_ErrorCode = ErrNone_code, sy_Assignment = a\<rparr>"
    by (simp_all add: Sync_enter_def Sync_wake_def sync_group_def case_prod_beta)
qed

text \<open>C18: the leader's assignment is what the members get. After the leader has synced, as long as the
  generation lasts and the leader does not sync again, every other member to which the leader gave an
  assignment receives exactly that assignment without waiting, whether it syncs later or was waiting.\<close>

theorem sync_delivers:
  assumes "groups_ok c" and "lookup c gid = Some g" and "g_leaderID g |\<in>| fmdom (g_members g)"
    and "c1 = snd (Sync_enter gid (g_leaderID g) (g_generation g) as now c)"
    and "list_all event_ok evs" and "list_all (\<lambda>e. \<not> leader_sync gid (g_leaderID g) e) evs"
    and "0 \<le> g_generation g" and "g_generation g + int (length evs) < 2 ^ 31"
    and "lookup (run_events c1 evs) gid = Some g2" and "g_generation g2 = g_generation g"
    and "fmlookup as mid = Some a" and "mid |\<in>| fmdom (g_members g)" and "mid \<noteq> g_leaderID g"
  shows "fst (Sync_enter gid mid (g_generation g) as' now' (run_events c1 evs))
      = SyncDone \<lparr>sy_ErrorCode = ErrNone_code, sy_Assignment = a\<rparr>
    \<and> fst (Sync_wake gid mid (g_generation g) deadline now' (run_events c1 evs))
      = SyncDone \<lparr>sy_ErrorCode = ErrNone_code, sy_Assignment = a\<rparr>"
proof -
  from assms(3) obtain m where m: "fmlookup (g_members g) (g_leaderID g) = Some m" by (auto simp: in_dom_iff)
  from leader_sync_result [OF assms(2) m, of as now] obtain g1 where g1: "lookup c1 gid = Some g1"
    "g_state g1 = stateStable" "g_generation g1 = g_generation g" "g_leaderID g1 = g_leaderID g" "assigns g1 mid = Some a"
    using assms(4,11,12) by auto
  have "groups_ok c1"
    using groups_ok_exec [OF assms(1), of "EvSync gid (g_leaderID g) (g_generation g) as now"] by (simp add: assms(4))
  from run_keeps [OF this assms(5) g1(1) _ _ g1(2) _ assms(9)] assms(6-8,10) g1(3,4)
  have "g_state g2 = stateStable" "assigns g2 mid = Some a" "g_leaderID g2 = g_leaderID g" by (simp_all add: g1(5))
  with stable_sync_result [OF assms(9)] assms(10,13) show ?thesis by simp
qed

theorem sync_delivers_witness:
  "\<exists>c g as c1. groups_ok c \<and> lookup c ''g'' = Some g \<and> g_leaderID g = ''a'' \<and> g_generation g = 1 \<and> g_state g = stateAwaitingSync
     \<and> c1 = snd (Sync_enter ''g'' ''a'' 1 as 5 c) \<and> fmlookup as ''b'' = Some (Some [7])
     \<and> fst (Sync_enter ''g'' ''b'' 1 fmempty 6 (run_events c1 [EvHeartbeat ''g'' ''b'' 1 6]))
       = SyncDone \<lparr>sy_ErrorCode = ErrNone_code, sy_Assignment = Some [7]\<rparr>"
proof -
  define g where "g = \<lparr>g_id = ''g'', g_protocolType = ''consumer'', g_generation = 1, g_leaderID = ''a'',
    g_protocolName = ''range'', g_state = stateAwaitingSync,
    g_members = fmupd ''a'' (sample_member ''a'') (fmupd ''b'' (sample_member ''b'') fmempty)\<rparr>"
  define c where "c = \<lparr>co_groups = fmupd ''g'' g fmempty, co_store = \<lparr>os_root = [], os_cache = fmempty\<rparr>\<rparr>"
  define as where "as = fmupd ''b'' (Some [7 :: byte]) fmempty"
  define c1 where "c1 = snd (Sync_enter ''g'' (g_leaderID g) (g_generation g) as 5 c)"
  have c: "lookup c ''g'' = Some g" "groups_ok c"
    by (auto simp: c_def g_def lookup_def groups_ok_def grp_ok_iff member_ok_def intro!: fmpred_upd split: if_splits)
  let ?evs = "[EvHeartbeat ''g'' ''b'' 1 6]"
  have l: "g_leaderID g |\<in>| fmdom (g_members g)" by (simp add: g_def)
  from l obtain m where m: "fmlookup (g_members g) (g_leaderID g) = Some m" by (auto simp: in_dom_iff)
  from leader_sync_result [OF c(1) m, of as 5] obtain g1 where g1: "lookup c1 ''g'' = Some g1"
    "g_generation g1 = g_generation g" "g_state g1 = stateStable" unfolding c1_def by blast
  from heartbeat_keeps [OF g1(3), of "''b''" 1 6]
  have "lookup (run_events c1 ?evs) ''g'' = Some (snd (heartbeat_group ''b'' 1 6 g1))"
    "g_generation (snd (heartbeat_group ''b'' 1 6 g1)) = g_generation g"
    using g1 by (simp_all add: Heartbeat_def case_prod_beta lookup_set_group heartbeat_group_def split: option.split)
  from sync_delivers [OF c(2,1) l c1_def _ _ _ _ this, of "''b''" "Some [7]" fmempty 6]
  have "fst (Sync_enter ''g'' ''b'' 1 fmempty 6 (run_events c1 ?evs))
      = SyncDone \<lparr>sy_ErrorCode = ErrNone_code, sy_Assignment = Some [7]\<rparr>"
    by (simp add: g_def as_def)
  with c show ?thesis
    by (intro exI [of _ c] exI [of _ g] exI [of _ as] exI [of _ c1]) (simp add: c1_def g_def as_def)
qed

text \<open>A follower that waits in vain is told that all is well: at its deadline \<open>Sync\<close> returns no error and
  whatever assignment the member had before.\<close>

lemma sync_timeout_returns_stale:
  assumes "lookup c gid = Some g" and "g_state g = stateAwaitingSync" and "fmlookup (g_members g) mid = Some m"
    and "deadline \<le> now"
  shows "fst (Sync_wake gid mid (g_generation g) deadline now c)
    = SyncDone \<lparr>sy_ErrorCode = ErrNone_code, sy_Assignment = m_assignment m\<rparr>"
  using assms by (simp add: Sync_wake_def sync_check_def sync_finish_def)

end
