(* ===== verification/Server.thy ===== *)
theory Server
  imports Data_Handlers Group
begin

text \<open>
  The other handlers of \<open>internal/server/handlers.go\<close>, the dispatch on the API key, and the connection
  loop of \<open>internal/server/server.go\<close>. The state of a node is its broker, its group coordinator with
  the files of the offset store, and the request counters; \<open>dispatch_env\<close> is what one request meets:
  the clock and the controller, the order of map iterations, the random member id, the texts of errors,
  and what other requests do while this one sleeps.
\<close>

record 's node =
  nd_broker :: "'s BrokerState"
  nd_coord :: Coordinator
  nd_fs :: tree
  nd_reqCount :: "int list"

record 's dispatch_env =
  dv_broker :: broker_env
  dv_iter :: iteration
  dv_member :: string
  dv_text :: "goerror \<Rightarrow> string"
  dv_polls :: "produceWait \<Rightarrow> ('s BrokerState \<Rightarrow> 's BrokerState) list"
  dv_turns :: "(int \<times> ('s BrokerState \<Rightarrow> 's BrokerState)) list"
  dv_final :: int
  dv_meanwhile :: "Coordinator \<times> tree \<Rightarrow> Coordinator \<times> tree"
  dv_wakes :: "(int \<times> ('s node \<Rightarrow> 's node)) list"

definition Requests :: "'s node \<Rightarrow> int \<Rightarrow> int" where
  "Requests nd apiKey = (if apiKey < 0 \<or> apiKey \<ge> int (length (nd_reqCount nd)) then 0 else nd_reqCount nd ! nat apiKey)"

definition count_request :: "int \<Rightarrow> 's node \<Rightarrow> 's node" where
  "count_request k nd =
     (if k \<ge> 0 \<and> k < int (length (nd_reqCount nd))
      then nd\<lparr>nd_reqCount := (nd_reqCount nd)[nat k := i64 (nd_reqCount nd ! nat k + 1)]\<rparr> else nd)"

text \<open>A handler of the broker run on the node.\<close>

definition on_broker :: "('s BrokerState \<Rightarrow> ('a \<times> 's BrokerState) run) \<Rightarrow> 's node \<Rightarrow> ('a \<times> 's node) run" where
  "on_broker f nd = run_bind (f (nd_broker nd)) (\<lambda>(x, b). ret (x, nd\<lparr>nd_broker := b\<rparr>))"

definition notCoordinator :: "'s node \<Rightarrow> string \<Rightarrow> bool go" where
  "notCoordinator nd groupID = go_bind (IsCoordinator (br_cluster (nd_broker nd)) groupID) (\<lambda>c. Ret (\<not> c))"

section \<open>ApiVersions and Metadata\<close>

definition rangeFor :: "int \<Rightarrow> int \<Rightarrow> bool" where
  "rangeFor api version = (case Supported api of None \<Rightarrow> False | Some vr \<Rightarrow> \<not> (version < vr_Min vr \<or> version > vr_Max vr))"

definition apiVersions :: "int \<Rightarrow> bytes" where
  "apiVersions version =
     (let resp = \<lparr>av_ErrorCode = ErrNone_code, av_Versions = SupportedVersions, av_ThrottleTime = 0\<rparr> in
      if \<not> rangeFor APIApiVersions version
      then encode (ApiVersionsResponse_Encode (resp\<lparr>av_ErrorCode := ErrUnsupportedVersion_code\<rparr>) 0)
      else encode (ApiVersionsResponse_Encode resp version))"

definition clusterID :: string where
  "clusterID = ''kafka-cluster''"

text \<open>The requested topics: the ones that are refused, and the ones to describe.\<close>

fun metadata_topics :: "'s Backend_ops \<Rightarrow> broker_env \<Rightarrow> string list \<Rightarrow> MetadataTopic list \<Rightarrow> (string \<times> int) list \<Rightarrow> 's BrokerState
    \<Rightarrow> ((MetadataTopic list \<times> (string \<times> int) list) \<times> 's BrokerState) run" where
  "metadata_topics B env [] refused topics b = ret ((refused, topics), b)"
| "metadata_topics B env (name # names) refused topics b =
     (let auto = cf_AutoCreateTopics (br_cfg b) in
      if \<not> Knows b name \<and> \<not> auto then
        metadata_topics B env names (refused @ [\<lparr>mt_ErrorCode = ErrUnknownTopicOrPart_code, mt_Name = name, mt_IsInternal = False,
          mt_Partitions = []\<rparr>]) topics b
      else run_bind (if auto then run_bind (EnsureTopic B env name b) (\<lambda>(_, _, b'). ret b') else ret b) (\<lambda>b'.
        metadata_topics B env names refused (topics @ [(name, NumPartitions b' name)]) b'))"

definition metadata_partition :: "'s BrokerState \<Rightarrow> string \<Rightarrow> int \<Rightarrow> MetadataPartition go" where
  "metadata_partition b name p =
     go_bind (PartitionMeta b (name, p)) (\<lambda>(leader, epoch, replicas, isr).
       Ret \<lparr>mp_ErrorCode = 0, mp_Index = p, mp_Leader = leader, mp_LeaderEpoch = epoch, mp_Replicas = replicas, mp_Isr = isr\<rparr>)"

definition metadata_topic :: "'s BrokerState \<Rightarrow> string \<times> int \<Rightarrow> MetadataTopic go" where
  "metadata_topic b = (\<lambda>(name, np).
     go_bind (go_mapM (metadata_partition b name) (int_range 0 np)) (\<lambda>ps.
       Ret \<lparr>mt_ErrorCode = ErrNone_code, mt_Name = name, mt_IsInternal = False, mt_Partitions = ps\<rparr>))"

definition metadata :: "'s Backend_ops \<Rightarrow> broker_env \<Rightarrow> int \<Rightarrow> reader \<Rightarrow> 's BrokerState \<Rightarrow> (bytes \<times> 's BrokerState) run" where
  "metadata B env version r b =
     (let req = fst (run_state (MetadataRequest_Decode version) r) in
      case Brokers (br_cluster b) of
        [] \<Rightarrow> Some Panic
      | bi # bis \<Rightarrow>
          run_bind (if mr_AllTopics req then ret (([], map (\<lambda>t. (ti_Name t, ti_Partitions t)) (KnownTopics b)), b)
                    else metadata_topics B env (mr_Topics req) [] [] b) (\<lambda>((refused, topics), b').
          run_bind (Some (go_mapM (metadata_topic b') topics)) (\<lambda>described.
            ret (encode (MetadataResponse_Encode
              \<lparr>mrr_ThrottleTime = 0,
               mrr_Brokers = map (\<lambda>bi. \<lparr>mb_NodeID = bi_NodeID bi, mb_Host = bi_Host bi, mb_Port = bi_Port bi\<rparr>) (bi # bis),
               mrr_ClusterID = Some clusterID, mrr_ControllerID = bi_NodeID bi, mrr_Topics = refused @ described\<rparr> version), b'))))"

section \<open>Consumer groups\<close>

definition findCoordinator :: "int \<Rightarrow> reader \<Rightarrow> 's node \<Rightarrow> (bytes \<times> 's node) run" where
  "findCoordinator version r nd =
     (let req = fst (run_state (FindCoordinatorRequest_Decode version) r);
          cl = br_cluster (nd_broker nd)
      in run_bind (Some (GroupCoordinator cl (fc_Key req))) (\<lambda>coordID.
           let resp = \<lparr>fcr_ThrottleTime = 0, fcr_ErrorCode = 0, fcr_ErrorMessage = None, fcr_NodeID = coordID, fcr_Host = [], fcr_Port = 0\<rparr>;
               resp' = (case Broker cl coordID of None \<Rightarrow> resp | Some bi \<Rightarrow> resp\<lparr>fcr_Host := bi_Host bi, fcr_Port := bi_Port bi\<rparr>)
           in ret (encode (FindCoordinatorResponse_Encode resp' version), nd)))"

definition joinGroup :: "'s dispatch_env \<Rightarrow> int \<Rightarrow> reader \<Rightarrow> 's node \<Rightarrow> (bytes \<times> 's node) run" where
  "joinGroup env version r nd =
     (let req = fst (run_state (JoinGroupRequest_Decode version) r) in
      run_bind (Some (notCoordinator nd (jr_GroupID req))) (\<lambda>notCoord.
        if notCoord then
          ret (encode (JoinGroupResponse_Encode \<lparr>jrr_ThrottleTime = 0, jrr_ErrorCode = ErrNotCoordinator_code, jrr_GenerationID = 0,
            jrr_ProtocolName = [], jrr_Leader = [], jrr_MemberID = [], jrr_Members = []\<rparr> version), nd)
        else
          let args = \<lparr>ja_GroupID = jr_GroupID req, ja_MemberID = jr_MemberID req, ja_ClientID = jr_GroupID req,
                ja_ProtocolType = jr_ProtocolType req,
                ja_Protocols = map (\<lambda>p. \<lparr>pr_Name = jp_Name p, pr_Metadata = jp_Metadata p\<rparr>) (jr_Protocols req),
                ja_SessionTimeoutMs = jr_SessionTimeout req, ja_RebalanceTimeoutMs = jr_RebalanceTimeout req\<rparr>;
              (res, c) = Join (dv_iter env) (dv_member env) (bv_now (dv_broker env)) args (nd_coord nd)
          in ret (encode (JoinGroupResponse_Encode \<lparr>jrr_ThrottleTime = 0, jrr_ErrorCode = jo_ErrorCode res,
               jrr_GenerationID = jo_GenerationID res, jrr_ProtocolName = jo_ProtocolName res, jrr_Leader = jo_LeaderID res,
               jrr_MemberID = jo_MemberID res,
               jrr_Members = map (\<lambda>(mid, md). \<lparr>jm_MemberID = mid, jm_Metadata = md\<rparr>) (jo_Members res)\<rparr> version),
             nd\<lparr>nd_coord := c\<rparr>)))"

text \<open>A member that waits in \<open>Sync\<close> looks again each time it is woken, at the latest at the deadline.\<close>

fun sync_loop :: "string \<Rightarrow> string \<Rightarrow> int \<Rightarrow> int \<Rightarrow> (int \<times> ('s node \<Rightarrow> 's node)) list \<Rightarrow> 's node \<Rightarrow> (SyncResult \<times> 's node) run" where
  "sync_loop gid mid gen deadline [] nd =
     (case Sync_wake gid mid gen deadline deadline (nd_coord nd) of
        (SyncDone res, c) \<Rightarrow> ret (res, nd\<lparr>nd_coord := c\<rparr>)
      | (SyncWaiting, c) \<Rightarrow> None)"
| "sync_loop gid mid gen deadline ((now, g) # wakes) nd =
     (case Sync_wake gid mid gen deadline now (nd_coord (g nd)) of
        (SyncDone res, c) \<Rightarrow> ret (res, (g nd)\<lparr>nd_coord := c\<rparr>)
      | (SyncWaiting, c) \<Rightarrow> sync_loop gid mid gen deadline wakes ((g nd)\<lparr>nd_coord := c\<rparr>))"

definition syncGroup :: "'s dispatch_env \<Rightarrow> int \<Rightarrow> reader \<Rightarrow> 's node \<Rightarrow> (bytes \<times> 's node) run" where
  "syncGroup env version r nd =
     (let req = fst (run_state (SyncGroupRequest_Decode version) r);
          respond = (\<lambda>code a. encode (SyncGroupResponse_Encode \<lparr>srr_ThrottleTime = 0, srr_ErrorCode = code, srr_Assignment = a\<rparr> version))
      in run_bind (Some (notCoordinator nd (sr_GroupID req))) (\<lambda>notCoord.
        if notCoord then ret (respond ErrNotCoordinator_code None, nd)
        else
          let now = bv_now (dv_broker env);
              assignments = fold (\<lambda>a m. fmupd (sa_MemberID a) (sa_Assignment a) m) (sr_Assignments req) fmempty
          in run_bind
               (case Sync_enter (sr_GroupID req) (sr_MemberID req) (sr_GenerationID req) assignments now (nd_coord nd) of
                  (SyncDone res, c) \<Rightarrow> ret (res, nd\<lparr>nd_coord := c\<rparr>)
                | (SyncWaiting, c) \<Rightarrow>
                    sync_loop (sr_GroupID req) (sr_MemberID req) (sr_GenerationID req) (now + syncWaitTimeout) (dv_wakes env)
                      (nd\<lparr>nd_coord := c\<rparr>))
               (\<lambda>(res, nd'). ret (respond (sy_ErrorCode res) (sy_Assignment res), nd'))))"

definition heartbeat :: "'s dispatch_env \<Rightarrow> int \<Rightarrow> reader \<Rightarrow> 's node \<Rightarrow> (bytes \<times> 's node) run" where
  "heartbeat env version r nd =
     (let req = fst (run_state (HeartbeatRequest_Decode version) r) in
      run_bind (Some (notCoordinator nd (hr_GroupID req))) (\<lambda>notCoord.
        let (code, c) = (if notCoord then (ErrNotCoordinator_code, nd_coord nd)
              else Heartbeat (hr_GroupID req) (hr_MemberID req) (hr_GenerationID req) (bv_now (dv_broker env)) (nd_coord nd))
        in ret (encode (HeartbeatResponse_Encode \<lparr>hrr_ThrottleTime = 0, hrr_ErrorCode = code\<rparr> version), nd\<lparr>nd_coord := c\<rparr>)))"

definition leaveGroup :: "'s dispatch_env \<Rightarrow> int \<Rightarrow> reader \<Rightarrow> 's node \<Rightarrow> (bytes \<times> 's node) run" where
  "leaveGroup env version r nd =
     (let req = fst (run_state (LeaveGroupRequest_Decode version) r) in
      run_bind (Some (notCoordinator nd (vg_GroupID req))) (\<lambda>notCoord.
        let (code, c) = (if notCoord then (ErrNotCoordinator_code, nd_coord nd)
              else Leave (dv_iter env) (vg_GroupID req) (vg_MemberID req) (nd_coord nd))
        in ret (encode (LeaveGroupResponse_Encode \<lparr>vgr_ThrottleTime = 0, vgr_ErrorCode = code\<rparr> version), nd\<lparr>nd_coord := c\<rparr>)))"

definition list_group :: "'s node \<Rightarrow> string \<times> string \<times> string \<Rightarrow> ListGroupsGroup list go" where
  "list_group nd = (\<lambda>(gid, ptype, _).
     go_bind (notCoordinator nd gid) (\<lambda>notCoord. Ret (if notCoord then [] else [\<lparr>lg_GroupID = gid, lg_ProtocolType = ptype\<rparr>])))"

definition listGroups :: "int \<Rightarrow> reader \<Rightarrow> 's node \<Rightarrow> (bytes \<times> 's node) run" where
  "listGroups version r nd =
     run_bind (Some (go_mapM (list_group nd) (ListGroups (nd_coord nd)))) (\<lambda>groups.
       ret (encode (ListGroupsResponse_Encode \<lparr>lgr_ThrottleTime = 0, lgr_ErrorCode = 0, lgr_Groups = concat groups\<rparr> version), nd))"

definition describe_group :: "iteration \<Rightarrow> 's node \<Rightarrow> string \<Rightarrow> DescribeGroupsGroup go" where
  "describe_group iter nd gid =
     (let dg = \<lparr>dgg_ErrorCode = ErrNone_code, dgg_GroupID = gid, dgg_State = [], dgg_ProtocolType = [], dgg_Protocol = [],
                dgg_Members = []\<rparr>
      in go_bind (notCoordinator nd gid) (\<lambda>notCoord.
           if notCoord then Ret (dg\<lparr>dgg_ErrorCode := ErrNotCoordinator_code\<rparr>)
           else case DescribeGroup iter (nd_coord nd) gid of
             None \<Rightarrow> Ret (dg\<lparr>dgg_State := ''Dead''\<rparr>)
           | Some desc \<Rightarrow>
               Ret (dg\<lparr>dgg_State := gd_State desc, dgg_ProtocolType := gd_ProtocolType desc, dgg_Protocol := gd_Protocol desc,
                 dgg_Members := map (\<lambda>(mid, md, a). \<lparr>dm_MemberID = mid, dm_ClientID = [], dm_ClientHost = [],
                   dm_Metadata = md, dm_Assignment = a\<rparr>) (gd_Members desc)\<rparr>)))"

definition describeGroups :: "'s dispatch_env \<Rightarrow> int \<Rightarrow> reader \<Rightarrow> 's node \<Rightarrow> (bytes \<times> 's node) run" where
  "describeGroups env version r nd =
     (let req = fst (run_state (DescribeGroupsRequest_Decode version) r) in
      run_bind (Some (go_mapM (describe_group (dv_iter env) nd) (dg_Groups req))) (\<lambda>groups.
        ret (encode (DescribeGroupsResponse_Encode \<lparr>dgr_ThrottleTime = 0, dgr_Groups = groups\<rparr> version), nd)))"

section \<open>Offsets\<close>

definition commit_partition :: "bool \<Rightarrow> string \<Rightarrow> string \<Rightarrow> OffsetCommitPartition \<Rightarrow> 's node
    \<Rightarrow> (OffsetCommitPartitionResp \<times> 's node) run" where
  "commit_partition notCoord gid topic p nd =
     (if notCoord then ret (\<lparr>opr_Index = op_Index p, opr_ErrorCode = ErrNotCoordinator_code\<rparr>, nd)
      else
        let meta = (case op_Metadata p of None \<Rightarrow> [] | Some m \<Rightarrow> m);
            (e, store, fs) = Commit (co_store (nd_coord nd)) (nd_fs nd) gid topic (op_Index p) (op_Offset p) meta
        in ret (\<lparr>opr_Index = op_Index p, opr_ErrorCode = (if e \<noteq> None then ErrUnknownTopicOrPart_code else ErrNone_code)\<rparr>,
             nd\<lparr>nd_coord := (nd_coord nd)\<lparr>co_store := store\<rparr>, nd_fs := fs\<rparr>))"

definition offsetCommit :: "int \<Rightarrow> reader \<Rightarrow> 's node \<Rightarrow> (bytes \<times> 's node) run" where
  "offsetCommit version r nd =
     (let req = fst (run_state (OffsetCommitRequest_Decode version) r) in
      run_bind (Some (notCoordinator nd (or_GroupID req))) (\<lambda>notCoord.
      run_bind (map_run (\<lambda>t nd. run_bind (map_run (commit_partition notCoord (or_GroupID req) (ot_Name t)) (ot_Partitions t) nd)
          (\<lambda>(prs, nd'). ret (\<lparr>otr_Name = ot_Name t, otr_Partitions = prs\<rparr>, nd'))) (or_Topics req) nd) (\<lambda>(topics, nd').
        ret (encode (OffsetCommitResponse_Encode \<lparr>orr_ThrottleTime = 0, orr_Topics = topics\<rparr> version), nd'))))"

definition fetch_offset :: "OffsetStore \<Rightarrow> string \<Rightarrow> string \<Rightarrow> int \<Rightarrow> OffsetFetchPartitionResp" where
  "fetch_offset store gid topic pid =
     (let (off, meta, found) = OffsetStore_Fetch store gid topic pid
      in \<lparr>ofp_Index = pid, ofp_Offset = (if found then off else -1), ofp_LeaderEpoch = -1,
          ofp_Metadata = (if meta \<noteq> [] then Some meta else None), ofp_ErrorCode = 0\<rparr>)"

definition offsetFetch :: "int \<Rightarrow> reader \<Rightarrow> 's node \<Rightarrow> (bytes \<times> 's node) run" where
  "offsetFetch version r nd =
     (let req = fst (run_state (OffsetFetchRequest_Decode version) r) in
      run_bind (Some (notCoordinator nd (ofr_GroupID req))) (\<lambda>notCoord.
        if notCoord then
          ret (encode (OffsetFetchResponse_Encode \<lparr>ofrr_ThrottleTime = 0, ofrr_Topics = [], ofrr_ErrorCode = ErrNotCoordinator_code\<rparr> version), nd)
        else if ofr_AllTopics req \<and> list_ex (\<lambda>t. ti_Partitions t < 0) (KnownTopics (nd_broker nd)) then Some Panic
        else
          let wants = (if ofr_AllTopics req then map (\<lambda>t. (ti_Name t, int_range 0 (ti_Partitions t))) (KnownTopics (nd_broker nd))
                       else map (\<lambda>t. (oft_Name t, oft_Partitions t)) (ofr_Topics req));
              topics = map (\<lambda>(name, parts). \<lparr>oftr_Name = name,
                oftr_Partitions = map (fetch_offset (co_store (nd_coord nd)) (ofr_GroupID req) name) parts\<rparr>) wants
          in ret (encode (OffsetFetchResponse_Encode \<lparr>ofrr_ThrottleTime = 0, ofrr_Topics = topics, ofrr_ErrorCode = 0\<rparr> version), nd)))"

section \<open>Topics\<close>

definition create_topic :: "'s Backend_ops \<Rightarrow> broker_env \<Rightarrow> (goerror \<Rightarrow> string) \<Rightarrow> CreateTopicsTopic \<Rightarrow> 's BrokerState
    \<Rightarrow> (CreateTopicsTopicResp \<times> 's BrokerState) run" where
  "create_topic B env err_text t b =
     run_bind (CreateTopic B env (ct_Name t) (ct_NumPartitions t) b) (\<lambda>(e, b').
       ret (case e of
              None \<Rightarrow> \<lparr>ctr_Name = ct_Name t, ctr_ErrorCode = ErrNone_code, ctr_ErrorMessage = None\<rparr>
            | Some e \<Rightarrow> \<lparr>ctr_Name = ct_Name t, ctr_ErrorCode = ErrTopicAlreadyExists_code, ctr_ErrorMessage = Some (err_text e)\<rparr>, b'))"

definition createTopics :: "'s Backend_ops \<Rightarrow> broker_env \<Rightarrow> (goerror \<Rightarrow> string) \<Rightarrow> int \<Rightarrow> reader \<Rightarrow> 's BrokerState
    \<Rightarrow> (bytes \<times> 's BrokerState) run" where
  "createTopics B env err_text version r b =
     (let req = fst (run_state (CreateTopicsRequest_Decode version) r) in
      run_bind (map_run (create_topic B env err_text) (cr_Topics req) b) (\<lambda>(topics, b').
        ret (encode (CreateTopicsResponse_Encode \<lparr>crr_ThrottleTime = 0, crr_Topics = topics\<rparr> version), b')))"

definition create_partitions :: "'s Backend_ops \<Rightarrow> broker_env \<Rightarrow> (goerror \<Rightarrow> string) \<Rightarrow> CreatePartitionsTopic \<Rightarrow> 's BrokerState
    \<Rightarrow> (CreatePartitionsTopicResp \<times> 's BrokerState) run" where
  "create_partitions B env err_text t b =
     run_bind (CreatePartitions B env (cpt_Name t) (cpt_Count t) b) (\<lambda>(e, b').
       ret (case e of
              None \<Rightarrow> \<lparr>cptr_Name = cpt_Name t, cptr_ErrorCode = ErrNone_code, cptr_ErrorMessage = None\<rparr>
            | Some e \<Rightarrow> \<lparr>cptr_Name = cpt_Name t, cptr_ErrorCode = ErrInvalidPartitions_code, cptr_ErrorMessage = Some (err_text e)\<rparr>, b'))"

definition createPartitions :: "'s Backend_ops \<Rightarrow> broker_env \<Rightarrow> (goerror \<Rightarrow> string) \<Rightarrow> int \<Rightarrow> reader \<Rightarrow> 's BrokerState
    \<Rightarrow> (bytes \<times> 's BrokerState) run" where
  "createPartitions B env err_text version r b =
     (let req = fst (run_state (CreatePartitionsRequest_Decode version) r) in
      run_bind (map_run (create_partitions B env err_text) (cp_Topics req) b) (\<lambda>(topics, b').
        ret (encode (CreatePartitionsResponse_Encode \<lparr>cprr_ThrottleTime = 0, cprr_Topics = topics\<rparr> version), b')))"

section \<open>Dispatch\<close>

definition replying :: "(bytes \<times> 's node) run \<Rightarrow> ((bytes \<times> bool) \<times> 's node) run" where
  "replying m = run_bind m (\<lambda>(body, nd). ret ((body, True), nd))"

text \<open>While Produce and Fetch sleep, the rest of the node goes on.\<close>

definition slept :: "'s dispatch_env \<Rightarrow> ('a \<times> 's node) run \<Rightarrow> ('a \<times> 's node) run" where
  "slept env m = run_bind m (\<lambda>(x, nd).
     let (c, fs) = dv_meanwhile env (nd_coord nd, nd_fs nd) in ret (x, nd\<lparr>nd_coord := c, nd_fs := fs\<rparr>))"

definition Dispatch :: "'s Backend_ops \<Rightarrow> 's dispatch_env \<Rightarrow> RequestHeader \<Rightarrow> reader \<Rightarrow> 's node \<Rightarrow> ((bytes \<times> bool) \<times> 's node) run" where
  "Dispatch B env hdr r nd0 =
     (let nd = count_request (rh_APIKey hdr) nd0; v = rh_APIVersion hdr; k = rh_APIKey hdr; be = dv_broker env in
      if k = APIApiVersions then ret ((apiVersions v, True), nd)
      else if k = APIMetadata then replying (on_broker (metadata B be v r) nd)
      else if k = APIProduce then slept env (on_broker (produce B (dv_polls env) v r) nd)
      else if k = APIFetch then replying (slept env (on_broker (fetch B (dv_turns env) (dv_final env) v r) nd))
      else if k = APIListOffsets then replying (on_broker (listOffsets B v r) nd)
      else if k = APIFindCoordinator then replying (findCoordinator v r nd)
      else if k = APIJoinGroup then replying (joinGroup env v r nd)
      else if k = APISyncGroup then replying (syncGroup env v r nd)
      else if k = APIHeartbeat then replying (heartbeat env v r nd)
      else if k = APILeaveGroup then replying (leaveGroup env v r nd)
      else if k = APIListGroups then replying (listGroups v r nd)
      else if k = APIDescribeGroups then replying (describeGroups env v r nd)
      else if k = APIOffsetCommit then replying (offsetCommit v r nd)
      else if k = APIOffsetFetch then replying (offsetFetch v r nd)
      else if k = APICreateTopics then replying (on_broker (createTopics B be (dv_text env) v r) nd)
      else if k = APICreatePartitions then replying (on_broker (createPartitions B be (dv_text env) v r) nd)
      else ret (([], False), nd))"

section \<open>Connections\<close>

definition maxFrameBytes :: int where
  "maxFrameBytes = 100 * 2 ^ 20"

definition writeResponse :: "int \<Rightarrow> bytes \<Rightarrow> bytes" where
  "writeResponse correlationID body =
     (let payload = Raw_w body (WriteResponseHeader correlationID NewWriter)
      in be_bytes 4 (u32 (int (length payload))) @ payload)"

text \<open>One request of a connection: \<open>None\<close> when the connection ends before or in its frame, otherwise the
  frame and the rest of the stream.\<close>

definition next_frame :: "bytes \<Rightarrow> (bytes \<times> bytes) option" where
  "next_frame conn =
     (case read_full 4 conn of
        (Inl _, _) \<Rightarrow> None
      | (Inr lenBuf, rest) \<Rightarrow>
          let size = be_uint lenBuf in
          if size = 0 \<or> size > maxFrameBytes then None
          else (case read_full (nat size) rest of (Inl _, _) \<Rightarrow> None | (Inr frame, rest') \<Rightarrow> Some (frame, rest')))"

lemma next_frame_shorter: "next_frame conn = Some (frame, rest) \<Longrightarrow> length rest < length conn"
  by (auto simp: next_frame_def read_full_def Let_def split: if_splits prod.splits sum.splits)

text \<open>The loop over the frames a client sends; \<open>envs\<close> is what the requests meet, in order, and the result
  is what the client receives. A failed write ends the loop, which the client does not see.\<close>

function handleConn :: "'s Backend_ops \<Rightarrow> (nat \<Rightarrow> 's dispatch_env) \<Rightarrow> nat \<Rightarrow> bytes \<Rightarrow> bytes \<Rightarrow> 's node \<Rightarrow> (bytes \<times> 's node) run" where
  "handleConn B envs i conn sent nd =
     (case next_frame conn of
        None \<Rightarrow> ret (sent, nd)
      | Some (frame, rest) \<Rightarrow>
          (case run_state DecodeRequestHeader (NewReader frame) of
             (hdr, r) \<Rightarrow>
               run_bind (Dispatch B (envs i) hdr r nd) (\<lambda>((body, reply), nd').
                 handleConn B envs (Suc i) rest (if reply then sent @ writeResponse (rh_CorrelationID hdr) body else sent) nd')))"
  by pat_completeness auto
termination
  by (relation "measure (\<lambda>(_, _, _, conn, _, _). length conn)") (auto dest: next_frame_shorter)

declare handleConn.simps [simp del]

end
