(* ===== verification/Broker_Inv.thy ===== *)
theory Broker_Inv
  imports Broker_Core
begin

text \<open>
  The broker over any storage that meets the contract \<open>node_logs\<close>: its operations always return, keep
  the open logs in step with the storage, and never lose or change a record of an open log.
\<close>

definition broker_ok :: "('s \<Rightarrow> bool) \<Rightarrow> ('s \<Rightarrow> tpKey \<rightharpoonup> logview) \<Rightarrow> 's BrokerState \<Rightarrow> bool" where
  "broker_ok ok view b \<longleftrightarrow> ok (br_store b) \<and> (\<forall>k. k |\<in>| br_logs b \<longleftrightarrow> view (br_store b) k \<noteq> None)
     \<and> 0 < length (brokers (br_cluster b)) \<and> length (brokers (br_cluster b)) < 2 ^ 31"

definition log_kept :: "logview \<Rightarrow> logview \<Rightarrow> bool" where
  "log_kept v v' \<longleftrightarrow> lv_batches v' = lv_batches v \<and> lv_earliest v' = lv_earliest v \<and> lv_latest v' = lv_latest v
     \<and> lv_hwm v \<le> lv_hwm v'"

definition keeps :: "('s \<Rightarrow> tpKey \<rightharpoonup> logview) \<Rightarrow> 's BrokerState \<Rightarrow> 's BrokerState \<Rightarrow> bool" where
  "keeps view b b' \<longleftrightarrow> br_cfg b' = br_cfg b \<and> br_cluster b' = br_cluster b
     \<and> (\<forall>k v. view (br_store b) k = Some v \<longrightarrow> (\<exists>v'. view (br_store b') k = Some v' \<and> log_kept v v'))"

lemma broker_okD:
  assumes "broker_ok ok view b"
  shows "ok (br_store b)" and "k |\<in>| br_logs b \<longleftrightarrow> view (br_store b) k \<noteq> None"
    and "0 < length (brokers (br_cluster b))" and "length (brokers (br_cluster b)) < 2 ^ 31"
  using assms unfolding broker_ok_def by blast+

lemma broker_okI:
  assumes "ok (br_store b)" and "\<And>k. k |\<in>| br_logs b \<longleftrightarrow> view (br_store b) k \<noteq> None"
    and "0 < length (brokers (br_cluster b))" and "length (brokers (br_cluster b)) < 2 ^ 31"
  shows "broker_ok ok view b"
  using assms unfolding broker_ok_def by blast

lemma log_kept_refl [simp]: "log_kept v v"
  by (simp add: log_kept_def)

lemma keepsI:
  assumes "br_cfg b' = br_cfg b" and "br_cluster b' = br_cluster b"
    and "\<And>k v. view (br_store b) k = Some v \<Longrightarrow> \<exists>v'. view (br_store b') k = Some v' \<and> log_kept v v'"
  shows "keeps view b b'"
  using assms unfolding keeps_def by blast

lemma keeps_self [simp]: "keeps view b b"
proof (rule keepsI)
  fix k v
  assume "view (br_store b) k = Some v"
  then show "\<exists>v'. view (br_store b) k = Some v' \<and> log_kept v v'" by (intro exI [of _ v]) simp
qed simp_all

lemma keeps_trans: "keeps view b b1 \<Longrightarrow> keeps view b1 b2 \<Longrightarrow> keeps view b b2"
proof (rule keepsI)
  assume 1: "keeps view b b1" and 2: "keeps view b1 b2"
  then show "br_cfg b2 = br_cfg b" "br_cluster b2 = br_cluster b" by (simp_all add: keeps_def)
  fix k v
  assume "view (br_store b) k = Some v"
  with 1 obtain v1 where v1: "view (br_store b1) k = Some v1" "log_kept v v1" unfolding keeps_def by blast
  with 2 obtain v2 where "view (br_store b2) k = Some v2" "log_kept v1 v2" unfolding keeps_def by blast
  with v1(2) show "\<exists>v'. view (br_store b2) k = Some v' \<and> log_kept v v'" by (auto simp: log_kept_def)
qed

text \<open>Nothing but the named fields matters.\<close>

lemma broker_ok_cong:
  "br_store b' = br_store b \<Longrightarrow> br_logs b' = br_logs b \<Longrightarrow> br_cluster b' = br_cluster b \<Longrightarrow> broker_ok ok view b' = broker_ok ok view b"
  by (simp add: broker_ok_def)

lemma keeps_cong:
  "br_store b2 = br_store b1 \<Longrightarrow> br_cfg b2 = br_cfg b1 \<Longrightarrow> br_cluster b2 = br_cluster b1 \<Longrightarrow> keeps view b b2 = keeps view b b1"
  by (simp add: keeps_def)

lemma set_fsm_fields [simp]:
  "br_store (set_fsm m b) = br_store b" "br_logs (set_fsm m b) = br_logs b" "br_cluster (set_fsm m b) = br_cluster b"
  "br_cfg (set_fsm m b) = br_cfg b" "br_store (set_quorum m b) = br_store b" "br_logs (set_quorum m b) = br_logs b"
  "br_cluster (set_quorum m b) = br_cluster b" "br_cfg (set_quorum m b) = br_cfg b"
  by (simp_all add: set_fsm_def set_quorum_def)

section \<open>Placement never panics\<close>

lemma LeaderFor_total: "0 < length (brokers c) \<Longrightarrow> length (brokers c) < 2 ^ 31 \<Longrightarrow> \<exists>l. LeaderFor c t p = Ret l"
  by (simp add: LeaderFor_def Let_def u32_def)

lemma IsLeader_total: "0 < length (brokers c) \<Longrightarrow> length (brokers c) < 2 ^ 31 \<Longrightarrow> \<exists>l. IsLeader c t p = Ret l"
  using LeaderFor_total [of c t p] by (auto simp: IsLeader_def)

lemma ReplicasFor_total: "0 < length (brokers c) \<Longrightarrow> length (brokers c) < 2 ^ 31 \<Longrightarrow> \<exists>rs. ReplicasFor c t p rf = Ret rs"
  by (simp add: ReplicasFor_def Let_def u32_def i32_def)

lemma go_mapM_total: "(\<And>x. \<exists>y. f x = Ret y) \<Longrightarrow> \<exists>ys. go_mapM f xs = Ret ys"
proof (induction xs)
  case (Cons x xs)
  obtain y where "f x = Ret y" using Cons.prems by blast
  with Cons.IH [OF Cons.prems] show ?case by auto
qed simp

section \<open>The in-sync minimum\<close>

lemma isr_min_le_leo: "isr_min slf prog isr leo \<le> leo"
proof (induction isr arbitrary: leo)
  case (Cons nid isr)
  let ?h = "if nid = slf then leo else if isr_offset prog nid < leo then isr_offset prog nid else leo"
  have "isr_min slf prog (nid # isr) leo = isr_min slf prog isr ?h" by (simp add: isr_min_def)
  also have "\<dots> \<le> ?h" by (rule Cons.IH)
  finally show ?case by (simp split: if_splits)
qed (simp add: isr_min_def)

lemma isr_min_le: "nid \<in> set isr \<Longrightarrow> nid \<noteq> slf \<Longrightarrow> isr_min slf prog isr leo \<le> isr_offset prog nid"
proof (induction isr arbitrary: leo)
  case (Cons r isr)
  let ?h = "if r = slf then leo else if isr_offset prog r < leo then isr_offset prog r else leo"
  have eq: "isr_min slf prog (r # isr) leo = isr_min slf prog isr ?h" by (simp add: isr_min_def)
  show ?case
  proof (cases "nid \<in> set isr")
    case True
    then show ?thesis unfolding eq by (rule Cons.IH) (rule Cons.prems(2))
  next
    case False
    with Cons.prems have "r = nid" by simp
    then have "?h \<le> isr_offset prog nid" using Cons.prems(2) by simp
    then show ?thesis using isr_min_le_leo [of slf prog isr ?h] unfolding eq by linarith
  qed
qed simp

lemma isr_min_attained: "isr_min slf prog isr leo = leo \<or> (\<exists>nid \<in> set isr. nid \<noteq> slf \<and> isr_min slf prog isr leo = isr_offset prog nid)"
proof (induction isr arbitrary: leo)
  case (Cons r isr)
  let ?h = "if r = slf then leo else if isr_offset prog r < leo then isr_offset prog r else leo"
  have "isr_min slf prog (r # isr) leo = isr_min slf prog isr ?h" by (simp add: isr_min_def)
  with Cons.IH [of ?h] show ?case by (auto split: if_splits)
qed (simp add: isr_min_def)

section \<open>Operations over the contract\<close>

context node_logs
begin

lemma store_step:
  assumes b: "broker_ok ok view b" and s: "ok s" "view s = (view (br_store b))(k \<mapsto> v')" and v: "view (br_store b) k = Some v" "log_kept v v'"
  shows "broker_ok ok view (b\<lparr>br_store := s\<rparr>) \<and> keeps view b (b\<lparr>br_store := s\<rparr>)"
proof
  note D = broker_okD [OF b]
  show "broker_ok ok view (b\<lparr>br_store := s\<rparr>)"
  proof (rule broker_okI)
    fix k'
    show "k' |\<in>| br_logs (b\<lparr>br_store := s\<rparr>) \<longleftrightarrow> view (br_store (b\<lparr>br_store := s\<rparr>)) k' \<noteq> None"
      using D(2) [of k'] v(1) by (simp add: s(2))
  qed (use D s(1) in simp_all)
  show "keeps view b (b\<lparr>br_store := s\<rparr>)"
  proof (rule keepsI)
    fix k' w
    assume "view (br_store b) k' = Some w"
    with v show "\<exists>v'. view (br_store (b\<lparr>br_store := s\<rparr>)) k' = Some v' \<and> log_kept w v'" by (cases "k' = k") (simp_all add: s(2))
  qed simp_all
qed

lemma openLocked_ok:
  assumes b: "broker_ok ok view b"
  shows "\<exists>b'. openLocked B b k = ret (None, b') \<and> broker_ok ok view b' \<and> keeps view b b' \<and> k |\<in>| br_logs b'
    \<and> br_ctrl b' = br_ctrl b \<and> br_catalog b' = br_catalog b \<and> br_logs b |\<subseteq>| br_logs b'"
proof (cases "k |\<in>| br_logs b")
  case True
  with b show ?thesis by (simp add: openLocked_def)
next
  case False
  note D = broker_okD [OF b]
  have no: "view (br_store b) k = None" using False D(2) by blast
  from open_law [OF D(1) no] obtain v s where
    s: "be_Open B (br_store b) k = Some (None, s)" "ok s" "view s = (view (br_store b))(k \<mapsto> v)" by blast
  define b' where "b' = b\<lparr>br_store := s, br_logs := finsert k (br_logs b)\<rparr>"
  have "broker_ok ok view b'"
  proof (rule broker_okI)
    fix k'
    show "k' |\<in>| br_logs b' \<longleftrightarrow> view (br_store b') k' \<noteq> None" using D(2) [of k'] by (auto simp: b'_def s(3))
  qed (use D s(2) in \<open>simp_all add: b'_def\<close>)
  moreover have "keeps view b b'"
  proof (rule keepsI)
    fix k' v
    assume "view (br_store b) k' = Some v"
    with no show "\<exists>v'. view (br_store b') k' = Some v' \<and> log_kept v v'" by (cases "k' = k") (simp_all add: b'_def s(3))
  qed (simp_all add: b'_def)
  ultimately show ?thesis using False s(1) by (simp add: openLocked_def b'_def fsubset_finsertI)
qed

lemma register_loop_ok:
  assumes "broker_ok ok view b"
  shows "\<exists>b'. register_loop B name ps b = ret (None, b') \<and> broker_ok ok view b' \<and> keeps view b b'
    \<and> br_ctrl b' = br_ctrl b \<and> br_catalog b' = br_catalog b \<and> br_logs b |\<subseteq>| br_logs b'"
  using assms
proof (induction ps arbitrary: b)
  case (Cons p ps)
  have "0 < length (brokers (br_cluster b))" "length (brokers (br_cluster b)) < 2 ^ 31" by (rule broker_okD [OF Cons.prems])+
  then obtain lead where lead: "IsLeader (br_cluster b) name p = Ret lead" using IsLeader_total by blast
  from openLocked_ok [OF Cons.prems, of "(name, p)"] obtain b1 where
    b1: "openLocked B b (name, p) = ret (None, b1)" "broker_ok ok view b1" "keeps view b b1" "br_ctrl b1 = br_ctrl b"
    "br_catalog b1 = br_catalog b" "br_logs b |\<subseteq>| br_logs b1" by blast
  from Cons.IH [OF b1(2)] obtain b2 where b2: "register_loop B name ps b1 = ret (None, b2)" "broker_ok ok view b2"
    "keeps view b1 b2" "br_ctrl b2 = br_ctrl b1" "br_catalog b2 = br_catalog b1" "br_logs b1 |\<subseteq>| br_logs b2" by blast
  show ?case
  proof (cases lead)
    case True
    have "keeps view b b2" by (rule keeps_trans [OF b1(3) b2(3)])
    moreover have "br_logs b |\<subseteq>| br_logs b2" using b1(6) b2(6) by (rule order_trans)
    ultimately show ?thesis using True lead b1(1,4,5) b2 by simp
  next
    case False
    with lead Cons.IH [OF Cons.prems] show ?thesis by simp
  qed
qed simp

lemma registerLocked_ok:
  assumes "broker_ok ok view b"
  shows "\<exists>b'. registerLocked B b name n = ret (None, b') \<and> broker_ok ok view b' \<and> keeps view b b'
    \<and> br_ctrl b' = br_ctrl b
    \<and> br_catalog b' = fmupd name (if n \<le> 0 then cf_NumPartitions (br_cfg b) else n) (br_catalog b)"
proof -
  let ?n = "if n \<le> 0 then cf_NumPartitions (br_cfg b) else n"
  let ?b = "b\<lparr>br_catalog := fmupd name ?n (br_catalog b)\<rparr>"
  have "broker_ok ok view ?b" using assms broker_ok_cong [of ?b b] by simp
  from register_loop_ok [OF this, of name "int_range 0 ?n"] obtain b' where
    b': "register_loop B name (int_range 0 ?n) ?b = ret (None, b')" "broker_ok ok view b'" "keeps view ?b b'" "br_ctrl b' = br_ctrl b"
    "br_catalog b' = fmupd name ?n (br_catalog b)" by auto
  have "keeps view b b'" using b'(3) by (simp add: keeps_def)
  then show ?thesis using b' unfolding registerLocked_def Let_def by blast
qed

lemma reconcile_open_ok:
  assumes "broker_ok ok view b"
  shows "\<exists>acts' b'. reconcile_open B parts acts b = ret (acts', b') \<and> broker_ok ok view b' \<and> keeps view b b' \<and> br_ctrl b' = br_ctrl b"
  using assms
proof (induction parts arbitrary: b acts)
  case (Cons part parts)
  obtain k pv where part: "part = (k, pv)" by (cases part)
  from openLocked_ok [OF Cons.prems, of k] obtain b1 where
    b1: "openLocked B b k = ret (None, b1)" "broker_ok ok view b1" "keeps view b b1" "k |\<in>| br_logs b1" "br_ctrl b1 = br_ctrl b" by blast
  obtain v where v: "view (br_store b1) k = Some v" "ok (br_store b1)"
    using broker_okD(1,2) [OF b1(2)] b1(4) by (metis option.exhaust)
  define b2 where "b2 = (if length (pv_Replicas pv) > 1 then b1\<lparr>br_store := be_HoldHighWatermark B (br_store b1) k\<rparr> else b1)"
  have b2: "broker_ok ok view b2 \<and> keeps view b1 b2"
    using store_step [OF b1(2) _ _ v(1), of "be_HoldHighWatermark B (br_store b1) k" "v\<lparr>lv_held := True\<rparr>"] hold_law [OF v(2,1)] b1(2)
    by (simp add: b2_def log_kept_def del: fun_upd_apply)
  have k2: "keeps view b b2" by (rule keeps_trans [OF b1(3)]) (use b2 in simp)
  have c2: "br_ctrl b2 = br_ctrl b" using b1(5) by (simp add: b2_def)
  have "\<exists>acts' b'. reconcile_open B parts a b2 = ret (acts', b') \<and> broker_ok ok view b' \<and> keeps view b b' \<and> br_ctrl b' = br_ctrl b" for a
    using Cons.IH [of b2 a] b2 k2 c2 keeps_trans by metis
  then have IH2: "\<exists>acts' b'. reconcile_open B parts a b2 = ret (acts', b') \<and> broker_ok ok view b' \<and> keeps view b b' \<and> br_ctrl b' = br_ctrl b" for a .
  have "reconcile_open B (part # parts) acts b =
      (if \<not> containsNode (pv_Replicas pv) (br_self b) then reconcile_open B parts acts b
       else reconcile_open B parts (if length (pv_Replicas pv) > 1 then acts @ [(k, pv_Leader pv = br_self b1)] else acts) b2)"
    by (simp add: part b1(1) b2_def)
  then show ?case using Cons.IH [OF Cons.prems, of acts] IH2 by simp
qed simp

lemma reconcile_action_fields:
  "br_store (reconcile_action now a b) = br_store b" "br_logs (reconcile_action now a b) = br_logs b"
  "br_cluster (reconcile_action now a b) = br_cluster b" "br_cfg (reconcile_action now a b) = br_cfg b"
  "br_ctrl (reconcile_action now a b) = br_ctrl b"
  by (simp_all add: reconcile_action_def noteLeadSince_def split: prod.split)

lemma reconcile_actions_fields:
  "br_store (fold (reconcile_action now) as b) = br_store b" "br_logs (fold (reconcile_action now) as b) = br_logs b"
  "br_cluster (fold (reconcile_action now) as b) = br_cluster b" "br_cfg (fold (reconcile_action now) as b) = br_cfg b"
  "br_ctrl (fold (reconcile_action now) as b) = br_ctrl b"
  by (induction as arbitrary: b) (simp_all add: reconcile_action_fields)

lemma reconcile_ok:
  assumes "broker_ok ok view b"
  shows "\<exists>b'. reconcileFromFSM B now b = ret b' \<and> broker_ok ok view b' \<and> keeps view b b' \<and> br_ctrl b' = br_ctrl b"
proof (cases "br_ctrl b")
  case (Some c)
  from reconcile_open_ok [OF assms, of "topic_parts (ct_fsm c)" "[]"] obtain acts b1 where
    b1: "reconcile_open B (topic_parts (ct_fsm c)) [] b = ret (acts, b1)" "broker_ok ok view b1" "keeps view b b1" "br_ctrl b1 = br_ctrl b"
    by blast
  let ?b2 = "fold (reconcile_action now) acts b1"
  note f = reconcile_actions_fields [of now acts b1]
  have "broker_ok ok view ?b2" "keeps view b ?b2" "br_ctrl ?b2 = br_ctrl b"
    using b1 f broker_ok_cong [of ?b2 b1] keeps_cong [of ?b2 b1] by simp_all
  with b1 Some show ?thesis by (simp add: reconcileFromFSM_def)
qed (use assms in \<open>simp add: reconcileFromFSM_def\<close>)

lemma ctrl_change:
  assumes "broker_ok ok view b" and "br_store b1 = br_store b" and "br_logs b1 = br_logs b" and "br_cluster b1 = br_cluster b"
    and "br_cfg b1 = br_cfg b"
  shows "\<exists>b'. reconcileFromFSM B now b1 = ret b' \<and> broker_ok ok view b' \<and> keeps view b b' \<and> br_ctrl b' = br_ctrl b1"
proof -
  have "broker_ok ok view b1" using assms broker_ok_cong [of b1 b] by simp
  from reconcile_ok [OF this, of now] show ?thesis using assms(2-5) unfolding keeps_def by auto
qed

lemma replicas_total:
  assumes "broker_ok ok view b"
  shows "\<exists>rss. go_mapM (\<lambda>p. ReplicasFor (br_cluster b) name p rf) ps = Ret rss"
  by (rule go_mapM_total) (rule ReplicasFor_total [OF broker_okD(3,4) [OF assms]])

lemma proposeCreate_ok:
  assumes "broker_ok ok view b"
  shows "\<exists>e b'. proposeCreate B env c name n b = ret (e, b') \<and> broker_ok ok view b' \<and> keeps view b b'"
proof -
  let ?n1 = "if n \<le> 0 then cf_NumPartitions (br_cfg b) else n"
  let ?n = "if ?n1 \<le> 0 then 1 else ?n1"
  obtain rss where rss: "go_mapM (\<lambda>p. ReplicasFor (br_cluster b) name p (replicationFactor b)) (int_range 0 ?n) = Ret rss"
    using replicas_total [OF assms] by blast
  let ?cmd = "(zero_cmd CmdCreateTopic)\<lparr>c_Topic := name, c_Replicas := rss\<rparr>"
  obtain e q where eq: "Ctl_Apply (bv_ctl env) (ct_quorum c) ?cmd = (e, q)" by fastforce
  let ?m = "first_view (bv_views env ?cmd) (ct_fsm c)"
  have 1: "broker_ok ok view (set_fsm m (set_quorum q b))" "keeps view b (set_fsm m (set_quorum q b))" for m
    using assms broker_ok_cong [of "set_fsm m (set_quorum q b)" b] keeps_cong [of "set_fsm m (set_quorum q b)" b] by simp_all
  obtain b2 where "reconcileFromFSM B (bv_now env) (set_fsm (waitTopic name (bv_views env ?cmd) ?m) (set_quorum q b)) = ret b2"
    "broker_ok ok view b2" "keeps view b b2"
    using ctrl_change [OF assms, of "set_fsm (waitTopic name (bv_views env ?cmd) ?m) (set_quorum q b)" "bv_now env"] by auto
  with 1 show ?thesis unfolding proposeCreate_def Let_def rss run_bind_simps eq prod.case by auto
qed

lemma CreateTopic_ok:
  assumes "broker_ok ok view b"
  shows "\<exists>e b'. CreateTopic B env name n b = ret (e, b') \<and> broker_ok ok view b' \<and> keeps view b b'"
  using registerLocked_ok [OF assms, of name n] proposeCreate_ok [OF assms, of env _ name n] assms
  by (auto simp: CreateTopic_def split: option.split)

lemma EnsureTopic_ok:
  assumes "broker_ok ok view b"
  shows "\<exists>n e b'. EnsureTopic B env name b = ret (n, e, b') \<and> broker_ok ok view b' \<and> keeps view b b'"
proof (cases "br_ctrl b")
  case None
  from registerLocked_ok [OF assms, of name "cf_NumPartitions (br_cfg b)"] None assms show ?thesis
    by (cases "fmlookup (br_catalog b) name") (auto simp: EnsureTopic_def Let_def)
next
  case (Some c)
  from proposeCreate_ok [OF assms, of env c name "cf_NumPartitions (br_cfg b)"] obtain e b1 where
    b1: "proposeCreate B env c name (cf_NumPartitions (br_cfg b)) b = ret (e, b1)" "broker_ok ok view b1" "keeps view b b1" by blast
  with Some assms show ?thesis by (cases "Partitions (ct_fsm c) name"; cases e) (auto simp: EnsureTopic_def)
qed

lemma CreatePartitions_ok:
  assumes "broker_ok ok view b"
  shows "\<exists>e b'. CreatePartitions B env name n b = ret (e, b') \<and> broker_ok ok view b' \<and> keeps view b b'"
proof (cases "br_ctrl b")
  case None
  with registerLocked_ok [OF assms, of name n] assms show ?thesis
    by (cases "fmlookup (br_catalog b) name") (auto simp: CreatePartitions_def)
next
  case (Some c)
  show ?thesis
  proof (cases "\<exists>cur. Partitions (ct_fsm c) name = Some cur \<and> cur < n")
    case True
    then obtain cur where cur: "Partitions (ct_fsm c) name = Some cur" "\<not> n \<le> cur" by auto
    obtain rss where rss: "go_mapM (\<lambda>p. ReplicasFor (br_cluster b) name p (replicationFactor b)) (int_range cur n) = Ret rss"
      using replicas_total [OF assms] by blast
    let ?cmd = "(zero_cmd CmdCreatePartitions)\<lparr>c_Topic := name, c_Replicas := rss\<rparr>"
    obtain e q where eq: "Ctl_Apply (bv_ctl env) (ct_quorum c) ?cmd = (e, q)" by fastforce
    let ?m = "first_view (bv_views env ?cmd) (ct_fsm c)"
    have 1: "broker_ok ok view (set_fsm m (set_quorum q b))" "keeps view b (set_fsm m (set_quorum q b))" for m
      using assms broker_ok_cong [of "set_fsm m (set_quorum q b)" b] keeps_cong [of "set_fsm m (set_quorum q b)" b] by simp_all
    obtain b2 where "reconcileFromFSM B (bv_now env) (set_fsm (waitPartitions name n (bv_views env ?cmd) ?m) (set_quorum q b)) = ret b2"
      "broker_ok ok view b2" "keeps view b b2"
      using ctrl_change [OF assms, of "set_fsm (waitPartitions name n (bv_views env ?cmd) ?m) (set_quorum q b)" "bv_now env"] by auto
    with 1 Some cur show ?thesis
      unfolding CreatePartitions_def Let_def Some option.case cur(1) if_not_P [OF cur(2)] rss run_bind_simps eq prod.case by auto
  next
    case False
    with Some assms show ?thesis by (cases "Partitions (ct_fsm c) name") (auto simp: CreatePartitions_def)
  qed
qed

lemma advance_ok:
  assumes b: "broker_ok ok view b"
  shows "broker_ok ok view (advanceHighWatermark B b k) \<and> keeps view b (advanceHighWatermark B b k)"
proof (cases "\<exists>pv. fsm_view b k = Some pv \<and> pv_Leader pv = br_self b \<and> getLog b k")
  case True
  then obtain pv where pv: "fsm_view b k = Some pv" "pv_Leader pv = br_self b" "k |\<in>| br_logs b" by (auto simp: getLog_def)
  note D = broker_okD [OF b]
  from pv(3) D(2) [of k] obtain v where v: "view (br_store b) k = Some v" by blast
  let ?h = "isr_min (br_self b) (progress_of b k) (pv_ISR pv) (be_LatestOffset B (br_store b) k)"
  have "advanceHighWatermark B b k = b\<lparr>br_store := be_SetHighWatermark B (br_store b) k ?h\<rparr>"
    using pv by (simp add: advanceHighWatermark_def getLog_def)
  moreover have "log_kept v (lv_advance ?h v)" by (simp add: log_kept_def lv_advance_def)
  ultimately show ?thesis using store_step [OF b _ _ v] advance_law [OF D(1) v, of ?h] by simp
next
  case False
  then have "advanceHighWatermark B b k = b" by (auto simp: advanceHighWatermark_def split: option.split)
  with b show ?thesis by simp
qed

lemma RecordReplicaFetch_ok:
  assumes b: "broker_ok ok view b"
  shows "broker_ok ok view (RecordReplicaFetch B now b k rid off) \<and> keeps view b (RecordReplicaFetch B now b k rid off)"
proof -
  let ?b = "b\<lparr>br_followers := fmupd k (fmupd rid \<lparr>fo_endOffset = off, fo_lastSeen = now\<rparr> (progress_of b k)) (br_followers b)\<rparr>"
  have "broker_ok ok view ?b" using b broker_ok_cong [of ?b b] by simp
  from advance_ok [OF this, of k] have "broker_ok ok view (advanceHighWatermark B ?b k)" "keeps view b (advanceHighWatermark B ?b k)"
    unfolding keeps_def by simp_all
  with b show ?thesis by (simp add: RecordReplicaFetch_def)
qed

lemma maintain_fold_ok:
  assumes "broker_ok ok view b"
  shows "let b' = fold (\<lambda>(k, pv) b. if pv_Leader pv \<noteq> br_self b \<or> length (pv_Replicas pv) \<le> 1 then b
      else advanceHighWatermark B (maintainPartitionISR env b k pv) k) parts b
    in broker_ok ok view b' \<and> keeps view b b'"
  using assms
proof (induction parts arbitrary: b)
  case (Cons part parts)
  obtain k pv where part: "part = (k, pv)" by (cases part)
  let ?b1 = "maintainPartitionISR env b k pv"
  have f: "br_store ?b1 = br_store b" "br_logs ?b1 = br_logs b" "br_cluster ?b1 = br_cluster b" "br_cfg ?b1 = br_cfg b"
    by (simp_all add: maintainPartitionISR_def Let_def split: option.split)
  have "broker_ok ok view ?b1" "keeps view b ?b1"
    using Cons.prems f broker_ok_cong [of ?b1 b] keeps_cong [of ?b1 b] by simp_all
  with advance_ok [of ?b1 k] have b2: "broker_ok ok view (advanceHighWatermark B ?b1 k)" "keeps view b (advanceHighWatermark B ?b1 k)"
    using keeps_trans by blast+
  from Cons.IH [OF b2(1)] Cons.IH [OF Cons.prems] b2(2) show ?case
    unfolding part Let_def by (auto intro: keeps_trans)
qed simp

lemma maintainReplicas_ok:
  assumes "broker_ok ok view b"
  shows "broker_ok ok view (maintainReplicas B env b) \<and> keeps view b (maintainReplicas B env b)"
  using maintain_fold_ok [OF assms, of env] assms by (simp add: maintainReplicas_def Let_def split: option.split)

text \<open>The outcome of \<open>LocalLog\<close> is decided by the partition count and the leadership alone.\<close>

lemma LocalLog_ok:
  assumes b: "broker_ok ok view b"
  shows "\<exists>e b'. LocalLog B b k = ret (e, b') \<and> broker_ok ok view b' \<and> keeps view b b'
    \<and> (if snd k < 0 \<or> snd k \<ge> NumPartitions b (fst k) then e = Some ErrUnknownPartition
       else if leads b k \<noteq> Ret True then e = Some ErrNotLeader
       else e = None \<and> k |\<in>| br_logs b')"
proof (cases "snd k < 0 \<or> snd k \<ge> NumPartitions b (fst k)")
  case True
  with b show ?thesis by (simp add: LocalLog_def)
next
  case range: False
  obtain lead where lead: "leads b k = Ret lead"
    using IsLeader_total [OF broker_okD(3,4) [OF b], of "fst k" "snd k"] by (cases "br_ctrl b") (auto simp: leads_def)
  from openLocked_ok [OF b, of k] obtain b1 where
    b1: "openLocked B b k = ret (None, b1)" "broker_ok ok view b1" "keeps view b b1" "k |\<in>| br_logs b1" by blast
  from registerLocked_ok [OF b, of "fst k" "NumPartitions b (fst k)"] obtain b2 where
    b2: "registerLocked B b (fst k) (NumPartitions b (fst k)) = ret (None, b2)" "broker_ok ok view b2" "keeps view b b2" by blast
  from openLocked_ok [OF b2(2), of k] obtain b3 where
    b3: "openLocked B b2 k = ret (None, b3)" "broker_ok ok view b3" "keeps view b2 b3" "k |\<in>| br_logs b3" by blast
  have k3: "keeps view b b3" by (rule keeps_trans [OF b2(3) b3(3)])
  show ?thesis
  proof (cases "lead \<and> k |\<notin>| br_logs b")
    case True
    with range lead b1 b2(1) b3(1,2,4) k3 show ?thesis by (simp add: LocalLog_def)
  next
    case False
    with range lead b show ?thesis by (auto simp: LocalLog_def)
  qed
qed

end

section \<open>Properties\<close>

datatype broker_op =
    OpCreateTopic string int
  | OpCreatePartitions string int
  | OpEnsureTopic string
  | OpLocalLog tpKey
  | OpReplicaLog tpKey
  | OpReplicaFetch tpKey int int
  | OpMaintain
  | OpApply metaState

fun broker_run :: "'s Backend_ops \<Rightarrow> broker_env \<Rightarrow> broker_op \<Rightarrow> 's BrokerState \<Rightarrow> 's BrokerState run" where
  "broker_run B env (OpCreateTopic name n) b = run_bind (CreateTopic B env name n b) (\<lambda>(_, b'). ret b')"
| "broker_run B env (OpCreatePartitions name n) b = run_bind (CreatePartitions B env name n b) (\<lambda>(_, b'). ret b')"
| "broker_run B env (OpEnsureTopic name) b = run_bind (EnsureTopic B env name b) (\<lambda>(_, _, b'). ret b')"
| "broker_run B env (OpLocalLog k) b = run_bind (LocalLog B b k) (\<lambda>(_, b'). ret b')"
| "broker_run B env (OpReplicaLog k) b = run_bind (replicaLog B b k) (\<lambda>(_, b'). ret b')"
| "broker_run B env (OpReplicaFetch k rid off) b = ret (RecordReplicaFetch B (bv_now env) b k rid off)"
| "broker_run B env OpMaintain b = ret (maintainReplicas B env b)"
| "broker_run B env (OpApply m) b = onApply B (bv_now env) m b"

fun run_ops :: "'s Backend_ops \<Rightarrow> (broker_env \<times> broker_op) list \<Rightarrow> 's BrokerState \<Rightarrow> 's BrokerState run" where
  "run_ops B [] b = ret b"
| "run_ops B ((env, x) # xs) b = run_bind (broker_run B env x b) (run_ops B xs)"

context node_logs
begin

lemma broker_run_ok:
  assumes b: "broker_ok ok view b"
  shows "\<exists>b'. broker_run B env x b = ret b' \<and> broker_ok ok view b' \<and> keeps view b b'"
proof (cases x)
  case (OpCreateTopic name n)
  with CreateTopic_ok [OF b, of env name n] show ?thesis by auto
next
  case (OpCreatePartitions name n)
  with CreatePartitions_ok [OF b, of env name n] show ?thesis by auto
next
  case (OpEnsureTopic name)
  with EnsureTopic_ok [OF b, of env name] show ?thesis by auto
next
  case (OpLocalLog k)
  from LocalLog_ok [OF b, of k] obtain e b' where "LocalLog B b k = ret (e, b')" "broker_ok ok view b'" "keeps view b b'" by blast
  with OpLocalLog show ?thesis by simp
next
  case (OpReplicaLog k)
  from openLocked_ok [OF b, of k] obtain b' where "openLocked B b k = ret (None, b')" "broker_ok ok view b'" "keeps view b b'" by blast
  with OpReplicaLog show ?thesis by (simp add: replicaLog_def)
next
  case (OpReplicaFetch k rid off)
  with RecordReplicaFetch_ok [OF b] show ?thesis by simp
next
  case OpMaintain
  with maintainReplicas_ok [OF b] show ?thesis by simp
next
  case (OpApply m)
  with ctrl_change [OF b, of "set_fsm m b" "bv_now env"] show ?thesis by (auto simp: onApply_def)
qed

lemma run_ops_ok: "broker_ok ok view b \<Longrightarrow> \<exists>b'. run_ops B xs b = ret b' \<and> broker_ok ok view b' \<and> keeps view b b'"
proof (induction xs arbitrary: b)
  case (Cons x xs)
  obtain env y where x: "x = (env, y)" by (cases x)
  from broker_run_ok [OF Cons.prems, of env y] obtain b1 where
    b1: "broker_run B env y b = ret b1" "broker_ok ok view b1" "keeps view b b1" by blast
  from Cons.IH [OF b1(2)] obtain b2 where b2: "run_ops B xs b1 = ret b2" "broker_ok ok view b2" "keeps view b1 b2" by blast
  from keeps_trans [OF b1(3) b2(3)] b1(1) b2 show ?case by (simp add: x)
qed simp

lemma RecordReplicaFetch_hwm:
  assumes b: "broker_ok ok view b" and pv: "fsm_view b k = Some pv" "pv_Leader pv = br_self b" and v: "view (br_store b) k = Some v"
    and b': "b' = RecordReplicaFetch B now b k rid off"
  shows "view (br_store b') = (view (br_store b))(k \<mapsto> lv_advance
    (isr_min (br_self b) (progress_of b' k) (pv_ISR pv) (lv_latest v)) v)"
proof -
  note D = broker_okD [OF b]
  let ?b1 = "b\<lparr>br_followers := fmupd k (fmupd rid \<lparr>fo_endOffset = off, fo_lastSeen = now\<rparr> (progress_of b k)) (br_followers b)\<rparr>"
  let ?h = "isr_min (br_self b) (progress_of ?b1 k) (pv_ISR pv) (lv_latest v)"
  have ctrl: "br_ctrl b \<noteq> None" using pv(1) by (auto simp: fsm_view_def split: option.splits)
  have k: "k |\<in>| br_logs b" using v D(2) by simp
  have fv: "fsm_view ?b1 k = Some pv" using pv(1) by (simp add: fsm_view_def)
  have "b' = ?b1\<lparr>br_store := be_SetHighWatermark B (br_store b) k ?h\<rparr>"
    using b' ctrl pv(2) k fv observe [OF D(1) v] by (simp add: RecordReplicaFetch_def advanceHighWatermark_def getLog_def)
  then have "br_store b' = be_SetHighWatermark B (br_store b) k ?h" "progress_of b' k = progress_of ?b1 k"
    by (simp_all add: progress_of_def)
  with advance_law [OF D(1) v, of ?h] show ?thesis by simp
qed

end

lemma advance_followers: "br_followers (advanceHighWatermark B b k) = br_followers b"
  by (simp add: advanceHighWatermark_def split: option.split)

lemma isr_min_Min: "isr_min slf prog isr leo = Min (insert leo (isr_offset prog ` (set isr - {slf})))"
  using isr_min_le_leo [of slf prog isr leo] isr_min_le [of _ isr slf prog leo] isr_min_attained [of slf prog isr leo]
  by (intro Min_eqI [symmetric]) auto


text \<open>C5: on the leader of a partition, a replica fetch sets the high watermark to the smallest offset
  that the in-sync replicas have reached (the leader with its log end, a silent follower with 0), unless
  it is already higher: a record becomes visible to consumers only when every in-sync replica has asked
  for what comes after it.\<close>

theorem replica_fetch_advances:
  assumes "broker_ok file_ok file_view b" and "fsm_view b k = Some pv" and "pv_Leader pv = br_self b"
    and "file_view (br_store b) k = Some v" and "b' = RecordReplicaFetch (file_backend now mtime) t b k rid off"
  shows "\<exists>v'. file_view (br_store b') k = Some v' \<and> lv_batches v' = lv_batches v
    \<and> lv_hwm v' = max (lv_hwm v) (Min (insert (lv_latest v) (isr_offset (progress_of b' k) ` (set (pv_ISR pv) - {br_self b}))))
    \<and> isr_offset (progress_of b' k) rid = off"
proof -
  let ?h = "isr_min (br_self b) (progress_of b' k) (pv_ISR pv) (lv_latest v)"
  have "br_ctrl b \<noteq> None" using assms(2) by (auto simp: fsm_view_def split: option.splits)
  then have "isr_offset (progress_of b' k) rid = off"
    unfolding assms(5) RecordReplicaFetch_def by (auto simp: progress_of_def isr_offset_def advance_followers)
  moreover have "file_view (br_store b') k = Some (lv_advance ?h v)"
    unfolding file_node.RecordReplicaFetch_hwm [OF assms] by simp
  moreover have "min ?h (lv_latest v) = ?h" using isr_min_le_leo by simp
  ultimately show ?thesis by (simp add: lv_advance_def flip: isr_min_Min)
qed


section \<open>Witnesses\<close>

definition sample_files :: file_node where
  "sample_files = \<lparr>fn_root = [], fn_cfg = DefaultConfig, fn_dirs = fmempty, fn_logs = fmempty\<rparr>"

definition sample_meta :: metaState where
  "sample_meta = run_cmds NewFSM [create_cmd ''t'' [[1, 2]]]"

definition sample_broker :: "file_node BrokerState" where
  "sample_broker = \<lparr>br_cfg = Default, br_cluster = Single 1 ''h'' 9092,
     br_ctrl = Some \<lparr>ct_quorum = sample_meta, ct_fsm = sample_meta\<rparr>, br_repl = None, br_store = sample_files,
     br_catalog = fmempty, br_logs = {||}, br_followers = fmempty, br_leadSince = fmempty, br_maint = False\<rparr>"

lemma sample_broker_ok: "broker_ok file_ok file_view sample_broker"
  by (rule broker_okI)
    (simp_all add: sample_broker_def sample_files_def file_ok_def file_view_def found_dir_def dir_ok_def Single_def)

lemma sample_view: "fsm_view sample_broker (''t'', 0) = Some \<lparr>pv_Leader = 1, pv_LeaderEpoch = 0, pv_Replicas = [1, 2], pv_ISR = [1, 2]\<rparr>"
  by (simp add: fsm_view_def sample_broker_def sample_meta_def Partition_def applyLocked_def cmd_simps NewFSM_def
      partsFromReplicas_def part_from_def viewPart_def)

lemma sample_served:
  "\<exists>b v. LocalLog (file_backend 0 (\<lambda>_ _. None)) sample_broker (''t'', 0) = ret (None, b) \<and> broker_ok file_ok file_view b
     \<and> file_view (br_store b) (''t'', 0) = Some v \<and> br_self b = 1
     \<and> fsm_view b (''t'', 0) = Some \<lparr>pv_Leader = 1, pv_LeaderEpoch = 0, pv_Replicas = [1, 2], pv_ISR = [1, 2]\<rparr>"
proof -
  let ?k = "(''t'', 0)"
  from file_node.openLocked_ok [OF sample_broker_ok, of 0 "\<lambda>_ _. None" ?k] obtain b where
    b: "openLocked (file_backend 0 (\<lambda>_ _. None)) sample_broker ?k = ret (None, b)" "broker_ok file_ok file_view b"
    "?k |\<in>| br_logs b" "br_ctrl b = br_ctrl sample_broker" "br_cluster b = br_cluster sample_broker"
    unfolding keeps_def by blast
  have "NumPartitions sample_broker ''t'' = 1"
    by (simp add: NumPartitions_def sample_broker_def sample_meta_def Partitions_def applyLocked_def cmd_simps NewFSM_def i32_def)
  moreover have "leads sample_broker ?k = Ret True"
    by (simp add: leads_def sample_view) (simp add: sample_broker_def Single_def Self_def)
  ultimately have "LocalLog (file_backend 0 (\<lambda>_ _. None)) sample_broker ?k = ret (None, b)"
    using b(1) by (simp add: LocalLog_def) (simp add: sample_broker_def)
  moreover have "fsm_view b ?k = fsm_view sample_broker ?k" using b(4) by (simp add: fsm_view_def)
  moreover obtain v where "file_view (br_store b) ?k = Some v" using broker_okD(2) [OF b(2), of ?k] b(3) by blast
  moreover have "br_self b = 1" using b(5) by (simp add: sample_broker_def Single_def Self_def)
  ultimately show ?thesis using b(2) sample_view by auto
qed


theorem replica_fetch_advances_witness:
  "\<exists>b v v'. broker_ok file_ok file_view b \<and> file_view (br_store b) (''t'', 0) = Some v
     \<and> file_view (br_store (RecordReplicaFetch (file_backend 0 (\<lambda>_ _. None)) 5 b (''t'', 0) 2 0)) (''t'', 0) = Some v'
     \<and> lv_batches v' = lv_batches v"
proof -
  obtain b v where b: "broker_ok file_ok file_view b" "file_view (br_store b) (''t'', 0) = Some v" "br_self b = 1"
    "fsm_view b (''t'', 0) = Some \<lparr>pv_Leader = 1, pv_LeaderEpoch = 0, pv_Replicas = [1, 2], pv_ISR = [1, 2]\<rparr>"
    using sample_served by blast
  have "pv_Leader \<lparr>pv_Leader = 1, pv_LeaderEpoch = 0, pv_Replicas = [1, 2], pv_ISR = [1, 2]\<rparr> = br_self b" using b(3) by simp
  from replica_fetch_advances [OF b(1,4) this b(2) refl, of 0 "\<lambda>_ _. None" 5 2 0] b(1,2) show ?thesis by blast
qed


end
