(* ===== verification/Data_Props.thy ===== *)
theory Data_Props
  imports Data_Handlers Broker_Inv
begin

text \<open>
  What Produce and Fetch do to the logs, over any storage that meets the contract \<open>node_logs\<close>: a fetch
  returns whole batches of the log, a consumer only committed ones, and an acknowledged produce with
  \<open>acks = -1\<close> lies below the high watermark.
\<close>

section \<open>Clamping\<close>

abbreviation below_hwm :: "int \<Rightarrow> bytes \<Rightarrow> bool" where
  "below_hwm hwm b \<equiv> LastOffset (header b) < hwm"

lemma iter_clamp:
  assumes "list_all wf_batch bs"
  shows "\<exists>n e. iter_batches (clamp_batch hwm) bs None c keep =
    Ret (n, e, keep + int (length (concat (takeWhile (below_hwm hwm) bs))))"
  using assms
proof (induction bs arbitrary: c keep)
  case (Cons b bs)
  then have b: "wf_batch b" and bs: "list_all wf_batch bs" by simp_all
  obtain h where h: "ParseHeader b = (h, None)" using wf_batch_ParseHeader [OF b, of "[]"] by simp
  have len: "TotalSize h = int (length b)" using wf_batch_TotalSize [OF b] h by simp
  show ?case
    using Cons.IH [OF bs, of "c + length b" "keep + TotalSize h"] h len by (auto simp: clamp_batch_def algebra_simps)
qed simp

lemma clamp_batches:
  assumes "list_all wf_batch bs"
  shows "clampToHighWatermark (concat bs) hwm = ret (concat (takeWhile (below_hwm hwm) bs))"
proof (cases "concat bs = []")
  case True
  moreover have "concat (takeWhile (below_hwm hwm) bs) = []"
    using True set_takeWhileD by (fastforce simp: concat_eq_Nil_conv)
  ultimately show ?thesis unfolding clampToHighWatermark_def True by (simp only: list.size if_True simp_thms)
next
  case False
  let ?k = "length (concat (takeWhile (below_hwm hwm) bs))"
  have split: "concat bs = concat (takeWhile (below_hwm hwm) bs) @ concat (dropWhile (below_hwm hwm) bs)"
    by (simp flip: concat_append)
  obtain n e where "iter_batches (clamp_batch hwm) bs None 0 0 = Ret (n, e, int ?k)"
    using iter_clamp [OF assms, of hwm 0 0] by auto
  then have "Iterate (concat bs) (clamp_batch hwm) 0 = ret (n, e, int ?k)"
    using Iterate_batches [OF assms, of "[]" "clamp_batch hwm" 0] by (simp add: torn_def torn_error_def)
  moreover have "?k \<le> length (concat bs)" by (subst split) simp
  moreover have "take ?k (concat bs) = concat (takeWhile (below_hwm hwm) bs)" by (subst split) simp
  ultimately show ?thesis using False by (auto simp: clampToHighWatermark_def simp del: length_concat)
qed

section \<open>Reading\<close>

text \<open>A read answers with consecutive batches of the log, the first of which holds the offset.\<close>

definition answers :: "logview \<Rightarrow> int \<Rightarrow> bytes list \<Rightarrow> bool" where
  "answers v off bs \<longleftrightarrow> (\<exists>pre post. lv_batches v = pre @ bs @ post)
     \<and> (bs \<noteq> [] \<longrightarrow> BaseOffset (header (hd bs)) \<le> off \<and> off \<le> LastOffset (header (hd bs)))"

lemma answers_wf:
  assumes "lv_ok v" and "answers v off bs"
  shows "list_all wf_batch bs"
  using assms batch_run_wf [of "lv_earliest v" "lv_batches v" "lv_latest v"] by (auto simp: lv_ok_def answers_def)

context node_logs
begin

lemma read_answers:
  assumes "ok s" and "view s k = Some v"
  obtains bs e where "be_Read B s k off maxb = ret (concat bs, e)" "answers v off bs" "e = None \<or> e = Some ErrOffsetOutOfRange"
    "e = None \<longleftrightarrow> lv_earliest v \<le> off \<and> off \<le> lv_latest v" "bs \<noteq> [] \<longleftrightarrow> lv_earliest v \<le> off \<and> off < lv_latest v"
    "length bs \<le> 1 \<or> int (length (concat bs)) \<le> maxb"
proof -
  have le: "lv_earliest v \<le> lv_latest v" using view_ok [OF assms] batch_run_le by (auto simp: lv_ok_def)
  note rd = read_law [OF assms, of off maxb]
  consider "off = lv_latest v" | "off < lv_earliest v \<or> off > lv_latest v" | "lv_earliest v \<le> off" "off < lv_latest v" by linarith
  then show thesis
  proof cases
    case 1
    with rd le show thesis by (intro that [of "[]" None]) (auto simp: answers_def)
  next
    case 2
    with rd le show thesis by (intro that [of "[]" "Some ErrOffsetOutOfRange"]) (auto simp: answers_def)
  next
    case 3
    with rd obtain out where out: "be_Read B s k off maxb = ret (out, None)" "read_post (lv_batches v) off maxb out" by auto
    then obtain pre b more post where p: "lv_batches v = pre @ b # more @ post" "out = concat (b # more)"
      "BaseOffset (header b) \<le> off" "off \<le> LastOffset (header b)" "more \<noteq> [] \<longrightarrow> int (length out) \<le> maxb"
      unfolding read_post_def by blast
    have "answers v off (b # more)" using p by (auto simp: answers_def)
    with 3 p out(1) show thesis by (intro that [of "b # more" None]) (auto simp: Suc_le_eq)
  qed
qed

section \<open>Fetch\<close>

lemma leaderLog_ok:
  assumes "broker_ok ok view b"
  obtains b1 code where "leaderLog B b k = ret (code, b1)" "broker_ok ok view b1" "keeps view b b1"
    "code = ErrNone_code \<Longrightarrow> \<exists>v. view (br_store b1) k = Some v"
    "0 \<le> snd k \<Longrightarrow> snd k < NumPartitions b (fst k) \<Longrightarrow> leads b k = Ret True \<Longrightarrow> code = ErrNone_code"
proof -
  from LocalLog_ok [OF assms, of k] obtain e b1 where
    b1: "LocalLog B b k = ret (e, b1)" "broker_ok ok view b1" "keeps view b b1"
      "if snd k < 0 \<or> snd k \<ge> NumPartitions b (fst k) then e = Some ErrUnknownPartition
       else if leads b k \<noteq> Ret True then e = Some ErrNotLeader else e = None \<and> k |\<in>| br_logs b1" by blast
  let ?code = "case e of None \<Rightarrow> ErrNone_code | Some ErrNotLeader \<Rightarrow> ErrNotLeader_code | Some _ \<Rightarrow> ErrUnknownTopicOrPart_code"
  have "leaderLog B b k = ret (?code, b1)" by (simp add: leaderLog_def b1(1))
  moreover have "?code = ErrNone_code \<Longrightarrow> e = None \<and> k |\<in>| br_logs b1"
    using b1(4) by (auto simp: err_code_defs split: if_splits)
  then have "?code = ErrNone_code \<Longrightarrow> \<exists>v. view (br_store b1) k = Some v" using broker_okD(2) [OF b1(2), of k] by blast
  moreover have "0 \<le> snd k \<Longrightarrow> snd k < NumPartitions b (fst k) \<Longrightarrow> leads b k = Ret True \<Longrightarrow> ?code = ErrNone_code"
    using b1(4) by simp
  ultimately show thesis using that [of ?code b1] b1(2,3) by blast
qed

text \<open>One partition of a fetch that is served, on the log as it is when the broker has found it.\<close>

lemma fetch_partition_served:
  assumes lead: "leaderLog B b (topic, fp_Partition p) = ret (ErrNone_code, b1)" and b1: "broker_ok ok view b1"
    and v: "view (br_store b1) (topic, fp_Partition p) = Some v"
    and maxb: "maxb = (if fp_MaxBytes p \<le> 0 then defaultFetchBytes else fp_MaxBytes p)"
  obtains bs and e :: "goerror option" where "answers v (fp_FetchOffset p) bs" "length bs \<le> 1 \<or> int (length (concat bs)) \<le> maxb"
    "bs \<noteq> [] \<longleftrightarrow> lv_earliest v \<le> fp_FetchOffset p \<and> fp_FetchOffset p < lv_latest v"
    "e = None \<longleftrightarrow> lv_earliest v \<le> fp_FetchOffset p \<and> fp_FetchOffset p \<le> lv_latest v"
    "\<And>now. fetch_partition B now rid topic p b =
       (let cs = (if rid \<ge> 0 then bs else takeWhile (below_hwm (lv_hwm v)) bs)
        in ret (\<lparr>fpr_Partition = fp_Partition p, fpr_ErrorCode = (if e = None then ErrNone_code else ErrOffsetOutOfRange_code),
                 fpr_HighWatermark = lv_hwm v, fpr_LastStable = lv_hwm v, fpr_LogStartOffset = lv_earliest v,
                 fpr_Records = (if bs = [] then None else Some (concat cs))\<rparr>,
                int (length (concat cs)), e \<noteq> None,
                if rid \<ge> 0 then RecordReplicaFetch B now b1 (topic, fp_Partition p) rid (fp_FetchOffset p) else b1))"
proof -
  let ?k = "(topic, fp_Partition p)" and ?off = "fp_FetchOffset p"
  note D = broker_okD [OF b1]
  from read_answers [OF D(1) v, of ?off maxb] obtain bs e where
    rd: "be_Read B (br_store b1) ?k ?off maxb = ret (concat bs, e)" "answers v ?off bs" "e = None \<or> e = Some ErrOffsetOutOfRange"
    "e = None \<longleftrightarrow> lv_earliest v \<le> ?off \<and> ?off \<le> lv_latest v" "bs \<noteq> [] \<longleftrightarrow> lv_earliest v \<le> ?off \<and> ?off < lv_latest v"
    "length bs \<le> 1 \<or> int (length (concat bs)) \<le> maxb" by blast
  have wf: "list_all wf_batch bs" by (rule answers_wf [OF view_ok [OF D(1) v] rd(2)])
  have ne: "concat bs = [] \<longleftrightarrow> bs = []"
    using wf wf_batch_size(1) by (cases bs) (force simp: HeaderSize_def)+
  have hwm: "be_HighWatermark B (br_store b1) ?k = lv_hwm v" using observe [OF D(1) v] by simp
  show thesis
  proof (rule that [OF rd(2,6,5,4)])
    fix now
    define b2 where b2: "b2 = (if rid \<ge> 0 then RecordReplicaFetch B now b1 ?k rid ?off else b1)"
    have kept: "broker_ok ok view b2 \<and> keeps view b1 b2" using RecordReplicaFetch_ok [OF b1] b1 by (simp add: b2)
    then obtain v2 where v2: "view (br_store b2) ?k = Some v2" "lv_earliest v2 = lv_earliest v"
      using v unfolding keeps_def log_kept_def by blast
    have earliest: "be_EarliestOffset B (br_store b2) ?k = lv_earliest v"
      using observe [OF _ v2(1)] broker_okD(1) [of ok view b2] kept v2(2) by simp
    show "fetch_partition B now rid topic p b =
       (let cs = (if rid \<ge> 0 then bs else takeWhile (below_hwm (lv_hwm v)) bs)
        in ret (\<lparr>fpr_Partition = fp_Partition p, fpr_ErrorCode = (if e = None then ErrNone_code else ErrOffsetOutOfRange_code),
                 fpr_HighWatermark = lv_hwm v, fpr_LastStable = lv_hwm v, fpr_LogStartOffset = lv_earliest v,
                 fpr_Records = (if bs = [] then None else Some (concat cs))\<rparr>,
                int (length (concat cs)), e \<noteq> None,
                if rid \<ge> 0 then RecordReplicaFetch B now b1 ?k rid ?off else b1))"
      unfolding fetch_partition_def Let_def lead run_bind_simps prod.case maxb [symmetric] rd(1) hwm b2 [symmetric] earliest ne
      using rd(3) by (cases "rid \<ge> 0") (auto simp: clamp_batches [OF wf] simp del: length_concat)
  qed
qed

end

text \<open>The answer a consumer gets for one partition: nothing, or committed batches from the offset on.\<close>

definition consumer_answer :: "('s \<Rightarrow> tpKey \<rightharpoonup> logview) \<Rightarrow> 's \<Rightarrow> string \<Rightarrow> FetchPartition \<Rightarrow> FetchPartitionResp \<Rightarrow> bool" where
  "consumer_answer view s topic p pr \<longleftrightarrow> fpr_Partition pr = fp_Partition p
     \<and> (\<forall>d. fpr_Records pr = Some d \<longrightarrow> (\<exists>v cs. view s (topic, fp_Partition p) = Some v \<and> answers v (fp_FetchOffset p) cs
          \<and> d = concat cs \<and> (\<forall>c \<in> set cs. LastOffset (header c) < lv_hwm v)))"

definition consumer_answers :: "('s \<Rightarrow> tpKey \<rightharpoonup> logview) \<Rightarrow> 's \<Rightarrow> FetchTopic \<Rightarrow> FetchTopicResp \<Rightarrow> bool" where
  "consumer_answers view s t tr \<longleftrightarrow> ftr_Name tr = ft_Name t
     \<and> list_all2 (consumer_answer view s (ft_Name t)) (ft_Partitions t) (ftr_Partitions tr)"

lemma consumer_answer_keeps:
  assumes "consumer_answer view (br_store b) topic p pr" and "keeps view b b'"
  shows "consumer_answer view (br_store b') topic p pr"
  unfolding consumer_answer_def
proof (intro conjI allI impI)
  show "fpr_Partition pr = fp_Partition p" using assms(1) by (simp add: consumer_answer_def)
  fix d
  assume "fpr_Records pr = Some d"
  with assms(1) obtain v cs where v: "view (br_store b) (topic, fp_Partition p) = Some v" "answers v (fp_FetchOffset p) cs"
    "d = concat cs" "\<forall>c \<in> set cs. LastOffset (header c) < lv_hwm v" unfolding consumer_answer_def by blast
  with assms(2) obtain v' where v': "view (br_store b') (topic, fp_Partition p) = Some v'" "log_kept v v'" unfolding keeps_def by blast
  with v show "\<exists>v cs. view (br_store b') (topic, fp_Partition p) = Some v \<and> answers v (fp_FetchOffset p) cs \<and> d = concat cs
      \<and> (\<forall>c \<in> set cs. LastOffset (header c) < lv_hwm v)"
    by (intro exI [of _ v'] exI [of _ cs]) (fastforce simp: answers_def log_kept_def)
qed

lemma consumer_answers_keeps:
  "consumer_answers view (br_store b) t tr \<Longrightarrow> keeps view b b' \<Longrightarrow> consumer_answers view (br_store b') t tr"
  unfolding consumer_answers_def using consumer_answer_keeps by (auto elim!: list_all2_mono)

lemma answers_takeWhile: "answers v off bs \<Longrightarrow> answers v off (takeWhile P bs)"
proof -
  assume a: "answers v off bs"
  then obtain pre post where "lv_batches v = pre @ bs @ post" by (auto simp: answers_def)
  then have "lv_batches v = pre @ takeWhile P bs @ dropWhile P bs @ post" by simp
  with a show ?thesis by (cases bs) (auto simp: answers_def)
qed

context node_logs
begin

lemma consumer_partition:
  assumes b: "broker_ok ok view b" and rid: "rid < 0"
  shows "\<exists>pr n hard b'. fetch_partition B now rid topic p b = ret (pr, n, hard, b') \<and> broker_ok ok view b' \<and> keeps view b b'
    \<and> consumer_answer view (br_store b') topic p pr"
proof -
  let ?k = "(topic, fp_Partition p)"
  from leaderLog_ok [OF b, of ?k] obtain b1 code where
    b1: "leaderLog B b ?k = ret (code, b1)" "broker_ok ok view b1" "keeps view b b1"
    "code = ErrNone_code \<Longrightarrow> \<exists>v. view (br_store b1) ?k = Some v" by blast
  show ?thesis
  proof (cases "code = ErrNone_code")
    case True
    with b1(4) obtain v where v: "view (br_store b1) ?k = Some v" by blast
    from fetch_partition_served [OF b1(1) [unfolded True] b1(2) v refl] obtain bs and e :: "goerror option" where
      bs: "answers v (fp_FetchOffset p) bs" and
      eq: "fetch_partition B now rid topic p b =
       (let cs = (if rid \<ge> 0 then bs else takeWhile (below_hwm (lv_hwm v)) bs)
        in ret (\<lparr>fpr_Partition = fp_Partition p, fpr_ErrorCode = (if e = None then ErrNone_code else ErrOffsetOutOfRange_code),
                 fpr_HighWatermark = lv_hwm v, fpr_LastStable = lv_hwm v, fpr_LogStartOffset = lv_earliest v,
                 fpr_Records = (if bs = [] then None else Some (concat cs))\<rparr>,
                int (length (concat cs)), e \<noteq> None,
                if rid \<ge> 0 then RecordReplicaFetch B now b1 ?k rid (fp_FetchOffset p) else b1))" by blast
    have "\<forall>c \<in> set (takeWhile (below_hwm (lv_hwm v)) bs). LastOffset (header c) < lv_hwm v" using set_takeWhileD by fast
    with answers_takeWhile [OF bs] v b1(2,3) rid show ?thesis
      unfolding eq Let_def by (auto simp: consumer_answer_def)
  next
    case False
    with b1 show ?thesis by (auto simp: fetch_partition_def Let_def consumer_answer_def)
  qed
qed

lemma consumer_partitions:
  assumes "broker_ok ok view b" and "rid < 0" and "list_all2 (consumer_answer view (br_store b) topic) qs out"
  shows "\<exists>out' n' hard' b'. fetch_partitions B now rid topic ps out n hard b = ret (out', n', hard', b') \<and> broker_ok ok view b'
    \<and> keeps view b b' \<and> list_all2 (consumer_answer view (br_store b') topic) (qs @ ps) out'"
  using assms
proof (induction ps arbitrary: b qs out n hard)
  case (Cons p ps)
  from consumer_partition [OF Cons.prems(1,2), of now topic p] obtain pr len h b1 where
    b1: "fetch_partition B now rid topic p b = ret (pr, len, h, b1)" "broker_ok ok view b1" "keeps view b b1"
    "consumer_answer view (br_store b1) topic p pr" by blast
  have "list_all2 (consumer_answer view (br_store b1) topic) (qs @ [p]) (out @ [pr])"
    using Cons.prems(3) b1(3,4) consumer_answer_keeps by (auto intro!: list_all2_appendI elim!: list_all2_mono)
  from Cons.IH [OF b1(2) Cons.prems(2) this, of "n + len" "hard \<or> h"] b1(1,3) show ?case
    by (auto intro: keeps_trans)
qed auto

lemma consumer_topics:
  assumes "broker_ok ok view b" and "rid < 0" and "list_all2 (consumer_answers view (br_store b)) us out"
  shows "\<exists>out' n' hard' b'. fetch_topics B now rid ts out n hard b = ret (out', n', hard', b') \<and> broker_ok ok view b'
    \<and> keeps view b b' \<and> list_all2 (consumer_answers view (br_store b')) (us @ ts) out'"
  using assms
proof (induction ts arbitrary: b us out n hard)
  case (Cons t ts)
  from consumer_partitions [OF Cons.prems(1,2), of "ft_Name t" "[]" "[]" now "ft_Partitions t" n hard] obtain prs n1 h1 b1 where
    b1: "fetch_partitions B now rid (ft_Name t) (ft_Partitions t) [] n hard b = ret (prs, n1, h1, b1)" "broker_ok ok view b1"
    "keeps view b b1" "list_all2 (consumer_answer view (br_store b1) (ft_Name t)) (ft_Partitions t) prs" by auto
  have "consumer_answers view (br_store b1) t \<lparr>ftr_Name = ft_Name t, ftr_Partitions = prs\<rparr>"
    using b1(4) by (simp add: consumer_answers_def)
  with Cons.prems(3) b1(3) consumer_answers_keeps
  have "list_all2 (consumer_answers view (br_store b1)) (us @ [t]) (out @ [\<lparr>ftr_Name = ft_Name t, ftr_Partitions = prs\<rparr>])"
    by (auto intro!: list_all2_appendI elim!: list_all2_mono)
  from Cons.IH [OF b1(2) Cons.prems(2) this, of n1 h1] b1(1,3) show ?case by (auto intro: keeps_trans)
qed auto

lemma consumer_build:
  assumes "broker_ok ok view b" and "fr_ReplicaID req < 0"
  shows "\<exists>resp n hard b'. buildFetch B now req b = ret (resp, n, hard, b') \<and> broker_ok ok view b'
    \<and> list_all2 (consumer_answers view (br_store b')) (fr_Topics req) (frr_Topics resp)"
  using consumer_topics [OF assms, of "[]" "[]" now "fr_Topics req" 0 False] by (auto simp: buildFetch_def)

lemma consumer_loop:
  assumes "broker_ok ok view b" and "fr_ReplicaID req < 0" and "\<forall>(now, g) \<in> set turns. \<forall>b. broker_ok ok view b \<longrightarrow> broker_ok ok view (g b)"
  shows "\<exists>resp b'. fetch_loop B req turns final b = ret (resp, b') \<and> broker_ok ok view b'
    \<and> list_all2 (consumer_answers view (br_store b')) (fr_Topics req) (frr_Topics resp)"
  using assms
proof (induction turns arbitrary: b)
  case Nil
  from consumer_build [OF Nil(1,2), of final] show ?case by auto
next
  case (Cons turn turns)
  obtain now g where turn: "turn = (now, g)" by (cases turn)
  from consumer_build [OF Cons.prems(1,2), of now] obtain resp n hard b1 where
    b1: "buildFetch B now req b = ret (resp, n, hard, b1)" "broker_ok ok view b1"
    "list_all2 (consumer_answers view (br_store b1)) (fr_Topics req) (frr_Topics resp)" by blast
  have "broker_ok ok view (g b1)" using Cons.prems(3) b1(2) by (simp add: turn)
  with Cons.IH [of "g b1"] Cons.prems(2,3) b1 show ?case by (simp add: turn)
qed

end

section \<open>Produce\<close>

fun append_rooms :: "'s Backend_ops \<Rightarrow> ('s \<Rightarrow> tpKey \<Rightarrow> bytes \<Rightarrow> bool) \<Rightarrow> 's \<Rightarrow> tpKey \<Rightarrow> bytes list \<Rightarrow> bool" where
  "append_rooms B room s k [] \<longleftrightarrow> True"
| "append_rooms B room s k (b # bs) \<longleftrightarrow> room s k b
     \<and> (case be_Append B s k b of Panic \<Rightarrow> False | Ret (_, _, s') \<Rightarrow> append_rooms B room s' k bs)"

text \<open>What other requests may do to the broker meanwhile, as far as a waiting producer is concerned.\<close>

definition hwm_grows :: "('s \<Rightarrow> bool) \<Rightarrow> ('s \<Rightarrow> tpKey \<rightharpoonup> logview) \<Rightarrow> ('s BrokerState \<Rightarrow> 's BrokerState) \<Rightarrow> bool" where
  "hwm_grows ok view g \<longleftrightarrow> (\<forall>b. broker_ok ok view b \<longrightarrow> broker_ok ok view (g b)
     \<and> (\<forall>k v. view (br_store b) k = Some v \<longrightarrow> (\<exists>v'. view (br_store (g b)) k = Some v' \<and> lv_hwm v \<le> lv_hwm v')))"

definition sealed_slot :: "int \<Rightarrow> int \<Rightarrow> logview \<Rightarrow> ProducePartitionResp \<Rightarrow> bool" where
  "sealed_slot base target v pr \<longleftrightarrow>
     ppr_ErrorCode pr = ErrNone_code \<and> ppr_BaseOffset pr = base \<and> target \<le> lv_hwm v
   \<or> ppr_ErrorCode pr = ErrRequestTimedOut_code \<and> ppr_BaseOffset pr = -1"

context node_logs
begin

lemma latest_nonneg: "ok s \<Longrightarrow> view s k = Some v \<Longrightarrow> 0 \<le> lv_latest v"
  using view_ok [of s k v] batch_run_le [of "lv_earliest v" "lv_batches v" "lv_latest v"] by (simp add: lv_ok_def)

lemma iter_produce:
  assumes "ok s" and "view s k = Some v" and "list_all wf_records bs" and "append_rooms B room s k bs"
  shows "\<exists>n s'. iter_batches (produce_batch B k) bs None c (s, base) =
      Ret (n, None, (s', if bs = [] \<or> base \<ge> 0 then base else lv_latest v)) \<and> ok s' \<and> view s' = (view s)(k \<mapsto> fold lv_append bs v)"
  using assms
proof (induction bs arbitrary: s v c base)
  case Nil
  then show ?case by auto
next
  case (Cons b bs)
  have b: "wf_records b" "room s k b" using Cons.prems by simp_all
  from append_law [OF Cons.prems(1,2) b] obtain s1 where
    s1: "be_Append B s k b = Ret (lv_latest v, None, s1)" "ok s1" "view s1 = (view s)(k \<mapsto> lv_append b v)" by blast
  let ?base = "if base < 0 then lv_latest v else base"
  have v1: "view s1 k = Some (lv_append b v)" by (simp add: s1(3))
  have base: "(if bs = [] \<or> ?base \<ge> 0 then ?base else lv_latest (lv_append b v)) = ?base"
    using latest_nonneg [OF Cons.prems(1,2)] by simp
  have wf: "list_all wf_records bs" using Cons.prems(3) by simp
  have "append_rooms B room s1 k bs" using Cons.prems(4) s1(1) by simp
  from Cons.IH [OF s1(2) v1 wf this, of "c + length b" ?base, unfolded base] obtain n s' where
    s': "iter_batches (produce_batch B k) bs None (c + length b) (s1, ?base) = Ret (n, None, (s', ?base))" "ok s'"
    "view s' = (view s1)(k \<mapsto> fold lv_append bs (lv_append b v))" by blast
  have "produce_batch B k b (s, base) = Ret (None, (s1, ?base))" by (simp add: produce_batch_def s1(1))
  then have "iter_batches (produce_batch B k) (b # bs) None c (s, base) =
      Ret (n, None, (s', if b # bs = [] \<or> base \<ge> 0 then base else lv_latest v))"
    using s'(1) by simp
  moreover have "view s' = (view s)(k \<mapsto> fold lv_append (b # bs) v)"
    unfolding s'(3) s1(3) by (simp only: fun_upd_upd fold_simps)
  ultimately show ?case using s'(2) by blast
qed

lemma produce_partition_ok:
  assumes lead: "leaderLog B b (topic, pp_Index p) = ret (ErrNone_code, b1)" and b1: "broker_ok ok view b1"
    and v: "view (br_store b1) (topic, pp_Index p) = Some v"
    and recs: "pp_Records p = Some (concat bs)" "bs \<noteq> []" "list_all wf_records bs" "append_rooms B room (br_store b1) (topic, pp_Index p) bs"
  shows "\<exists>s. produce_partition B (-1) topic p b =
      ret (\<lparr>ppr_Index = pp_Index p, ppr_ErrorCode = ErrNone_code, ppr_BaseOffset = lv_latest v, ppr_LogAppendTime = 0,
            ppr_LogStartOffset = lv_earliest v\<rparr>, Some (lv_latest (fold lv_append bs v)), b1\<lparr>br_store := s\<rparr>)
    \<and> ok s \<and> view s = (view (br_store b1))((topic, pp_Index p) \<mapsto> fold lv_append bs v)"
proof -
  let ?k = "(topic, pp_Index p)"
  note D = broker_okD [OF b1]
  from iter_produce [OF D(1) v recs(3,4), of 0 "-1"] recs(2) obtain n s where
    it: "iter_batches (produce_batch B ?k) bs None 0 (br_store b1, -1) = Ret (n, None, (s, lv_latest v))" and
    s: "ok s" "view s = (view (br_store b1))(?k \<mapsto> fold lv_append bs v)" by auto
  have wf: "list_all wf_batch bs" using recs(3) by (auto simp: list_all_iff)
  have "Iterate (concat bs) (produce_batch B ?k) (br_store b1, -1) = ret (n, None, (s, lv_latest v))"
    using Iterate_batches [OF wf, of "[]" "produce_batch B ?k" "(br_store b1, -1)"] it by (simp add: torn_def torn_error_def)
  moreover have sv: "view s ?k = Some (fold lv_append bs v)" by (simp add: s(2))
  have "lv_earliest (fold lv_append bs v) = lv_earliest v" by (induction bs arbitrary: v) (simp_all add: lv_append_def)
  moreover note observe [OF s(1) sv] latest_nonneg [OF D(1) v]
  ultimately show ?thesis using s lead recs(1) by (intro exI [of _ s]) (simp add: produce_partition_def records_of_def)
qed

lemma hwm_committed_ok:
  assumes "broker_ok ok view b" and "view (br_store b) k = Some v" and "\<forall>g \<in> set gs. hwm_grows ok view g"
  shows "\<exists>r b' v'. hwm_committed B k target gs b = (r, b') \<and> broker_ok ok view b' \<and> view (br_store b') k = Some v' \<and> (r \<longrightarrow> target \<le> lv_hwm v')"
  using assms
proof (induction gs arbitrary: b v)
  case Nil
  with observe [OF broker_okD(1) [OF Nil(1)] Nil(2)] show ?case by simp
next
  case (Cons g gs)
  note h = observe [OF broker_okD(1) [OF Cons.prems(1)] Cons.prems(2)]
  have g: "hwm_grows ok view g" using Cons.prems(3) by simp
  from g Cons.prems(1) have g1: "broker_ok ok view (g b)" unfolding hwm_grows_def by blast
  from g Cons.prems(1,2) obtain v1 where "view (br_store (g b)) k = Some v1" unfolding hwm_grows_def by blast
  from Cons.IH [OF g1 this] Cons.prems h show ?case by auto
qed

lemma produce_one_ok:
  assumes lead: "leaderLog B b (topic, pp_Index p) = ret (ErrNone_code, b1)" and b1: "broker_ok ok view b1"
    and v: "view (br_store b1) (topic, pp_Index p) = Some v"
    and recs: "pp_Records p = Some (concat bs)" "bs \<noteq> []" "list_all wf_records bs" "append_rooms B room (br_store b1) (topic, pp_Index p) bs"
    and polls: "\<And>w g. g \<in> set (polls w) \<Longrightarrow> hwm_grows ok view g"
  shows "\<exists>topics waits b2 pr b3 v3.
      produce_topics B (-1) [\<lparr>pt_Name = topic, pt_Partitions = [p]\<rparr>] [] [] b = ret (topics, waits, b2)
    \<and> view (br_store b2) = (view (br_store b1))((topic, pp_Index p) \<mapsto> fold lv_append bs v)
    \<and> awaitCommit B polls waits topics b2 = ([\<lparr>ptr_Name = topic, ptr_Partitions = [pr]\<rparr>], b3)
    \<and> view (br_store b3) (topic, pp_Index p) = Some v3
    \<and> sealed_slot (lv_latest v) (lv_latest (fold lv_append bs v)) v3 pr"
proof -
  let ?k = "(topic, pp_Index p)" and ?t = "lv_latest (fold lv_append bs v)"
  from produce_partition_ok [OF assms(1-7)] obtain s where
    s: "produce_partition B (-1) topic p b =
      ret (\<lparr>ppr_Index = pp_Index p, ppr_ErrorCode = ErrNone_code, ppr_BaseOffset = lv_latest v, ppr_LogAppendTime = 0,
            ppr_LogStartOffset = lv_earliest v\<rparr>, Some ?t, b1\<lparr>br_store := s\<rparr>)"
    "ok s" "view s = (view (br_store b1))(?k \<mapsto> fold lv_append bs v)" by blast
  let ?b2 = "b1\<lparr>br_store := s\<rparr>" and ?w = "\<lparr>pw_key = ?k, pw_target = ?t, pw_ti = 0, pw_pi = 0\<rparr>"
  let ?pr = "\<lparr>ppr_Index = pp_Index p, ppr_ErrorCode = ErrNone_code, ppr_BaseOffset = lv_latest v, ppr_LogAppendTime = 0,
    ppr_LogStartOffset = lv_earliest v\<rparr>"
  have b2: "broker_ok ok view ?b2"
  proof (rule broker_okI)
    fix k
    show "k |\<in>| br_logs ?b2 \<longleftrightarrow> view (br_store ?b2) k \<noteq> None" using broker_okD(2) [OF b1, of k] v by (simp add: s(3))
  qed (use s(2) broker_okD(3,4) [OF b1] in simp_all)
  have v2: "view (br_store ?b2) ?k = Some (fold lv_append bs v)" by (simp add: s(3))
  have "\<forall>g \<in> set (polls ?w). hwm_grows ok view g" using polls by blast
  from hwm_committed_ok [OF b2 v2 this, of ?t] obtain r b3 v3 where
    r: "hwm_committed B ?k ?t (polls ?w) ?b2 = (r, b3)" "view (br_store b3) ?k = Some v3" "r \<longrightarrow> ?t \<le> lv_hwm v3" by blast
  have pt: "produce_topics B (-1) [\<lparr>pt_Name = topic, pt_Partitions = [p]\<rparr>] [] [] b =
      ret ([\<lparr>ptr_Name = topic, ptr_Partitions = [?pr]\<rparr>], [?w], ?b2)" by (simp add: s(1))
  let ?pr' = "if r then ?pr else ?pr\<lparr>ppr_ErrorCode := ErrRequestTimedOut_code, ppr_BaseOffset := -1\<rparr>"
  have "awaitCommit B polls [?w] [\<lparr>ptr_Name = topic, ptr_Partitions = [?pr]\<rparr>] ?b2 =
      ([\<lparr>ptr_Name = topic, ptr_Partitions = [?pr']\<rparr>], b3)"
    by (cases r) (simp_all add: r(1) mark_timeout_def)
  moreover have "sealed_slot (lv_latest v) ?t v3 ?pr'" using r(3) by (simp add: sealed_slot_def)
  ultimately show ?thesis using pt r(2) s(3)
    by (intro exI [of _ "[\<lparr>ptr_Name = topic, ptr_Partitions = [?pr]\<rparr>]"] exI [of _ "[?w]"] exI [of _ ?b2]
        exI [of _ ?pr'] exI [of _ b3] exI [of _ v3] conjI) (simp_all del: fun_upd_apply)
qed

end

section \<open>Properties\<close>

text \<open>C1: a fetch by a consumer, however long it polls and whatever other requests do to the broker
  meanwhile (as long as they keep it well-formed), returns, and the record set it returns for a
  partition is a run of whole batches of the log that starts with the batch holding the requested
  offset and lies entirely below the high watermark: a consumer never sees an uncommitted record.\<close>

theorem consumer_reads_committed:
  assumes "broker_ok file_ok file_view b" and "fr_ReplicaID req < 0"
    and "\<forall>(now, g) \<in> set turns. \<forall>b. broker_ok file_ok file_view b \<longrightarrow> broker_ok file_ok file_view (g b)"
  shows "\<exists>resp b'. fetch_loop (file_backend t mtime) req turns final b = ret (resp, b') \<and> broker_ok file_ok file_view b'
    \<and> list_all2 (consumer_answers file_view (br_store b')) (fr_Topics req) (frr_Topics resp)"
  by (rule file_node.consumer_loop [OF assms])


section \<open>Witnesses\<close>

abbreviation sample_key :: tpKey where
  "sample_key \<equiv> (''t'', 0)"

definition sample_open :: "file_node BrokerState" where
  "sample_open = sample_broker\<lparr>br_store := set_log sample_files sample_key sample_log, br_logs := {|sample_key|}\<rparr>"

lemma sample_open_ok: "broker_ok file_ok file_view sample_open"
proof (rule broker_okI)
  have "file_ok sample_files" using broker_okD(1) [OF sample_broker_ok] by (simp add: sample_broker_def)
  then show "file_ok (br_store sample_open)" using sample_log_ok(1) by (simp add: sample_open_def set_log_ok)
  show "k |\<in>| br_logs sample_open \<longleftrightarrow> file_view (br_store sample_open) k \<noteq> None" for k
    by (auto simp: sample_open_def set_log_view file_view_def sample_files_def)
qed (simp_all add: sample_open_def sample_broker_def Single_def)

lemma sample_open_fields:
  "br_store sample_open = set_log sample_files sample_key sample_log" "br_logs sample_open = {|sample_key|}"
  "br_ctrl sample_open = br_ctrl sample_broker" "br_cluster sample_open = br_cluster sample_broker"
  by (simp_all add: sample_open_def)

lemma sample_open_view: "file_view (br_store sample_open) sample_key = Some (log_view sample_log)"
  by (simp add: sample_open_fields set_log_view)

lemma sample_open_serves: "NumPartitions sample_open ''t'' = 1" "leads sample_open sample_key = Ret True"
proof -
  show "NumPartitions sample_open ''t'' = 1"
    by (simp add: NumPartitions_def sample_open_fields sample_broker_def sample_meta_def Partitions_def applyLocked_def cmd_simps
        NewFSM_def i32_def)
  show "leads sample_open sample_key = Ret True"
    using sample_view by (simp add: leads_def fsm_view_def sample_open_fields) (simp add: sample_broker_def Single_def Self_def)
qed

lemma sample_open_leads: "leaderLog B sample_open sample_key = ret (ErrNone_code, sample_open)"
  by (simp add: leaderLog_def LocalLog_def sample_open_fields sample_open_serves)

theorem consumer_reads_committed_witness:
  "\<exists>resp b'. fetch_loop (file_backend 0 (\<lambda>_ _. None))
      \<lparr>fr_ReplicaID = -1, fr_MaxWaitMs = 500, fr_MinBytes = 1, fr_MaxBytes = 1, fr_IsolationLevel = 0, fr_SessionID = 0,
       fr_SessionEpoch = 0, fr_Topics = [\<lparr>ft_Name = ''t'', ft_Partitions = [\<lparr>fp_Partition = 0, fp_FetchOffset = 0,
         fp_LogStartOffset = 0, fp_MaxBytes = 100\<rparr>]\<rparr>]\<rparr> [(0, \<lambda>b. b)] 5 sample_open = ret (resp, b')
    \<and> broker_ok file_ok file_view b' \<and> length (frr_Topics resp) = 1"
proof -
  let ?req = "\<lparr>fr_ReplicaID = -1, fr_MaxWaitMs = 500, fr_MinBytes = 1, fr_MaxBytes = 1, fr_IsolationLevel = 0, fr_SessionID = 0,
       fr_SessionEpoch = 0, fr_Topics = [\<lparr>ft_Name = ''t'', ft_Partitions = [\<lparr>fp_Partition = 0, fp_FetchOffset = 0,
         fp_LogStartOffset = 0, fp_MaxBytes = 100\<rparr>]\<rparr>]\<rparr>"
  have "fr_ReplicaID ?req < 0"
    "\<forall>(now, g) \<in> set [(0 :: int, \<lambda>b. b)]. \<forall>b. broker_ok file_ok file_view b \<longrightarrow> broker_ok file_ok file_view (g b)" by simp_all
  from consumer_reads_committed [OF sample_open_ok this, of 0 "\<lambda>_ _. None" 5] obtain resp b' where
    "fetch_loop (file_backend 0 (\<lambda>_ _. None)) ?req [(0, \<lambda>b. b)] 5 sample_open = ret (resp, b')" "broker_ok file_ok file_view b'"
    "list_all2 (consumer_answers file_view (br_store b')) (fr_Topics ?req) (frr_Topics resp)" by blast
  with list_all2_lengthD [OF this(3)] show ?thesis by auto
qed


end
