(* ===== verification/Replicate.thy ===== *)
theory Replicate
  imports Server Data_Props
begin

text \<open>
  The two ends of replication together: a turn of a follower's session whose request goes through the
  connection loop, the dispatcher and the fetch handler of the leader, and whose answer comes back
  through the response codec into the follower's log.
\<close>

section \<open>The request on the leader's side\<close>

abbreviation replica_payload :: "int \<Rightarrow> string \<Rightarrow> int \<Rightarrow> int \<Rightarrow> int \<Rightarrow> bytes" where
  "replica_payload nid topic p off corr \<equiv> lay_header (replica_header corr) @ lay_FetchRequest 4 (replica_request nid topic p off)"

lemma replica_payload_length: "length (replica_payload nid topic p off corr) = length topic + 63"
  by (simp add: lay_header_def lay_FetchRequest_def replica_header_def replica_request_def lay_FetchTopic_def lay_FetchPartition_def
      writer_defs fetch_consts)

lemma next_frame_whole:
  assumes "0 < length P" and "int (length P) \<le> maxFrameBytes"
  shows "next_frame (be_bytes 4 (u32 (int (length P))) @ P @ rest) = Some (P, rest)"
proof -
  have "be_uint (be_bytes 4 (u32 (int (length P)))) = int (length P)" using assms(2) by (simp add: u32_def maxFrameBytes_def)
  with assms show ?thesis by (simp add: next_frame_def Let_def del: be_uint_be_bytes)
qed

lemma next_frame_empty: "next_frame [] = None"
  by (simp add: next_frame_def read_full_def)

lemma next_frame_request:
  assumes "ok_string topic"
  shows "next_frame (encodeFetch nid topic p off corr) = Some (replica_payload nid topic p off corr, [])"
proof -
  let ?P = "replica_payload nid topic p off corr"
  have eq: "encodeFetch nid topic p off corr = be_bytes 4 (u32 (int (length ?P))) @ ?P"
    unfolding encodeFetch_layout Let_def fetchAPIVersion_def ..
  have "0 < length ?P" "int (length ?P) \<le> maxFrameBytes"
    using assms by (simp_all only: replica_payload_length) (simp_all add: ok_string_def maxFrameBytes_def)
  from next_frame_whole [OF this, of "[]"] show ?thesis by (simp only: eq append_Nil2)
qed

lemma header_of_request:
  assumes "in_i32 corr"
  shows "run_state DecodeRequestHeader (NewReader (replica_payload nid topic p off corr)) =
    (replica_header corr, adv_r (length (lay_header (replica_header corr))) (NewReader (replica_payload nid topic p off corr)))"
  using assms
  by (intro decodesD [OF decodes_header at_NewReader])
    (simp_all add: replica_header_def APIFetch_def fetchAPIVersion_def in_i16_def ok_nullable_def ok_string_def)

lemma body_of_request:
  assumes "in_i32 nid" and "in_i32 p" and "in_i64 off" and "ok_string topic"
  shows "fst (run_state (FetchRequest_Decode 4) (adv_r (length (lay_header (replica_header corr)))
      (NewReader (replica_payload nid topic p off corr)))) = replica_request nid topic p off"
proof -
  have "ok_FetchRequest 4 (replica_request nid topic p off)"
    using assms by (simp add: ok_FetchRequest_def replica_request_def ok_FetchTopic_def ok_FetchPartition_def fetch_consts)
      (simp add: in_i32_def in_i8_def)
  from decodesD [OF decodes_FetchRequest [OF this], of _ "[]"]
    at_adv [OF at_NewReader [of "replica_payload nid topic p off corr"] refl] show ?thesis by simp
qed

section \<open>The fetch of a replica\<close>

lemma buildFetch_replica:
  "buildFetch B now (replica_request nid topic p off) b =
     run_bind (fetch_partition B now nid topic \<lparr>fp_Partition = p, fp_FetchOffset = off, fp_LogStartOffset = 0, fp_MaxBytes = fetchMaxBytes\<rparr> b)
       (\<lambda>(pr, n, hard, b'). ret (one_resp topic pr, n, hard, b'))"
  by (simp add: buildFetch_def replica_request_def one_resp_def run_bind_def split: option.split go.split prod.split)

text \<open>A fetch that finds something, or fails, answers in its first turn.\<close>

lemma fetch_loop_first:
  assumes "\<And>now. buildFetch B now req b = ret (resp, n, hard, b' now)" and "hard \<or> n \<ge> fetch_min req"
  shows "\<exists>now. fetch_loop B req turns final b = ret (resp, b' now)"
proof (cases turns)
  case (Cons turn ts)
  obtain now g where "turn = (now, g)" by fastforce
  with Cons assms show ?thesis by auto
qed (use assms(1) in auto)

text \<open>What the leader answers for a partition at an offset at which it has something to say.\<close>

definition replica_resp :: "logview \<Rightarrow> int \<Rightarrow> bytes list \<Rightarrow> int \<Rightarrow> FetchPartitionResp" where
  "replica_resp v p bs code = \<lparr>fpr_Partition = p, fpr_ErrorCode = code, fpr_HighWatermark = lv_hwm v, fpr_LastStable = lv_hwm v,
     fpr_LogStartOffset = lv_earliest v, fpr_Records = (if bs = [] then None else Some (concat bs))\<rparr>"

lemma answers_size:
  assumes "lv_ok v" and "answers v off bs" and "length bs \<le> 1 \<or> int (length (concat bs)) \<le> fetchMaxBytes"
  shows "length (concat bs) < 2 ^ 31"
proof (cases bs)
  case (Cons b cs)
  then show ?thesis using assms(3) wf_batch_size(2) [of b] answers_wf [OF assms(1,2)]
    by (cases cs) (auto simp: fetchMaxBytes_def)
qed simp

lemma Dispatch_fetch:
  "rh_APIKey hdr = APIFetch \<Longrightarrow> Dispatch B env hdr r nd =
     replying (slept env (on_broker (fetch B (dv_turns env) (dv_final env) (rh_APIVersion hdr) r) (count_request APIFetch nd)))"
  by (simp add: Dispatch_def Let_def api_defs)

context node_logs
begin

lemma build_replica:
  assumes lead: "leaderLog B b (topic, p) = ret (ErrNone_code, b1)" and b1: "broker_ok ok view b1"
    and v: "view (br_store b1) (topic, p) = Some v" and nid: "0 \<le> nid"
  obtains bs and e :: "goerror option" where "answers v off bs" "length bs \<le> 1 \<or> int (length (concat bs)) \<le> fetchMaxBytes"
    "bs \<noteq> [] \<longleftrightarrow> lv_earliest v \<le> off \<and> off < lv_latest v" "e = None \<longleftrightarrow> lv_earliest v \<le> off \<and> off \<le> lv_latest v"
    "\<And>now. buildFetch B now (replica_request nid topic p off) b =
       ret (one_resp topic (replica_resp v p bs (if e = None then ErrNone_code else ErrOffsetOutOfRange_code)),
         int (length (concat bs)), e \<noteq> None, RecordReplicaFetch B now b1 (topic, p) nid off)"
proof -
  let ?fp = "\<lparr>fp_Partition = p, fp_FetchOffset = off, fp_LogStartOffset = 0, fp_MaxBytes = fetchMaxBytes\<rparr>"
  have l: "leaderLog B b (topic, fp_Partition ?fp) = ret (ErrNone_code, b1)" using lead by simp
  have v': "view (br_store b1) (topic, fp_Partition ?fp) = Some v" using v by simp
  have m: "fetchMaxBytes = (if fp_MaxBytes ?fp \<le> 0 then defaultFetchBytes else fp_MaxBytes ?fp)" by (simp add: fetchMaxBytes_def)
  from fetch_partition_served [OF l b1 v' m, of nid] obtain bs and e :: "goerror option" where
    bs: "answers v off bs" "length bs \<le> 1 \<or> int (length (concat bs)) \<le> fetchMaxBytes"
    "bs \<noteq> [] \<longleftrightarrow> lv_earliest v \<le> off \<and> off < lv_latest v" "e = None \<longleftrightarrow> lv_earliest v \<le> off \<and> off \<le> lv_latest v" and
    eq: "\<And>now. fetch_partition B now nid topic ?fp b =
       (let cs = (if nid \<ge> 0 then bs else takeWhile (below_hwm (lv_hwm v)) bs)
        in ret (\<lparr>fpr_Partition = fp_Partition ?fp, fpr_ErrorCode = (if e = None then ErrNone_code else ErrOffsetOutOfRange_code),
                 fpr_HighWatermark = lv_hwm v, fpr_LastStable = lv_hwm v, fpr_LogStartOffset = lv_earliest v,
                 fpr_Records = (if bs = [] then None else Some (concat cs))\<rparr>,
                int (length (concat cs)), e \<noteq> None,
                if nid \<ge> 0 then RecordReplicaFetch B now b1 (topic, fp_Partition ?fp) nid (fp_FetchOffset ?fp) else b1))"
    by (auto simp only: FetchPartition.simps)
  show thesis
    by (rule that [OF bs]) (use nid in \<open>simp add: buildFetch_replica eq replica_resp_def\<close>)
qed

text \<open>One connection that carries one replica fetch.\<close>

lemma serve_replica:
  assumes lead: "leaderLog B (nd_broker nd) (topic, p) = ret (ErrNone_code, b1)" and b1: "broker_ok ok view b1"
    and v: "view (br_store b1) (topic, p) = Some v" and off: "off \<noteq> lv_latest v" "in_i64 off"
    and rng: "0 \<le> nid" "in_i32 nid" "in_i32 p" "in_i32 corr" "ok_string topic"
  obtains bs code nd' now where "answers v off bs" "length bs \<le> 1 \<or> int (length (concat bs)) \<le> fetchMaxBytes"
    "bs \<noteq> [] \<longleftrightarrow> lv_earliest v \<le> off \<and> off < lv_latest v"
    "code = (if lv_earliest v \<le> off \<and> off \<le> lv_latest v then ErrNone_code else ErrOffsetOutOfRange_code)"
    "handleConn B envs 0 (encodeFetch nid topic p off corr) [] nd =
       ret (writeResponse corr (FetchResponse_Encode (one_resp topic (replica_resp v p bs code)) 4 []), nd')"
    "nd_broker nd' = RecordReplicaFetch B now b1 (topic, p) nid off"
proof -
  let ?req = "replica_request nid topic p off"
  from build_replica [OF lead b1 v rng(1), of off] obtain bs and e :: "goerror option" where
    bs: "answers v off bs" "length bs \<le> 1 \<or> int (length (concat bs)) \<le> fetchMaxBytes"
    "bs \<noteq> [] \<longleftrightarrow> lv_earliest v \<le> off \<and> off < lv_latest v" and
    e: "e = None \<longleftrightarrow> lv_earliest v \<le> off \<and> off \<le> lv_latest v" and
    eq: "\<And>now. buildFetch B now ?req (nd_broker nd) =
       ret (one_resp topic (replica_resp v p bs (if e = None then ErrNone_code else ErrOffsetOutOfRange_code)),
         int (length (concat bs)), e \<noteq> None, RecordReplicaFetch B now b1 (topic, p) nid off)" by blast
  let ?code = "if e = None then ErrNone_code else ErrOffsetOutOfRange_code"
  have wf: "list_all wf_batch bs" by (rule answers_wf [OF view_ok [OF broker_okD(1) [OF b1] v] bs(1)])
  have "e \<noteq> None \<or> int (length (concat bs)) \<ge> fetch_min ?req"
    using e bs(3) off(1) wf wf_batch_size(1) [of "hd bs"]
    by (cases bs) (auto simp: fetch_min_def replica_request_def fetch_consts HeaderSize_def)
  from fetch_loop_first [OF eq this, of "dv_turns (envs 0)" "dv_final (envs 0)"] obtain now where
    loop: "fetch_loop B ?req (dv_turns (envs 0)) (dv_final (envs 0)) (nd_broker nd) =
      ret (one_resp topic (replica_resp v p bs ?code), RecordReplicaFetch B now b1 (topic, p) nid off)" by blast
  obtain c fs where meanwhile: "dv_meanwhile (envs 0) (nd_coord nd, nd_fs nd) = (c, fs)" by fastforce
  let ?nd = "(count_request APIFetch nd)\<lparr>nd_broker := RecordReplicaFetch B now b1 (topic, p) nid off, nd_coord := c, nd_fs := fs\<rparr>"
  define r where "r = adv_r (length (lay_header (replica_header corr))) (NewReader (replica_payload nid topic p off corr))"
  note r = body_of_request [OF rng(2,3) off(2) rng(5), of corr, folded r_def] header_of_request [OF rng(4), of nid topic p off, folded r_def]
  have hdr: "rh_APIKey (replica_header corr) = APIFetch" "rh_APIVersion (replica_header corr) = 4" "rh_CorrelationID (replica_header corr) = corr"
    by (simp_all add: replica_header_def fetchAPIVersion_def)
  have cnt: "nd_broker (count_request APIFetch nd) = nd_broker nd" "nd_coord (count_request APIFetch nd) = nd_coord nd"
    "nd_fs (count_request APIFetch nd) = nd_fs nd" by (simp_all add: count_request_def)
  have "fetch B (dv_turns (envs 0)) (dv_final (envs 0)) 4 r (nd_broker nd) =
      ret (FetchResponse_Encode (one_resp topic (replica_resp v p bs ?code)) 4 [], RecordReplicaFetch B now b1 (topic, p) nid off)"
    by (simp only: fetch_def Let_def r(1) loop run_bind_simps prod.case encode_def NewWriter_def)
  then have "Dispatch B (envs 0) (replica_header corr) r nd
      = ret ((FetchResponse_Encode (one_resp topic (replica_resp v p bs ?code)) 4 [], True), ?nd)"
    using meanwhile by (simp add: Dispatch_fetch hdr replying_def slept_def on_broker_def cnt)
  then have "handleConn B envs 0 (encodeFetch nid topic p off corr) [] nd =
       ret (writeResponse corr (FetchResponse_Encode (one_resp topic (replica_resp v p bs ?code)) 4 []), ?nd)"
    by (subst handleConn.simps) (simp add: next_frame_request [OF rng(5)] r(2) handleConn.simps [of _ _ "Suc 0"] next_frame_empty hdr)
  with bs e show thesis by (intro that [of bs ?code ?nd now]) auto
qed

end

section \<open>Two logs in step\<close>

text \<open>The follower's log ends with batches that the leader has too, up to the follower's end; older
  batches may have been dropped on one of the two sides. \<open>rest\<close> is what the follower lacks.\<close>

definition lacks :: "logview \<Rightarrow> logview \<Rightarrow> bytes list \<Rightarrow> bool" where
  "lacks vF vL rest \<longleftrightarrow> (\<exists>old shared pre. lv_batches vF = old @ shared \<and> lv_batches vL = pre @ shared @ rest \<and> (old = [] \<or> pre = []))
     \<and> batch_run (lv_latest vF) rest (lv_latest vL) \<and> lv_earliest vL \<le> lv_latest vF"

lemma lacks_cong:
  "lv_batches vF' = lv_batches vF \<Longrightarrow> lv_latest vF' = lv_latest vF \<Longrightarrow> log_kept vL vL' \<Longrightarrow> lacks vF' vL' rest = lacks vF vL rest"
  by (simp add: lacks_def log_kept_def)

lemma batch_at:
  assumes "batch_run o' (P @ rest) n" and "batch_run m rest n" and "P @ rest = pre @ bs @ post" and "bs \<noteq> []"
    and "BaseOffset (header (hd bs)) \<le> m" and "m < BaseOffset (header (hd bs)) + span (hd bs)"
  shows "\<exists>more. rest = bs @ more"
proof -
  have "batch_run o' (pre @ bs @ post) n" using assms(1,3) by simp
  then obtain m1 where m1: "batch_run o' pre m1" "batch_run m1 (bs @ post) n" by (auto simp: batch_run_append)
  from assms(1) obtain m2 where m2: "batch_run o' P m2" "batch_run m2 rest n" by (auto simp: batch_run_append)
  obtain b bs' where b: "bs = b # bs'" using assms(4) by (cases bs) auto
  with m1(2) have base: "BaseOffset (header b) = m1" by simp
  have m: "m2 = m" using batch_run_start [OF m2(2) assms(2)] .
  from assms(3) obtain us where "P = pre @ us \<and> us @ rest = bs @ post \<or> P @ us = pre \<and> rest = us @ bs @ post"
    by (auto simp: append_eq_append_conv2)
  then show ?thesis
  proof (elim disjE conjE)
    assume us: "P = pre @ us" "us @ rest = bs @ post"
    show ?thesis
    proof (cases us)
      case (Cons c us')
      with us(2) b have c: "c = b" by simp
      from m2(1) us(1) obtain m3 where m3: "batch_run o' pre m3" "batch_run m3 us m" by (auto simp: batch_run_append m)
      with Cons c base have "BaseOffset (header b) + span b \<le> m" using batch_run_le [of "m3 + span b" us' m] by auto
      with assms(6) b show ?thesis by simp
    qed (use us(2) in auto)
  next
    assume us: "P @ us = pre" "rest = us @ bs @ post"
    show ?thesis
    proof (cases "us = []")
      case False
      from us(2) m2(2) obtain m3 where m3: "batch_run m us m3" "batch_run m3 (bs @ post) n" by (auto simp: batch_run_append m)
      have "m < m3" using batch_run_less [OF m3(1) False] .
      moreover have "m3 = BaseOffset (header b)" using m3(2) b by simp
      ultimately show ?thesis using assms(5) b by simp
    qed (use us(2) in auto)
  qed
qed

lemma lacks_answers:
  assumes ok: "lv_ok vL" and step: "lacks vF vL rest" and ans: "answers vL (lv_latest vF) bs" and ne: "bs \<noteq> []"
  shows "\<exists>more m. rest = bs @ more \<and> batch_run (lv_latest vF) bs m \<and> lacks (fold lv_replica bs vF) vL more"
proof -
  from step obtain old shared pre where
    st: "lv_batches vF = old @ shared" "lv_batches vL = pre @ shared @ rest" "old = [] \<or> pre = []"
      "batch_run (lv_latest vF) rest (lv_latest vL)" "lv_earliest vL \<le> lv_latest vF" unfolding lacks_def by blast
  from ans ne obtain l r where a: "lv_batches vL = l @ bs @ r" "BaseOffset (header (hd bs)) \<le> lv_latest vF"
    "lv_latest vF \<le> LastOffset (header (hd bs))" unfolding answers_def by blast
  have run: "batch_run (lv_earliest vL) ((pre @ shared) @ rest) (lv_latest vL)" using ok st(2) by (simp add: lv_ok_def)
  have "hd bs \<in> set (lv_batches vL)" using a(1) hd_in_set [OF ne] by simp
  then have "hd bs \<in> set ((pre @ shared) @ rest)" using st(2) by simp
  with batch_run_LastOffset [OF run] ok have "LastOffset (header (hd bs)) = BaseOffset (header (hd bs)) + span (hd bs) - 1"
    by (auto simp: lv_ok_def)
  with a have "lv_latest vF < BaseOffset (header (hd bs)) + span (hd bs)" by simp
  from batch_at [OF run st(4) _ ne a(2) this, of l r] a(1) st(2) obtain more where more: "rest = bs @ more" by auto
  from st(4) obtain m where m: "batch_run (lv_latest vF) bs m" "batch_run m more (lv_latest vL)" by (auto simp: more batch_run_append)
  have sum: "lv_latest vF + (\<Sum>b\<leftarrow>bs. span b) = m" using batch_run_sum [OF m(1)] by simp
  have le: "lv_latest vF \<le> m" using batch_run_le [OF m(1)] .
  have "\<exists>old' shared' pre'. lv_batches vF @ bs = old' @ shared' \<and> lv_batches vL = pre' @ shared' @ more \<and> (old' = [] \<or> pre' = [])"
    using st(1-3) more by (intro exI [of _ old] exI [of _ "shared @ bs"] exI [of _ pre]) simp
  then have "lacks (fold lv_replica bs vF) vL more"
    unfolding lacks_def fold_replica using m(2) sum le st(5) by auto
  with m(1) more show ?thesis by blast
qed

section \<open>Replication turn by turn\<close>

text \<open>The leader serves the partition from an open log.\<close>

definition serving :: "'s BrokerState \<Rightarrow> tpKey \<Rightarrow> bool" where
  "serving b k \<longleftrightarrow> 0 \<le> snd k \<and> snd k < NumPartitions b (fst k) \<and> leads b k = Ret True \<and> k |\<in>| br_logs b"

lemma serving_leaderLog: "serving b k \<Longrightarrow> leaderLog B b k = ret (ErrNone_code, b)"
  by (simp add: serving_def leaderLog_def LocalLog_def)

lemma serving_cong:
  assumes "br_ctrl b' = br_ctrl b" "br_catalog b' = br_catalog b" "br_cfg b' = br_cfg b" "br_cluster b' = br_cluster b" "br_logs b' = br_logs b"
  shows "serving b' k = serving b k"
  unfolding serving_def NumPartitions_def leads_def fsm_view_def assms ..

lemma advance_fields:
  "br_ctrl (advanceHighWatermark B b k) = br_ctrl b" "br_catalog (advanceHighWatermark B b k) = br_catalog b"
  "br_cfg (advanceHighWatermark B b k) = br_cfg b" "br_cluster (advanceHighWatermark B b k) = br_cluster b"
  "br_logs (advanceHighWatermark B b k) = br_logs b"
  by (simp_all add: advanceHighWatermark_def split: option.split)

lemma serving_RecordReplicaFetch: "serving (RecordReplicaFetch B now b k nid off) k = serving b k"
  by (rule serving_cong) (simp_all add: RecordReplicaFetch_def advance_fields)

text \<open>A fetcher whose connection leads to the server of the leader.\<close>

definition linked :: "'l Backend_ops \<Rightarrow> (nat \<Rightarrow> 'l dispatch_env) \<Rightarrow> int \<Rightarrow> string \<Rightarrow> 'l node \<Rightarrow> 's turn_env" where
  "linked BL envs lid addr nd =
     \<lparr>te_stopped = False, te_leader = Some (lid, addr), te_logOf = (\<lambda>s. ret (None, s)),
      te_exchange = (\<lambda>req. case handleConn BL envs 0 req [] nd of Some (Ret (reply, _)) \<Rightarrow> Inr reply | _ \<Rightarrow> Inl EOF)\<rparr>"

text \<open>A session of turns on such connections: the follower's storage and the leader's node after it.\<close>

fun replicating :: "'l Backend_ops \<Rightarrow> 's Backend_ops \<Rightarrow> int \<Rightarrow> int \<Rightarrow> string \<Rightarrow> tpKey \<Rightarrow> (nat \<Rightarrow> nat \<Rightarrow> 'l dispatch_env) \<Rightarrow> nat
    \<Rightarrow> nat \<Rightarrow> int \<Rightarrow> 'l node \<Rightarrow> 's \<Rightarrow> ('l node \<times> 's) run" where
  "replicating BL BF lid nid addr k envs i 0 corr nd s = ret (nd, s)"
| "replicating BL BF lid nid addr k envs i (Suc n) corr nd s =
     run_bind (session_turn BF nid addr k (linked BL (envs i) lid addr nd) (i32 (corr + 1)) s) (\<lambda>(again, s').
       run_bind (handleConn BL (envs i) 0 (encodeFetch nid (fst k) (snd k) (be_LatestOffset BF s k) (i32 (corr + 1))) [] nd) (\<lambda>(_, nd').
         if again then replicating BL BF lid nid addr k envs (Suc i) n (i32 (corr + 1)) nd' s' else ret (nd', s')))"

text \<open>The follower has room for what it lacks: wherever replication has got to, the next batch of the
  leader fits.\<close>

definition roomy :: "('s \<Rightarrow> bool) \<Rightarrow> ('s \<Rightarrow> tpKey \<rightharpoonup> logview) \<Rightarrow> ('s \<Rightarrow> tpKey \<Rightarrow> bytes \<Rightarrow> bool) \<Rightarrow> tpKey \<Rightarrow> logview \<Rightarrow> logview \<Rightarrow> bool" where
  "roomy ok view room k vF vL \<longleftrightarrow> (\<forall>s v b pre ys post. ok s \<and> view s k = Some v \<and> lv_batches v = lv_batches vF @ ys
     \<and> lv_earliest v = lv_earliest vF \<and> lv_batches vL = pre @ ys @ b # post \<and> BaseOffset (header b) = lv_latest v \<longrightarrow> room s k b)"

lemma roomyD:
  assumes "roomy ok view room k vF vL" and "ok s" and "view s k = Some v" and "lv_batches v = lv_batches vF @ ys"
    and "lv_earliest v = lv_earliest vF" and "lv_batches vL = pre @ ys @ b # post" and "BaseOffset (header b) = lv_latest v"
  shows "room s k b"
  using assms unfolding roomy_def by blast

context node_logs
begin

lemma rooms_ahead:
  assumes "roomy ok view room k v0 vL" and "ok s" and "view s k = Some v" and "lv_batches v = lv_batches v0 @ ys"
    and "lv_earliest v = lv_earliest v0" and "lv_batches vL = pre @ ys @ bs @ post" and "batch_run (lv_latest v) bs m"
  shows "rooms B room s k bs"
  using assms
proof (induction bs arbitrary: s v ys)
  case (Cons b bs)
  have b: "wf_records b" "BaseOffset (header b) = lv_latest v" using Cons.prems(7) by simp_all
  have room: "room s k b" using Cons.prems b(2) by (intro roomyD [OF Cons.prems(1-5), of pre b "bs @ post"]) simp_all
  from replica_law [OF Cons.prems(2,3) b room] obtain s1 where
    s1: "be_AppendReplica B s k b = (lv_latest v + span b, None, s1)" "ok s1" "view s1 = (view s)(k \<mapsto> lv_replica b v)" by blast
  have "rooms B room s1 k bs"
    by (rule Cons.IH [OF Cons.prems(1) s1(2), of "lv_replica b v" "ys @ [b]"])
      (use Cons.prems s1(3) in \<open>simp_all add: lv_replica_def\<close>)
  then show ?case using room s1(1) by simp
qed simp

end

text \<open>The follower reads the leader's answer as it was meant.\<close>

lemma reply_read:
  assumes "lv_ok v" and "0 \<le> lv_hwm v" and "in_i32 p" and "in_i32 corr" and "ok_string topic" and "length (concat bs) < 2 ^ 31"
    and "in_i16 code"
  shows "readFetchResponse (writeResponse corr (FetchResponse_Encode (one_resp topic (replica_resp v p bs code)) 4 [])) =
    (Inr (result_of (replica_resp v p bs code)), [])"
proof -
  let ?pr = "replica_resp v p bs code"
  have "ok_resp ?pr"
    using assms by (simp add: ok_resp_def replica_resp_def ok_bytes_def in_i64_def lv_ok_def del: length_concat)
  moreover have "length (be_bytes 4 corr @ FetchResponse_Encode (one_resp topic ?pr) 4 []) < 2 ^ 32"
    using assms(5,6) by (simp add: encode_one_resp lay_resp_def replica_resp_def writer_defs ok_string_def del: length_concat)
  ultimately show ?thesis
    using readFetchResponse_one [OF assms(4,5) _ refl, of ?pr "[]"]
    by (simp add: writeResponse_def WriteResponseHeader_def Let_def writer_defs)
qed

locale replication_pair =
  leader: node_logs BL okL viewL roomL + follower: node_logs BF okF viewF roomF
  for BL :: "'l Backend_ops" and okL viewL roomL and BF :: "'s Backend_ops" and okF viewF roomF
begin

text \<open>One turn brings at least one batch over.\<close>

lemma turn_step:
  assumes b: "broker_ok okL viewL (nd_broker nd)" and serv: "serving (nd_broker nd) k"
    and vL: "viewL (br_store (nd_broker nd)) k = Some vL" "0 \<le> lv_hwm vL"
    and s: "okF s" "viewF s k = Some vF" and lack: "lacks vF vL rest" "rest \<noteq> []"
    and room: "\<forall>bs more. rest = bs @ more \<longrightarrow> rooms BF roomF s k bs"
    and rng: "lid \<noteq> nid" "0 \<le> nid" "in_i32 nid" "in_i32 (snd k)" "in_i32 corr" "ok_string (fst k)"
  shows "\<exists>bs more reply nd' s' vL'. rest = bs @ more \<and> bs \<noteq> []
    \<and> session_turn BF nid addr k (linked BL envs lid addr nd) corr s = ret (True, s')
    \<and> handleConn BL envs 0 (encodeFetch nid (fst k) (snd k) (be_LatestOffset BF s k) corr) [] nd = ret (reply, nd')
    \<and> broker_ok okL viewL (nd_broker nd') \<and> serving (nd_broker nd') k
    \<and> viewL (br_store (nd_broker nd')) k = Some vL' \<and> log_kept vL vL'
    \<and> okF s' \<and> viewF s' k = Some (lv_advance (lv_hwm vL) (fold lv_replica bs vF))
    \<and> lacks (lv_advance (lv_hwm vL) (fold lv_replica bs vF)) vL' more"
proof -
  note okL = leader.view_ok [OF broker_okD(1) [OF b] vL(1)]
  let ?off = "lv_latest vF"
  have latest: "be_LatestOffset BF s k = ?off" using follower.observe [OF s] by simp
  have off: "lv_earliest vL \<le> ?off" "?off < lv_latest vL"
    using lack batch_run_less [of ?off rest "lv_latest vL"] by (auto simp: lacks_def)
  have ne: "?off \<noteq> lv_latest vL" using off by simp
  have i64: "in_i64 ?off" using off okL by (simp add: lv_ok_def in_i64_def)
  have key: "(fst k, snd k) = k" by simp
  from leader.serve_replica [of nd "fst k" "snd k" "nd_broker nd" vL ?off nid corr envs, unfolded key,
      OF serving_leaderLog [OF serv] b vL(1) ne i64 rng(2-6)]
  obtain bs code nd' now where
    bs: "answers vL ?off bs" "length bs \<le> 1 \<or> int (length (concat bs)) \<le> fetchMaxBytes"
      "bs \<noteq> [] \<longleftrightarrow> lv_earliest vL \<le> ?off \<and> ?off < lv_latest vL"
      "code = (if lv_earliest vL \<le> ?off \<and> ?off \<le> lv_latest vL then ErrNone_code else ErrOffsetOutOfRange_code)" and
    conn: "handleConn BL envs 0 (encodeFetch nid (fst k) (snd k) ?off corr) [] nd =
       ret (writeResponse corr (FetchResponse_Encode (one_resp (fst k) (replica_resp vL (snd k) bs code)) 4 []), nd')" and
    nd': "nd_broker nd' = RecordReplicaFetch BL now (nd_broker nd) k nid ?off" by blast
  have code: "code = ErrNone_code" and "bs \<noteq> []" using bs(3,4) off by simp_all
  from lacks_answers [OF okL lack(1) bs(1) this(2)] obtain more m where
    more: "rest = bs @ more" "batch_run ?off bs m" "lacks (fold lv_replica bs vF) vL more" by blast
  let ?pr = "replica_resp vL (snd k) bs code"
  let ?body = "FetchResponse_Encode (one_resp (fst k) ?pr) 4 []"
  have size: "length (concat bs) < 2 ^ 31" using answers_size [OF okL bs(1,2)] .
  have "in_i16 code" by (simp add: code err_code_defs in_i16_def)
  note read = reply_read [OF okL vL(2) rng(4-6) size this]
  have "fx_errorCode (result_of ?pr) = ErrNone_code" "fx_records (result_of ?pr) = (if bs = [] then None else Some (concat bs))"
    "fx_hwm (result_of ?pr) = lv_hwm vL" by (simp_all add: result_of_def replica_resp_def code)
  from follower.session_apply_ok [OF s more(2) room [rule_format, OF more(1)] this(1,2)] this(3) obtain s' where
    s': "session_apply BF k (result_of ?pr) s = ret (True, s')" "okF s'"
      "viewF s' = (viewF s)(k \<mapsto> lv_advance (lv_hwm vL) (fold lv_replica bs vF))" by auto
  have turn: "session_turn BF nid addr k (linked BL envs lid addr nd) corr s = ret (True, s')"
    using rng(1) by (simp add: session_turn_def linked_def latest conn read s'(1))
  from leader.RecordReplicaFetch_ok [OF b, of now k nid ?off] vL(1) obtain vL' where
    L': "broker_ok okL viewL (nd_broker nd')" "viewL (br_store (nd_broker nd')) k = Some vL'" "log_kept vL vL'"
    unfolding nd' keeps_def by blast
  have "serving (nd_broker nd') k" using serv by (simp add: nd' serving_RecordReplicaFetch)
  moreover have "lacks (lv_advance (lv_hwm vL) (fold lv_replica bs vF)) vL' more"
    using more(3) lacks_cong [OF _ _ L'(3), of "lv_advance (lv_hwm vL) (fold lv_replica bs vF)" "fold lv_replica bs vF"] by (simp add: lv_advance_def)
  moreover have "viewF s' k = Some (lv_advance (lv_hwm vL) (fold lv_replica bs vF))" by (simp add: s'(3))
  ultimately show ?thesis using more(1) \<open>bs \<noteq> []\<close> turn conn L' s'(2) unfolding latest by blast
qed

text \<open>Turn by turn, the follower gets everything it lacks.\<close>

lemma replicating_converges:
  assumes b: "broker_ok okL viewL (nd_broker nd)" and serv: "serving (nd_broker nd) k"
    and vL: "viewL (br_store (nd_broker nd)) k = Some vL" "0 \<le> lv_hwm vL" "log_kept vL0 vL"
    and s: "okF s" "viewF s k = Some vF" "lv_batches vF = lv_batches vF0 @ got" "lv_earliest vF = lv_earliest vF0"
    and lack: "lacks vF vL rest" "lv_batches vL0 = before @ got @ rest" and room: "roomy okF viewF roomF k vF0 vL0"
    and rng: "lid \<noteq> nid" "0 \<le> nid" "in_i32 nid" "in_i32 (snd k)" "ok_string (fst k)"
  shows "\<exists>n nd' s' vL' vF'. n \<le> length rest \<and> replicating BL BF lid nid addr k envs i n corr nd s = ret (nd', s')
    \<and> broker_ok okL viewL (nd_broker nd') \<and> viewL (br_store (nd_broker nd')) k = Some vL' \<and> log_kept vL vL'
    \<and> okF s' \<and> viewF s' k = Some vF' \<and> lacks vF' vL' [] \<and> lv_batches vF' = lv_batches vF @ rest
    \<and> lv_hwm vF \<le> lv_hwm vF' \<and> lv_hwm vF' \<le> max (lv_hwm vF) (lv_hwm vL')"
  using b serv vL s lack
proof (induction "length rest" arbitrary: rest nd s vL vF got corr i rule: less_induct)
  case less
  show ?case
  proof (cases "rest = []")
    case True
    with less.prems show ?thesis by (intro exI [of _ 0] exI [of _ nd] exI [of _ s] exI [of _ vL] exI [of _ vF]) simp
  next
    case False
    let ?c = "i32 (corr + 1)"
    have rooms: "\<forall>bs more. rest = bs @ more \<longrightarrow> rooms BF roomF s k bs"
    proof (intro allI impI)
      fix bs more
      assume rest: "rest = bs @ more"
      have run: "batch_run (lv_latest vF) (bs @ more) (lv_latest vL)" using less.prems(10) rest by (simp add: lacks_def)
      then obtain m where "batch_run (lv_latest vF) bs m" by (auto simp: batch_run_append)
      with less.prems(6-9,11) rest show "rooms BF roomF s k bs" by (intro follower.rooms_ahead [OF room, of s vF got before bs more m]) simp_all
    qed
    from turn_step [OF less.prems(1-4,6,7,10) False rooms rng(1-4) i32_in [of "corr + 1"] rng(5), where addr = addr and envs = "envs i"]
    obtain bs more reply nd1 s1 vL1 where
      t: "rest = bs @ more" "bs \<noteq> []" "session_turn BF nid addr k (linked BL (envs i) lid addr nd) ?c s = ret (True, s1)"
        "handleConn BL (envs i) 0 (encodeFetch nid (fst k) (snd k) (be_LatestOffset BF s k) ?c) [] nd = ret (reply, nd1)" and
      L1: "broker_ok okL viewL (nd_broker nd1)" "serving (nd_broker nd1) k" "viewL (br_store (nd_broker nd1)) k = Some vL1" "log_kept vL vL1" and
      F1: "okF s1" "viewF s1 k = Some (lv_advance (lv_hwm vL) (fold lv_replica bs vF))"
        "lacks (lv_advance (lv_hwm vL) (fold lv_replica bs vF)) vL1 more" by (elim exE conjE)
    let ?v1 = "lv_advance (lv_hwm vL) (fold lv_replica bs vF)"
    have v1: "lv_batches ?v1 = lv_batches vF @ bs" "lv_earliest ?v1 = lv_earliest vF"
      "lv_hwm vF \<le> lv_hwm ?v1" "lv_hwm ?v1 \<le> max (lv_hwm vF) (lv_hwm vL)" by (simp_all add: lv_advance_def fold_replica)
    have "length more < length rest" "0 \<le> lv_hwm vL1" "log_kept vL0 vL1" "lv_batches ?v1 = lv_batches vF0 @ got @ bs"
      "lv_earliest ?v1 = lv_earliest vF0" "lv_batches vL0 = before @ (got @ bs) @ more"
      using t(1,2) less.prems(4,5,8,9,11) L1(4) v1(1,2) by (simp_all add: log_kept_def)
    from less.hyps [OF this(1) L1(1-3) this(2,3) F1(1,2) this(4,5) F1(3) this(6), of "Suc i" ?c] obtain n nd' s' vL' vF' where
      r: "n \<le> length more" "replicating BL BF lid nid addr k envs (Suc i) n ?c nd1 s1 = ret (nd', s')"
        "broker_ok okL viewL (nd_broker nd')" "viewL (br_store (nd_broker nd')) k = Some vL'" "log_kept vL1 vL'"
        "okF s'" "viewF s' k = Some vF'" "lacks vF' vL' []" "lv_batches vF' = lv_batches ?v1 @ more"
        "lv_hwm ?v1 \<le> lv_hwm vF'" "lv_hwm vF' \<le> max (lv_hwm ?v1) (lv_hwm vL')" by (elim exE conjE)
    have "replicating BL BF lid nid addr k envs i (Suc n) corr nd s = ret (nd', s')" by (simp add: t(3,4) r(2))
    moreover have "Suc n \<le> length rest" using r(1) t(1,2) by (cases bs) simp_all
    moreover have "log_kept vL vL'" using L1(4) r(5) by (simp add: log_kept_def)
    moreover have "lv_batches vF' = lv_batches vF @ rest" using r(9) v1(1) t(1) by simp
    moreover have "lv_hwm vF \<le> lv_hwm vF'" "lv_hwm vF' \<le> max (lv_hwm vF) (lv_hwm vL')"
      using r(5,10,11) v1(3,4) L1(4) by (auto simp: log_kept_def)
    ultimately show ?thesis using r(3,4,6-8)
      by (intro exI [of _ "Suc n"] exI [of _ nd'] exI [of _ s'] exI [of _ vL'] exI [of _ vF'] conjI)
  qed
qed

end

interpretation file_pair: replication_pair "file_backend now mtime" file_ok file_view file_room
    "file_backend now' mtime'" file_ok file_view file_room
  by unfold_locales

section \<open>File logs have room for small logs\<close>

lemma log_fits_small:
  assumes inv: "log_inv l" and "int (length (concat (log_batches l))) + int (length b) < 2 ^ 31"
    and "nextOffset l + span b - EarliestOffset l \<le> 2 ^ 31" and "nextOffset l + span b < 2 ^ 63"
  shows "log_fits l b"
proof -
  note D = log_invD [OF inv]
  have seg: "segments l = butlast (segments l) @ [active l]" using D(1) by simp
  have "log_batches l = concat (map (seg_batches (disk l)) (butlast (segments l))) @ seg_batches (disk l) (active l)"
    unfolding log_batches_def by (subst seg) simp
  then have "length (concat (seg_batches (disk l) (active l))) \<le> length (concat (log_batches l))" by simp
  then have size: "logSize (active l) + int (length b) < 2 ^ 31" using seg_okD(2) [OF D(3)] assms(2) by linarith
  have "EarliestOffset l \<le> baseOffset (active l)"
  proof (cases "butlast (segments l)")
    case Nil
    then show ?thesis using seg by (metis EarliestOffset_def append_Nil nth_Cons_0 order_refl)
  next
    case (Cons s ss)
    then have "EarliestOffset l = baseOffset s" by (metis EarliestOffset_def append_Cons nth_Cons_0 seg)
    then show ?thesis using sealed_ok_bases [OF D(2)] Cons by fastforce
  qed
  with size assms(3,4) show ?thesis by (simp add: log_fits_def)
qed

lemma file_roomy:
  assumes "lv_ok vL" and "int (length (concat (lv_batches vF))) + int (length (concat (lv_batches vL))) < 2 ^ 31"
    and "lv_latest vL - lv_earliest vF \<le> 2 ^ 31"
  shows "roomy file_ok file_view file_room k vF vL"
  unfolding roomy_def
proof (intro allI impI, elim conjE)
  fix s v b pre ys post
  assume s: "file_ok s" "file_view s k = Some v" and v: "lv_batches v = lv_batches vF @ ys" "lv_earliest v = lv_earliest vF"
    and L: "lv_batches vL = pre @ ys @ b # post" and base: "BaseOffset (header b) = lv_latest v"
  from s obtain l where l: "fmlookup (fn_logs s) k = Some l" "log_inv l" "v = log_view l" by (rule file_viewD)
  have run: "batch_run (lv_earliest vL) (pre @ ys @ b # post) (lv_latest vL)" "lv_latest vL < 2 ^ 63"
    using assms(1) L by (simp_all add: lv_ok_def)
  then have "lv_latest v + span b \<le> lv_latest vL" using base batch_run_le by (auto simp: batch_run_append)
  then have "log_fits l b"
    using assms(2,3) v run(2) L by (intro log_fits_small [OF l(2)]) (simp_all add: l(3) log_view_def)
  then show "file_room s k b" by (simp add: file_room_def l)
qed

section \<open>Properties\<close>

text \<open>C3: replication converges. A follower whose log agrees with the leader's up to its own end, and
  whose fetcher talks to a leader that serves the partition, has all the leader's batches after at most as
  many turns as batches were missing, whatever other requests the leader meets; on the way no batch
  of either side is lost or changed, and the follower's high watermark never moves back nor passes the leader's. Each turn is the
  follower's request through the leader's frames, dispatcher and fetch handler and the answer through
  the follower's decoder and log.\<close>

theorem replica_converges:
  assumes "broker_ok file_ok file_view (nd_broker nd)" and "serving (nd_broker nd) k"
    and "file_view (br_store (nd_broker nd)) k = Some vL" and "0 \<le> lv_hwm vL"
    and "file_ok s" and "file_view s k = Some vF" and "lacks vF vL rest" and "roomy file_ok file_view file_room k vF vL"
    and "lid \<noteq> nid" and "0 \<le> nid" and "in_i32 nid" and "in_i32 (snd k)" and "ok_string (fst k)"
  shows "\<exists>n nd' s' vL' vF'. n \<le> length rest
    \<and> replicating (file_backend now mtime) (file_backend now' mtime') lid nid addr k envs 0 n 0 nd s = ret (nd', s')
    \<and> file_view (br_store (nd_broker nd')) k = Some vL' \<and> log_kept vL vL'
    \<and> file_view s' k = Some vF' \<and> lv_batches vF' = lv_batches vF @ rest \<and> lv_latest vF' = lv_latest vL'
    \<and> lv_hwm vF \<le> lv_hwm vF' \<and> lv_hwm vF' \<le> max (lv_hwm vF) (lv_hwm vL')"
proof -
  from assms(7) obtain before where "lv_batches vL = before @ [] @ rest" unfolding lacks_def by force
  from file_pair.replicating_converges [OF assms(1-4) log_kept_refl assms(5,6) _ refl assms(7) this assms(8-13), of now mtime now' mtime' addr envs 0 0]
  obtain n nd' s' vL' vF' where "n \<le> length rest"
    "replicating (file_backend now mtime) (file_backend now' mtime') lid nid addr k envs 0 n 0 nd s = ret (nd', s')"
    "file_view (br_store (nd_broker nd')) k = Some vL'" "log_kept vL vL'" "file_view s' k = Some vF'" "lacks vF' vL' []"
    "lv_batches vF' = lv_batches vF @ rest" "lv_hwm vF \<le> lv_hwm vF'" "lv_hwm vF' \<le> max (lv_hwm vF) (lv_hwm vL')" by auto
  then show ?thesis
    by (intro exI [of _ n] exI [of _ nd'] exI [of _ s'] exI [of _ vL'] exI [of _ vF'] conjI) (simp_all add: lacks_def)
qed

section \<open>A follower that fell behind retention\<close>

text \<open>When the leader's retention has passed the follower's log end, the leader answers
  \<open>OFFSET_OUT_OF_RANGE\<close>, the session ends with the log as it was, and the next session starts at the same
  offset: the follower never catches up.\<close>

lemma follower_stuck:
  assumes b: "broker_ok file_ok file_view (nd_broker nd)" and serv: "serving (nd_broker nd) k"
    and vL: "file_view (br_store (nd_broker nd)) k = Some vL" "0 \<le> lv_hwm vL"
    and s: "file_ok s" "file_view s k = Some vF" and behind: "lv_latest vF < lv_earliest vL"
    and rng: "lid \<noteq> nid" "0 \<le> nid" "in_i32 nid" "in_i32 (snd k)" "in_i32 corr" "ok_string (fst k)"
  shows "session_turn (file_backend now' mtime') nid addr k (linked (file_backend now mtime) envs lid addr nd) corr s = ret (False, s)"
proof -
  note okL = file_node.view_ok [OF broker_okD(1) [OF b] vL(1)]
  note okF = file_node.view_ok [OF s]
  let ?off = "lv_latest vF"
  have le: "lv_earliest vL \<le> lv_latest vL" using okL batch_run_le by (auto simp: lv_ok_def)
  have "0 \<le> ?off" using okF batch_run_le by (fastforce simp: lv_ok_def)
  then have i64: "in_i64 ?off" using okF by (simp add: lv_ok_def in_i64_def)
  have ne: "?off \<noteq> lv_latest vL" using behind le by simp
  have key: "(fst k, snd k) = k" by simp
  from file_node.serve_replica [of now mtime nd "fst k" "snd k" "nd_broker nd" vL ?off nid corr envs, unfolded key,
      OF serving_leaderLog [OF serv] b vL(1) ne i64 rng(2-6)]
  obtain bs code nd' where bs: "bs \<noteq> [] \<longleftrightarrow> lv_earliest vL \<le> ?off \<and> ?off < lv_latest vL"
      "code = (if lv_earliest vL \<le> ?off \<and> ?off \<le> lv_latest vL then ErrNone_code else ErrOffsetOutOfRange_code)" and
    conn: "handleConn (file_backend now mtime) envs 0 (encodeFetch nid (fst k) (snd k) ?off corr) [] nd =
       ret (writeResponse corr (FetchResponse_Encode (one_resp (fst k) (replica_resp vL (snd k) bs code)) 4 []), nd')" using that by metis
  have code: "code = ErrOffsetOutOfRange_code" and "bs = []" using bs behind by simp_all
  then have "length (concat bs) < 2 ^ 31" "in_i16 code" by (simp_all add: err_code_defs in_i16_def)
  note read = reply_read [OF okL vL(2) rng(4-6) this]
  have "be_LatestOffset (file_backend now' mtime') s k = ?off" using file_node.observe [OF s] by simp
  moreover have "session_apply (file_backend now' mtime') k (result_of (replica_resp vL (snd k) bs code)) s = ret (False, s)"
    by (simp add: session_apply_def result_of_def replica_resp_def code err_code_defs)
  ultimately show ?thesis using rng(1) by (simp add: session_turn_def linked_def conn read)
qed

section \<open>Witness\<close>

definition sample_full :: Log where
  "sample_full = (case Append sample_log sample_batch of Ret (_, _, l) \<Rightarrow> l | Panic \<Rightarrow> sample_log)"

lemma sample_full_ok: "log_inv sample_full" "nextOffset sample_full = 2" "log_batches sample_full = [patched sample_batch 0]"
  "highWatermark sample_full = 2" "EarliestOffset sample_full = 0"
proof -
  from Append_ok [OF sample_log_ok(1) sample_batch_ok(1) sample_log_ok(2)] obtain l where
    l: "Append sample_log sample_batch = Ret (0, None, l)" "log_inv l" "nextOffset l = 2" "log_batches l = [patched sample_batch 0]"
    "highWatermark l = 2" using sample_log_ok sample_batch_ok by auto
  then have eq: "sample_full = l" by (simp add: sample_full_def)
  then show "log_inv sample_full" "nextOffset sample_full = 2" "log_batches sample_full = [patched sample_batch 0]"
    "highWatermark sample_full = 2" using l by simp_all
  show "EarliestOffset sample_full = 0"
    using EarliestOffset_run [OF l(2)] l(3,4) wf_records_patched(2) [OF sample_batch_ok(1), of 0] sample_batch_ok(2) by (simp add: eq)
qed

definition sample_node :: "file_node node" where
  "sample_node = \<lparr>nd_broker = sample_open\<lparr>br_store := set_log sample_files sample_key sample_full\<rparr>,
     nd_coord = NewCoordinator \<lparr>os_root = [], os_cache = fmempty\<rparr>, nd_fs = [], nd_reqCount = []\<rparr>"

abbreviation sample_follower :: file_node where
  "sample_follower \<equiv> set_log sample_files sample_key sample_log"

lemma sample_node_ok: "broker_ok file_ok file_view (nd_broker sample_node)" "serving (nd_broker sample_node) sample_key"
proof -
  have "file_ok sample_files" using broker_okD(1) [OF sample_broker_ok] by (simp add: sample_broker_def)
  then have "file_ok (set_log sample_files sample_key sample_full)" using sample_full_ok(1) by (rule set_log_ok)
  then show "broker_ok file_ok file_view (nd_broker sample_node)"
    by (intro broker_okI) (auto simp: sample_node_def sample_open_fields set_log_view file_view_def sample_files_def sample_broker_def Single_def)
  have "serving sample_open sample_key"
    using sample_open_serves by (simp add: serving_def sample_open_fields)
  then show "serving (nd_broker sample_node) sample_key"
    using serving_cong [of "nd_broker sample_node" sample_open] by (simp add: sample_node_def)
qed

lemma sample_lacks: "lacks (log_view sample_log) (log_view sample_full) [patched sample_batch 0]"
proof -
  have "wf_records (patched sample_batch 0)" "BaseOffset (header (patched sample_batch 0)) = 0" "span (patched sample_batch 0) = 2"
    using wf_records_patched [OF sample_batch_ok(1), of 0] sample_batch_ok(2) by (simp_all add: i64_id in_i64_def)
  then show ?thesis using sample_log_ok sample_full_ok by (simp add: lacks_def log_view_def)
qed

theorem replica_converges_witness:
  "\<forall>envs. \<exists>n nd' s' vF'. n \<le> 1
    \<and> replicating (file_backend 0 (\<lambda>_ _. None)) (file_backend 0 (\<lambda>_ _. None)) 1 2 ''h:9092'' sample_key envs 0 n 0 sample_node sample_follower = ret (nd', s')
    \<and> file_view s' sample_key = Some vF' \<and> lv_batches vF' = [patched sample_batch 0] \<and> lv_latest vF' = 2"
proof
  fix envs
  have L: "file_view (br_store (nd_broker sample_node)) sample_key = Some (log_view sample_full)"
    by (simp add: sample_node_def set_log_view)
  have "file_ok sample_files" using broker_okD(1) [OF sample_broker_ok] by (simp add: sample_broker_def)
  then have F: "file_ok sample_follower" "file_view sample_follower sample_key = Some (log_view sample_log)"
    using sample_log_ok(1) by (simp_all add: set_log_ok set_log_view)
  have "0 \<le> lv_hwm (log_view sample_full)" by (simp add: log_view_def sample_full_ok)
  moreover have "roomy file_ok file_view file_room sample_key (log_view sample_log) (log_view sample_full)"
    by (rule file_roomy) (use log_view_ok [OF sample_full_ok(1)] wf_records_patched(3) [OF sample_batch_ok(1), of 0]
      EarliestOffset_run [OF sample_log_ok(1)]
      in \<open>simp_all add: log_view_def sample_full_ok sample_log_ok\<close>)
  ultimately show "\<exists>n nd' s' vF'. n \<le> 1
    \<and> replicating (file_backend 0 (\<lambda>_ _. None)) (file_backend 0 (\<lambda>_ _. None)) 1 2 ''h:9092'' sample_key envs 0 n 0 sample_node sample_follower = ret (nd', s')
    \<and> file_view s' sample_key = Some vF' \<and> lv_batches vF' = [patched sample_batch 0] \<and> lv_latest vF' = 2"
    using replica_converges [OF sample_node_ok L _ F sample_lacks, of 1 2 0 "\<lambda>_ _. None" 0 "\<lambda>_ _. None" "''h:9092''" envs]
    by (auto simp: in_i32_def ok_string_def log_view_def sample_full_ok sample_log_ok log_kept_def)
qed

end
