(* ===== verification/Failover.thy ===== *)
theory Failover
  imports Controller
begin

text \<open>
  The failover scan of the controller leader (\<open>checkFailover\<close> in \<open>internal/controller/liveness.go\<close>):
  which command it issues for which partition, and what the whole scan does to a partition.
\<close>

section \<open>The commands of a failover scan\<close>

definition topics_bounded :: "metaState \<Rightarrow> bool" where
  "topics_bounded st \<longleftrightarrow> (\<forall>t tm. fmlookup (ms_Topics st) t = Some tm \<longrightarrow> int (length (tm_Parts tm)) < 2 ^ 31)"

definition topic_cmds :: "liveness \<Rightarrow> int \<Rightarrow> string \<Rightarrow> topicMeta \<Rightarrow> Command list" where
  "topic_cmds lv now t tm =
     List.map_filter (\<lambda>p. failover_cmd lv now t (int p) (viewPart (tm_Parts tm ! p))) [0 ..< length (tm_Parts tm)]"

lemma distinct_sorted_list_of_fset: "distinct (sorted_list_of_fset A)"
  by (simp add: sorted_list_of_fset.rep_eq)

lemma failover_cmds_Topics:
  "failover_cmds lv now (Topics st) =
     concat (map (\<lambda>t. topic_cmds lv now t (the (fmlookup (ms_Topics st) t))) (sorted_list_of_fset (fmdom (ms_Topics st))))"
proof -
  have "List.map_filter (\<lambda>p. failover_cmd lv now t (int p) (map viewPart ps ! p)) [0 ..< length ps] =
      List.map_filter (\<lambda>p. failover_cmd lv now t (int p) (viewPart (ps ! p))) [0 ..< length ps]" for t ps
    by (rule map_filter_eq) simp
  then show ?thesis
    by (simp add: failover_cmds_def Topics_def sorted_list_of_fmap_def topic_cmds_def o_def)
qed

lemma failover_cmd_SomeD:
  assumes "failover_cmd lv now t p pv = Some c"
  shows "c_Type c = CmdChangeLeader \<and> c_Topic c = t \<and> c_Partition c = i32 p
    \<and> \<not> (0 \<le> pv_Leader pv \<and> alive lv (pv_Leader pv) now)
    \<and> c_ISR c = filter (\<lambda>nid. alive lv nid now) (pv_ISR pv) \<and> c_ISR c \<noteq> [] \<and> c_Leader c = hd (c_ISR c)"
  using assms by (auto simp: failover_cmd_def Let_def zero_cmd_def hd_conv_nth split: if_splits)

lemma topic_cmds_in: "c \<in> set (topic_cmds lv now t tm) \<Longrightarrow> c_Type c = CmdChangeLeader \<and> c_Topic c = t"
  using failover_cmd_SomeD by (fastforce simp: topic_cmds_def set_map_filter_iff)

lemma filter_topic_cmds:
  assumes "int (length (tm_Parts tm)) < 2 ^ 31" and "0 \<le> p" and "p < int (length (tm_Parts tm))"
  shows "filter (\<lambda>c. c_Topic c = t' \<and> c_Partition c = p) (topic_cmds lv now t tm) =
    (if t = t' then (case failover_cmd lv now t p (viewPart (tm_Parts tm ! nat p)) of None \<Rightarrow> [] | Some c \<Rightarrow> [c]) else [])"
    (is "?l = ?r")
proof -
  let ?f = "\<lambda>q. case failover_cmd lv now t (int q) (viewPart (tm_Parts tm ! q)) of None \<Rightarrow> [] | Some c \<Rightarrow> [c]"
  let ?P = "\<lambda>c. c_Topic c = t' \<and> c_Partition c = p"
  have l: "?l = concat (map (\<lambda>q. filter ?P (?f q)) [0 ..< length (tm_Parts tm)])"
    by (simp add: topic_cmds_def map_filter_concat filter_concat o_def)
  have one: "filter ?P (?f q) = (if t = t' \<and> int q = p then ?f q else [])" if "q < length (tm_Parts tm)" for q
  proof -
    have "i32 (int q) = int q" using that assms(1) by (intro i32_id) (simp add: in_i32_def)
    then show ?thesis by (auto split: option.split dest: failover_cmd_SomeD)
  qed
  have "concat (map (\<lambda>q. filter ?P (?f q)) [0 ..< length (tm_Parts tm)]) = filter ?P (?f (nat p))"
    using assms(2,3) one by (intro concat_map_single) auto
  with l one [of "nat p"] assms(2,3) show ?thesis by (simp add: nat_less_iff)
qed

lemma filter_failover_cmds:
  assumes "topics_bounded st" and pm: "part_at st t p = Some pm"
  shows "filter (\<lambda>c. c_Topic c = t \<and> c_Partition c = p) (failover_cmds lv now (Topics st)) =
    (case failover_cmd lv now t p (viewPart pm) of None \<Rightarrow> [] | Some c \<Rightarrow> [c])"
proof -
  let ?P = "\<lambda>c. c_Topic c = t \<and> c_Partition c = p" and ?ts = "sorted_list_of_fset (fmdom (ms_Topics st))"
  let ?c = "\<lambda>s. topic_cmds lv now s (the (fmlookup (ms_Topics st) s))"
  from pm obtain tm where tm: "fmlookup (ms_Topics st) t = Some tm" "0 \<le> p" "p < int (length (tm_Parts tm))"
    "pm = tm_Parts tm ! nat p" by (auto simp: part_at_Some)
  have other: "filter ?P (?c s) = []" if "s \<noteq> t" for s
    using that by (auto simp: filter_empty_conv dest: topic_cmds_in)
  have "filter ?P (failover_cmds lv now (Topics st)) = concat (map (\<lambda>s. filter ?P (?c s)) ?ts)"
    by (simp add: failover_cmds_Topics filter_concat o_def)
  also have "\<dots> = filter ?P (?c t)"
    using other tm(1) by (intro concat_map_single distinct_sorted_list_of_fset) (auto simp: fmdomI)
  also have "\<dots> = (case failover_cmd lv now t p (viewPart pm) of None \<Rightarrow> [] | Some c \<Rightarrow> [c])"
    using filter_topic_cmds [of tm p t lv now t] tm assms(1) by (simp add: topics_bounded_def)
  finally show ?thesis .
qed

lemma failover_cmds_type: "c \<in> set (failover_cmds lv now (Topics st)) \<Longrightarrow> c_Type c = CmdChangeLeader"
  by (auto simp: failover_cmds_Topics dest: topic_cmds_in)

section \<open>The effect of a failover scan\<close>

lemma part_at_iterate:
  "part_at st t p = Some pm \<Longrightarrow> part_at ((apply_st cmd ^^ n) st) t p = Some ((part_effect t p cmd ^^ n) pm)"
  by (induction n) (auto simp: apply_st_def part_at_apply)

lemma part_at_Ctl_Apply:
  assumes "part_at st t p = Some pm"
  shows "\<exists>n \<le> Suc (length (en_turns env cmd)).
    part_at (snd (Ctl_Apply env st cmd)) t p = Some ((part_effect t p cmd ^^ n) pm)"
  using Ctl_Apply_result [of cmd st env] part_at_iterate [OF assms] unfolding loop_result_def by metis

lemma part_effect_other: "\<not> (c_Topic cmd = t \<and> c_Partition cmd = p) \<Longrightarrow> part_effect t p cmd = id"
  by (auto simp: part_effect_def fun_eq_iff)

abbreviation apply_all :: "ctl_env \<Rightarrow> Command list \<Rightarrow> metaState \<Rightarrow> metaState" where
  "apply_all env cs st \<equiv> fold (\<lambda>cmd st. snd (Ctl_Apply env st cmd)) cs st"

lemma part_at_apply_other:
  assumes "part_at st t p = Some pm" and "filter (\<lambda>c. c_Topic c = t \<and> c_Partition c = p) cs = []"
  shows "part_at (apply_all env cs st) t p = Some pm"
  using assms
proof (induction cs arbitrary: st)
  case (Cons c cs)
  from Cons.prems(2) have "part_effect t p c = id" by (intro part_effect_other) (auto split: if_splits)
  with part_at_Ctl_Apply [OF Cons.prems(1), of env c] have "part_at (snd (Ctl_Apply env st c)) t p = Some pm"
    by auto
  with Cons show ?case by (auto split: if_splits)
qed simp

lemma part_at_apply_one:
  assumes "part_at st t p = Some pm" and "filter (\<lambda>c. c_Topic c = t \<and> c_Partition c = p) cs = [cmd]"
  shows "\<exists>st'. part_at st' t p = Some pm
    \<and> part_at (apply_all env cs st) t p = part_at (snd (Ctl_Apply env st' cmd)) t p"
proof -
  from assms(2) obtain us vs where cs: "cs = us @ cmd # vs"
    and us: "filter (\<lambda>c. c_Topic c = t \<and> c_Partition c = p) us = []"
    and vs: "filter (\<lambda>c. c_Topic c = t \<and> c_Partition c = p) vs = []"
    by (rule filter_singleE)
  define st' where "st' = apply_all env us st"
  have st': "part_at st' t p = Some pm" unfolding st'_def by (rule part_at_apply_other [OF assms(1) us])
  obtain pm' where pm': "part_at (snd (Ctl_Apply env st' cmd)) t p = Some pm'"
    using part_at_Ctl_Apply [OF st'] by blast
  have "apply_all env cs st = apply_all env vs (snd (Ctl_Apply env st' cmd))" by (simp add: cs st'_def)
  then have "part_at (apply_all env cs st) t p = Some pm'" using part_at_apply_other [OF pm' vs, of env] by (simp only:)
  with st' pm' show ?thesis by (intro exI [of _ st']) (simp only:)
qed

lemma change_leader_iterate:
  assumes "c_Type cmd = CmdChangeLeader" "c_Topic cmd = t" "c_Partition cmd = p"
    and "0 \<le> pm_LeaderEpoch pm" "pm_LeaderEpoch pm + int n < 2 ^ 31"
  shows "(part_effect t p cmd ^^ n) pm = (if n = 0 then pm else
    pm\<lparr>pm_Leader := c_Leader cmd, pm_ISR := c_ISR cmd, pm_LeaderEpoch := pm_LeaderEpoch pm + int n\<rparr>)"
  using assms(5)
proof (induction n)
  case (Suc n)
  have "i32 (pm_LeaderEpoch pm + int n + 1) = pm_LeaderEpoch pm + int n + 1"
    using Suc.prems assms(4) by (intro i32_id) (simp add: in_i32_def)
  with Suc assms(1-3) show ?case by (cases "n = 0") (simp_all add: part_effect_def add.commute add.left_commute)
qed simp

lemma part_at_index:
  assumes "topics_bounded st" and "part_at st t p = Some pm"
  shows "i32 p = p"
proof -
  from assms(2) obtain tm where "fmlookup (ms_Topics st) t = Some tm" "0 \<le> p" "p < int (length (tm_Parts tm))"
    by (auto simp: part_at_Some)
  with assms(1) have "0 \<le> p" "p < 2 ^ 31" by (force simp: topics_bounded_def)+
  then show ?thesis by (intro i32_id) (simp add: in_i32_def)
qed

lemma checkFailover_part:
  assumes "topics_bounded st" and pm: "part_at st t p = Some pm"
  shows "part_at (checkFailover env lv now st) t p = Some pm
    \<or> (\<exists>c st'. failover_cmd lv now t p (viewPart pm) = Some c \<and> part_at st' t p = Some pm
         \<and> part_at (checkFailover env lv now st) t p = part_at (snd (Ctl_Apply env st' c)) t p)"
proof (cases "now - lv_leaderSince lv < livenessTimeout")
  case True
  with pm show ?thesis by (simp add: checkFailover_def)
next
  case False
  then have cf: "checkFailover env lv now st = apply_all env (failover_cmds lv now (Topics st)) st"
    by (simp add: checkFailover_def)
  show ?thesis
  proof (cases "failover_cmd lv now t p (viewPart pm)")
    case None
    with filter_failover_cmds [OF assms, of lv now] part_at_apply_other [OF pm] show ?thesis by (simp add: cf)
  next
    case (Some c)
    with filter_failover_cmds [OF assms, of lv now] part_at_apply_one [OF pm] show ?thesis by (simp add: cf)
  qed
qed

lemma failover_cmd_view:
  assumes "i32 p = p" and "failover_cmd lv now t p (viewPart pm) = Some c"
  shows "c_Type c = CmdChangeLeader" "c_Topic c = t" "c_Partition c = p"
    "\<not> (0 \<le> pm_Leader pm \<and> alive lv (pm_Leader pm) now)"
    "c_ISR c = filter (\<lambda>nid. alive lv nid now) (pm_ISR pm)" "c_ISR c \<noteq> []" "c_Leader c = hd (c_ISR c)"
proof -
  have view: "pv_Leader (viewPart pm) = pm_Leader pm" "pv_ISR (viewPart pm) = pm_ISR pm" by (simp_all add: viewPart_def)
  from failover_cmd_SomeD [OF assms(2)] show "c_Type c = CmdChangeLeader" "c_Topic c = t" "c_Partition c = p"
    "\<not> (0 \<le> pm_Leader pm \<and> alive lv (pm_Leader pm) now)"
    "c_ISR c = filter (\<lambda>nid. alive lv nid now) (pm_ISR pm)" "c_ISR c \<noteq> []" "c_Leader c = hd (c_ISR c)"
    unfolding view assms(1) by blast+
qed

text \<open>C7: a failover scan is safe. Whatever the network and raft do during it, a partition is left as
  it is, or its leader was not alive and it now has a new leader that is alive and was in sync, its
  in-sync replicas are the live ones of before, its replicas are the same and its leader epoch is
  higher.\<close>

theorem failover_safe:
  assumes "topics_bounded st" and "part_at st topic p = Some pm" and "0 \<le> pm_LeaderEpoch pm"
    and "\<forall>cmd. pm_LeaderEpoch pm + 1 + int (length (en_turns env cmd)) < 2 ^ 31"
  shows "\<exists>pm'. part_at (checkFailover env lv now st) topic p = Some pm'
    \<and> (pm' = pm \<or> \<not> (0 \<le> pm_Leader pm \<and> alive lv (pm_Leader pm) now)
        \<and> pm_Leader pm' \<in> set (pm_ISR pm) \<and> alive lv (pm_Leader pm') now
        \<and> pm_ISR pm' = filter (\<lambda>nid. alive lv nid now) (pm_ISR pm)
        \<and> pm_Replicas pm' = pm_Replicas pm \<and> pm_LeaderEpoch pm < pm_LeaderEpoch pm')"
proof -
  from checkFailover_part [OF assms(1,2), of env lv now] consider
    "part_at (checkFailover env lv now st) topic p = Some pm"
    | c st' where "failover_cmd lv now topic p (viewPart pm) = Some c" "part_at st' topic p = Some pm"
      "part_at (checkFailover env lv now st) topic p = part_at (snd (Ctl_Apply env st' c)) topic p" by blast
  then show ?thesis
  proof cases
    case 2
    obtain n where n: "n \<le> Suc (length (en_turns env c))"
      "part_at (checkFailover env lv now st) topic p = Some ((part_effect topic p c ^^ n) pm)"
      using part_at_Ctl_Apply [OF 2(2), of env c] 2(3) by auto
    note c = failover_cmd_view [OF part_at_index [OF assms(1,2)] 2(1)]
    have "c_Leader c \<in> set (c_ISR c)" using c(6,7) by simp
    then have "c_Leader c \<in> set (pm_ISR pm)" "alive lv (c_Leader c) now" by (simp_all add: c(5))
    moreover have "pm_LeaderEpoch pm + int n < 2 ^ 31" using n(1) assms(4) [rule_format, of c] by linarith
    ultimately show ?thesis
      using n(2) c(4,5) by (simp add: change_leader_iterate [OF c(1-3) assms(3)])
  qed simp
qed

lemma sample_topic_bounded: "topics_bounded (run_cmds NewFSM [create_cmd ''t'' [[1, 2]]])"
  by (auto simp: topics_bounded_def applyLocked_def cmd_simps NewFSM_def partsFromReplicas_def split: if_splits)

abbreviation sample_liveness :: liveness where
  "sample_liveness \<equiv> \<lparr>lv_nodeID = 2, lv_lastSeen = fmempty, lv_leaderSince = 0\<rparr>"

theorem failover_safe_witness:
  "\<exists>st pm'. st = run_cmds NewFSM [create_cmd ''t'' [[1, 2]]] \<and> topics_bounded st
     \<and> part_at st ''t'' 0 = Some (part_from [1, 2])
     \<and> part_at (checkFailover (forward_env False) sample_liveness 5000000000 st) ''t'' 0 = Some pm'
     \<and> pm_Replicas pm' = [1, 2]"
proof -
  have "0 \<le> pm_LeaderEpoch (part_from [1, 2])"
    "\<forall>cmd. pm_LeaderEpoch (part_from [1, 2]) + 1 + int (length (en_turns (forward_env False) cmd)) < 2 ^ 31"
    by (simp_all add: part_from_def forward_env_def)
  from failover_safe [OF sample_topic_bounded sample_topic this, of sample_liveness 5000000000]
  show ?thesis using sample_topic_bounded sample_topic by (auto simp: part_from_def)
qed

text \<open>C20: failover makes progress. When raft commits what the controller leader proposes and the
  grace period is over, a partition whose leader is not alive and that has a live in-sync replica
  gets the first such replica as its leader, with the next epoch.\<close>

theorem failover_elects:
  assumes "topics_bounded st" and "part_at st topic p = Some pm" and "livenessTimeout \<le> now - lv_leaderSince lv"
    and "\<not> alive lv (pm_Leader pm) now" and "\<exists>nid \<in> set (pm_ISR pm). alive lv nid now"
  shows "part_at (checkFailover calm_env lv now st) topic p = Some (pm\<lparr>pm_Leader :=
      hd (filter (\<lambda>nid. alive lv nid now) (pm_ISR pm)),
      pm_ISR := filter (\<lambda>nid. alive lv nid now) (pm_ISR pm), pm_LeaderEpoch := i32 (pm_LeaderEpoch pm + 1)\<rparr>)"
proof -
  let ?alive = "filter (\<lambda>nid. alive lv nid now) (pm_ISR pm)"
  have ne: "?alive \<noteq> []" using assms(5) by (auto simp: filter_empty_conv)
  then have "hd ?alive \<in> set ?alive" by (rule hd_in_set)
  with assms(4) have "hd ?alive \<noteq> pm_Leader pm" by auto
  with ne assms(4) obtain c where c: "failover_cmd lv now topic p (viewPart pm) = Some c"
    by (auto simp: failover_cmd_def viewPart_def Let_def hd_conv_nth)
  have cf: "checkFailover calm_env lv now st = apply_all calm_env (failover_cmds lv now (Topics st)) st"
    using assms(3) by (simp add: checkFailover_def)
  have "filter (\<lambda>c. c_Topic c = topic \<and> c_Partition c = p) (failover_cmds lv now (Topics st)) = [c]"
    using filter_failover_cmds [OF assms(1,2), of lv now] c by simp
  from part_at_apply_one [OF assms(2) this, of calm_env] obtain st' where st': "part_at st' topic p = Some pm"
    "part_at (checkFailover calm_env lv now st) topic p = part_at (snd (applyLocked st' c)) topic p"
    unfolding cf by auto
  note c' = failover_cmd_view [OF part_at_index [OF assms(1,2)] c]
  have "part_effect topic p c pm = pm\<lparr>pm_Leader := hd ?alive, pm_ISR := ?alive,
      pm_LeaderEpoch := i32 (pm_LeaderEpoch pm + 1)\<rparr>"
    by (simp add: part_effect_def c'(1-3,5,7))
  with st' part_at_apply [OF st'(1), of c] show ?thesis by simp
qed

theorem failover_elects_witness:
  "\<exists>st. st = run_cmds NewFSM [create_cmd ''t'' [[1, 2]]] \<and> topics_bounded st
     \<and> part_at (checkFailover calm_env sample_liveness 5000000000 st) ''t'' 0
       = Some \<lparr>pm_Replicas = [1, 2], pm_Leader = 2, pm_ISR = [2], pm_LeaderEpoch = 1\<rparr>"
proof -
  have "livenessTimeout \<le> 5000000000 - lv_leaderSince sample_liveness"
    "\<not> alive sample_liveness (pm_Leader (part_from [1, 2])) 5000000000"
    "\<exists>nid \<in> set (pm_ISR (part_from [1, 2])). alive sample_liveness nid 5000000000"
    by (simp_all add: livenessTimeout_def part_from_def alive_def)
  from failover_elects [OF sample_topic_bounded sample_topic this]
  show ?thesis using sample_topic_bounded by (simp add: part_from_def alive_def i32_def)
qed

end
