(* ===== verification/Lifecycle.thy ===== *)
theory Lifecycle
  imports Failover
begin

text \<open>
  The life of a controller (\<open>internal/controller/controller.go\<close>): \<open>New\<close>, \<open>LeaderID\<close>, \<open>WaitForLeader\<close> and
  \<open>Close\<close>. The raft library, the disk and the sockets are the parameter \<open>raft_lib\<close>, which says how each
  call of \<open>New\<close> ends (\<open>rl_boltStore\<close> opens \<open>store.db\<close> in the directory it is given); what \<open>New\<close> and \<open>Close\<close> acquire and release is recorded as a list of events.
\<close>

record Peer =
  pe_NodeID :: int
  pe_RaftAddr :: string
  pe_RPCAddr :: string

record CtlConfig =
  cc_NodeID :: int
  cc_RaftBind :: string
  cc_Advertise :: string
  cc_RPCBind :: string
  cc_RaftDir :: "string list"
  cc_Bootstrap :: bool
  cc_Peers :: "Peer list"

datatype resource = BoltStore | Transport | RaftNode | RpcListener | LivenessLoop

datatype life_event =
    Acquire resource
  | Release resource
  | Bootstrap "(string \<times> string) list"

record raft_lib =
  rl_mkdir :: "string list \<Rightarrow> goerror option"
  rl_boltStore :: "string list \<Rightarrow> goerror option"
  rl_snapshots :: "string list \<Rightarrow> goerror option"
  rl_resolve :: "string \<Rightarrow> goerror option"
  rl_transport :: "string \<Rightarrow> string \<Rightarrow> goerror option"
  rl_existing :: "goerror + bool"
  rl_newRaft :: "string \<Rightarrow> goerror option"
  rl_bootstrap :: "(string \<times> string) list \<Rightarrow> goerror option"
  rl_listen :: "string \<Rightarrow> goerror option"

record CtlState =
  cs_liveness :: liveness
  cs_rpcAddr :: "(int, string) fmap"
  cs_rpc :: bool
  cs_live :: bool

text \<open>The forwarding addresses: a later peer with the same id wins, and an empty address is left out.\<close>

definition rpc_addrs :: "Peer list \<Rightarrow> (int, string) fmap" where
  "rpc_addrs peers = fold (\<lambda>p m. if pe_RPCAddr p \<noteq> [] then fmupd (pe_NodeID p) (pe_RPCAddr p) m else m) peers fmempty"

definition raft_servers :: "Peer list \<Rightarrow> (string \<times> string) list" where
  "raft_servers peers = map (\<lambda>p. (itoa (pe_NodeID p), pe_RaftAddr p)) peers"

definition startRPC :: "raft_lib \<Rightarrow> string \<Rightarrow> goerror option \<times> life_event list" where
  "startRPC lib addr = (case rl_listen lib addr of Some e \<Rightarrow> (Some e, []) | None \<Rightarrow> (None, [Acquire RpcListener]))"

definition startLiveness :: "CtlState \<Rightarrow> CtlState \<times> life_event list" where
  "startLiveness c = (c\<lparr>cs_live := True\<rparr>, [Acquire LivenessLoop])"

text \<open>The last part of \<open>New\<close>, once raft runs: the forwarding service and the liveness loop.\<close>

definition new_services :: "raft_lib \<Rightarrow> CtlConfig \<Rightarrow> (goerror + CtlState) \<times> life_event list" where
  "new_services lib conf =
     (let c = \<lparr>cs_liveness = \<lparr>lv_nodeID = cc_NodeID conf, lv_lastSeen = fmempty, lv_leaderSince = 0\<rparr>,
               cs_rpcAddr = rpc_addrs (cc_Peers conf), cs_rpc = False, cs_live = False\<rparr>
      in if cc_RPCBind conf \<noteq> [] then
           (case startRPC lib (cc_RPCBind conf) of
              (Some e, evs) \<Rightarrow> (Inl e, evs @ [Release RaftNode, Release Transport, Release BoltStore])
            | (None, evs) \<Rightarrow> let (c', evs') = startLiveness (c\<lparr>cs_rpc := True\<rparr>) in (Inr c', evs @ evs'))
         else (Inr c, []))"

text \<open>A step of \<open>New\<close> that may fail: then \<open>New\<close> returns its error, with the events so far and the clean-up.\<close>

definition step_or :: "goerror option \<Rightarrow> life_event list \<Rightarrow> (goerror + 'c) \<times> life_event list \<Rightarrow> (goerror + 'c) \<times> life_event list" where
  "step_or r undone k = (case r of Some e \<Rightarrow> (Inl e, undone) | None \<Rightarrow> k)"

text \<open>What \<open>New\<close> does once the advertised address has its default.\<close>

definition new_raft :: "raft_lib \<Rightarrow> CtlConfig \<Rightarrow> (goerror + CtlState) \<times> life_event list" where
  "new_raft lib conf =
     step_or (rl_mkdir lib (cc_RaftDir conf)) []
     (step_or (rl_boltStore lib (cc_RaftDir conf)) []
     (step_or (rl_snapshots lib (cc_RaftDir conf)) [Acquire BoltStore, Release BoltStore]
     (step_or (rl_resolve lib (cc_Advertise conf)) [Acquire BoltStore, Release BoltStore]
     (step_or (rl_transport lib (cc_RaftBind conf) (cc_Advertise conf)) [Acquire BoltStore, Release BoltStore]
     (case rl_existing lib of
        Inl e \<Rightarrow> (Inl e, [Acquire BoltStore, Acquire Transport, Release Transport, Release BoltStore])
      | Inr hadState \<Rightarrow>
          step_or (rl_newRaft lib (itoa (cc_NodeID conf))) [Acquire BoltStore, Acquire Transport, Release Transport, Release BoltStore]
          (let servers = raft_servers (cc_Peers conf);
               boot = cc_Bootstrap conf \<and> \<not> hadState;
               evs = [Acquire BoltStore, Acquire Transport, Acquire RaftNode] @ (if boot then [Bootstrap servers] else [])
           in step_or (if boot then rl_bootstrap lib servers else None) (evs @ [Release RaftNode, Release Transport, Release BoltStore])
                (case new_services lib conf of (res, evs') \<Rightarrow> (res, evs @ evs'))))))))"

definition Ctl_New :: "raft_lib \<Rightarrow> CtlConfig \<Rightarrow> (goerror + CtlState) \<times> life_event list" where
  "Ctl_New lib conf = new_raft lib (if cc_Advertise conf = [] then conf\<lparr>cc_Advertise := cc_RaftBind conf\<rparr> else conf)"

text \<open>\<open>id\<close> is what raft names as its leader.\<close>

definition LeaderID :: "string \<Rightarrow> int option" where
  "LeaderID lid = (if lid = [] then None else map_option i32 (parse_int lid))"

text \<open>The leader raft knows at the polls before the deadline, and at the end.\<close>

fun WaitForLeader :: "string list \<Rightarrow> string \<Rightarrow> bool" where
  "WaitForLeader [] final \<longleftrightarrow> final \<noteq> []"
| "WaitForLeader (l # ls) final \<longleftrightarrow> l \<noteq> [] \<or> WaitForLeader ls final"

definition Ctl_Close :: "goerror option \<Rightarrow> goerror option \<Rightarrow> goerror option \<Rightarrow> CtlState \<Rightarrow> goerror option \<times> life_event list" where
  "Ctl_Close shutdownErr transErr storeErr c =
     (let firstErr = shutdownErr;
          firstErr = (if transErr \<noteq> None \<and> firstErr = None then transErr else firstErr);
          firstErr = (if storeErr \<noteq> None \<and> firstErr = None then storeErr else firstErr)
      in (firstErr, (if cs_live c then [Release LivenessLoop] else []) @ (if cs_rpc c then [Release RpcListener] else [])
            @ [Release RaftNode, Release Transport, Release BoltStore]))"

section \<open>Nothing leaks\<close>

text \<open>The resources held after a list of events, the last one acquired first; \<open>None\<close> when something is
  released that is not the last one acquired.\<close>

fun held :: "life_event list \<Rightarrow> resource list \<Rightarrow> resource list option" where
  "held [] rs = Some rs"
| "held (Acquire r # evs) rs = held evs (r # rs)"
| "held (Release r # evs) rs = (case rs of [] \<Rightarrow> None | r' # rs' \<Rightarrow> if r' = r then held evs rs' else None)"
| "held (Bootstrap _ # evs) rs = held evs rs"

lemma held_append: "held (as @ bs) rs = (case held as rs of None \<Rightarrow> None | Some rs' \<Rightarrow> held bs rs')"
  by (induction as rs rule: held.induct) (auto split: list.split)

lemma new_services_cases:
  obtains (refused) e where "new_services lib conf = (Inl e, [Release RaftNode, Release Transport, Release BoltStore])"
  | (serving) c where "new_services lib conf = (Inr c, [Acquire RpcListener, Acquire LivenessLoop])" "cs_rpc c" "cs_live c"
      "cs_rpcAddr c = rpc_addrs (cc_Peers conf)" "lv_nodeID (cs_liveness c) = cc_NodeID conf" "cc_RPCBind conf \<noteq> []"
  | (quiet) c where "new_services lib conf = (Inr c, [])" "\<not> cs_rpc c" "\<not> cs_live c"
      "cs_rpcAddr c = rpc_addrs (cc_Peers conf)" "lv_nodeID (cs_liveness c) = cc_NodeID conf" "cc_RPCBind conf = []"
  by (cases "cc_RPCBind conf = []"; cases "rl_listen lib (cc_RPCBind conf)")
    (simp_all add: new_services_def startRPC_def startLiveness_def Let_def)

text \<open>A failure with everything given back, or the services on top of a running raft node.\<close>

definition clean_or :: "(goerror + CtlState) \<times> life_event list \<Rightarrow> (goerror + CtlState) \<times> life_event list \<Rightarrow> bool" where
  "clean_or sv r \<longleftrightarrow> (\<exists>e evs. r = (Inl e, evs) \<and> held evs [] = Some [])
     \<or> (\<exists>evs. r = (fst sv, evs @ snd sv) \<and> held evs [] = Some [RaftNode, Transport, BoltStore])"

lemma clean_or_step: "held undone [] = Some [] \<Longrightarrow> clean_or sv k \<Longrightarrow> clean_or sv (step_or r undone k)"
  by (cases r) (auto simp: step_or_def clean_or_def)

lemma clean_or_run: "held evs [] = Some [RaftNode, Transport, BoltStore] \<Longrightarrow> clean_or sv (case sv of (res, evs') \<Rightarrow> (res, evs @ evs'))"
  by (auto simp: clean_or_def split: prod.split)

lemma clean_or_failed: "held evs [] = Some [] \<Longrightarrow> clean_or sv (Inl e, evs)"
  by (simp add: clean_or_def)

lemma new_raft_clean: "clean_or (new_services lib conf) (new_raft lib conf)"
  unfolding new_raft_def Let_def
  by (cases "rl_existing lib"; simp only: sum.case; intro clean_or_step clean_or_run clean_or_failed) simp_all

lemma new_raft_cases:
  obtains (failed) e evs where "new_raft lib conf = (Inl e, evs)" "held evs [] = Some []"
  | (running) evs where "new_raft lib conf = (fst (new_services lib conf), evs @ snd (new_services lib conf))"
      "held evs [] = Some [RaftNode, Transport, BoltStore]"
  using new_raft_clean [of lib conf] unfolding clean_or_def by blast

lemma new_raft_fails: "fst (new_raft lib conf) = Inl e \<Longrightarrow> held (snd (new_raft lib conf)) [] = Some []"
  by (cases rule: new_raft_cases [of lib conf]; cases rule: new_services_cases [of lib conf]) (simp_all add: held_append)

lemma new_raft_succeeds:
  assumes "fst (new_raft lib conf) = Inr c"
  shows "held (snd (new_raft lib conf) @ snd (Ctl_Close e1 e2 e3 c)) [] = Some []"
    and "cs_rpcAddr c = rpc_addrs (cc_Peers conf)" and "lv_nodeID (cs_liveness c) = cc_NodeID conf"
    and "cs_rpc c \<longleftrightarrow> cc_RPCBind conf \<noteq> []" and "cs_live c = cs_rpc c"
  using assms
  by (cases rule: new_raft_cases [of lib conf]; cases rule: new_services_cases [of lib conf]; simp add: held_append Ctl_Close_def)+

text \<open>A failed start holds nothing any more; a controller that started and is closed has given back
  everything, in the reverse order of its acquisition.\<close>

lemma Ctl_New_fails: "fst (Ctl_New lib conf) = Inl e \<Longrightarrow> held (snd (Ctl_New lib conf)) [] = Some []"
  unfolding Ctl_New_def by (rule new_raft_fails)

lemma Ctl_New_succeeds:
  assumes "fst (Ctl_New lib conf) = Inr c"
  shows "held (snd (Ctl_New lib conf) @ snd (Ctl_Close e1 e2 e3 c)) [] = Some []"
    and "cs_rpcAddr c = rpc_addrs (cc_Peers conf)" and "lv_nodeID (cs_liveness c) = cc_NodeID conf"
    and "cs_rpc c \<longleftrightarrow> cc_RPCBind conf \<noteq> []" and "cs_live c = cs_rpc c"
  using new_raft_succeeds [OF assms [unfolded Ctl_New_def]] by (simp_all add: Ctl_New_def split: if_splits)

lemma rpc_addrs_mem:
  assumes "p \<in> set peers" and "distinct (map pe_NodeID peers)" and "pe_RPCAddr p \<noteq> []"
  shows "fmlookup (rpc_addrs peers) (pe_NodeID p) = Some (pe_RPCAddr p)"
proof -
  let ?f = "\<lambda>p m. if pe_RPCAddr p \<noteq> [] then fmupd (pe_NodeID p) (pe_RPCAddr p) m else m"
  have other: "nid \<notin> pe_NodeID ` set ps \<Longrightarrow> fmlookup (fold ?f ps m) nid = fmlookup m nid" for nid ps m
    by (induction ps arbitrary: m) simp_all
  have "p \<in> set ps \<Longrightarrow> distinct (map pe_NodeID ps) \<Longrightarrow> fmlookup (fold ?f ps m) (pe_NodeID p) = Some (pe_RPCAddr p)" for ps m
  proof (induction ps arbitrary: m)
    case (Cons q ps)
    show ?case
    proof (cases "p = q")
      case True
      with Cons.prems(2) assms(3) other [of "pe_NodeID p" ps] show ?thesis by simp
    next
      case False
      with Cons.prems Cons.IH show ?thesis by simp
    qed
  qed simp
  from this [OF assms(1,2)] show ?thesis unfolding rpc_addrs_def .
qed

text \<open>The id a node has in raft is read back as its node id, so the leader's forwarding address is found.\<close>

lemma LeaderID_itoa: "in_i32 n \<Longrightarrow> LeaderID (itoa n) = Some n"
  using parse_int_itoa [of n] by (auto simp: LeaderID_def in_i32_def in_i64_def i32_id itoa_def)

end
