(* ===== verification/Process.thy ===== *)
theory Process
  imports Replicate Lifecycle
begin

text \<open>
  The broker process (\<open>cmd/mqbroker\<close>) and its metrics (\<open>internal/metrics\<close>): the labels, the gauges a scrape
  refreshes, the background loops, the start of the controller and of the object storage, the server's
  connection table, and the health check. The gauges of the metrics library are not modelled: a refresh is
  the list of values it sets. The steps of \<open>main\<close> end with a message and exit code 1, or with a running node.
\<close>

section \<open>Metrics\<close>

definition apiNames :: "(int \<times> string) list" where
  "apiNames =
     [(0, ''Produce''), (1, ''Fetch''), (2, ''ListOffsets''), (3, ''Metadata''), (8, ''OffsetCommit''), (9, ''OffsetFetch''),
      (10, ''FindCoordinator''), (11, ''JoinGroup''), (12, ''Heartbeat''), (13, ''LeaveGroup''), (14, ''SyncGroup''),
      (15, ''DescribeGroups''), (16, ''ListGroups''), (18, ''ApiVersions''), (19, ''CreateTopics''), (37, ''CreatePartitions'')]"

definition APIName :: "int \<Rightarrow> string" where
  "APIName key = (case map_of apiNames key of Some n \<Rightarrow> n | None \<Rightarrow> itoa key)"

definition PartitionLabel :: "int \<Rightarrow> string" where
  "PartitionLabel p = itoa p"

text \<open>A value set on a gauge, before its conversion to \<open>float64\<close>.\<close>

datatype gauge_set =
    TopicsTotal int
  | PartitionsTotal int
  | PartitionLEO string string int
  | PartitionHWM string string int
  | PartitionSize string string int
  | GroupMembers string int
  | GroupLag string string string int

definition leo_key :: "string \<Rightarrow> string \<Rightarrow> string" where
  "leo_key topic pl = topic @ ''/'' @ pl"

text \<open>The logs of the partitions this broker leads; looking one up may open it.\<close>

fun refresh_partitions :: "'s Backend_ops \<Rightarrow> string \<Rightarrow> int list \<Rightarrow> (string, int) fmap \<Rightarrow> gauge_set list \<Rightarrow> 's BrokerState
    \<Rightarrow> ((string, int) fmap \<times> gauge_set list \<times> 's BrokerState) run" where
  "refresh_partitions B topic [] leo out b = ret (leo, out, b)"
| "refresh_partitions B topic (p # ps) leo out b =
     run_bind (LocalLog B b (topic, p)) (\<lambda>(e, b').
       if e \<noteq> None then refresh_partitions B topic ps leo out b'
       else
         let pl = PartitionLabel p; k = (topic, p); e = be_LatestOffset B (br_store b') k
         in refresh_partitions B topic ps (fmupd (leo_key topic pl) e leo)
              (out @ [PartitionLEO topic pl e, PartitionHWM topic pl (be_HighWatermark B (br_store b') k),
                 PartitionSize topic pl (be_Size B (br_store b') k)]) b')"

fun refresh_topics :: "'s Backend_ops \<Rightarrow> TopicInfo list \<Rightarrow> (string, int) fmap \<Rightarrow> gauge_set list \<Rightarrow> 's BrokerState
    \<Rightarrow> ((string, int) fmap \<times> gauge_set list \<times> 's BrokerState) run" where
  "refresh_topics B [] leo out b = ret (leo, out, b)"
| "refresh_topics B (t # ts) leo out b =
     run_bind (refresh_partitions B (ti_Name t) (int_range 0 (ti_Partitions t)) leo out b) (\<lambda>(leo', out', b').
       refresh_topics B ts leo' out' b')"

definition group_lag :: "(string, int) fmap \<Rightarrow> string \<times> string \<times> int \<times> int \<Rightarrow> gauge_set option" where
  "group_lag leo = (\<lambda>(grp, topic, p, off).
     case fmlookup leo (leo_key topic (PartitionLabel p)) of
       None \<Rightarrow> None
     | Some e \<Rightarrow>
         let lag = i64 (e - off) in Some (GroupLag grp topic (PartitionLabel p) (if lag < 0 then 0 else lag)))"

definition refreshGauges :: "'s Backend_ops \<Rightarrow> iteration \<Rightarrow> ((offsetKey, committed) fmap \<Rightarrow> offsetKey list) \<Rightarrow> 's BrokerState
    \<Rightarrow> Coordinator \<Rightarrow> (gauge_set list \<times> 's BrokerState) run" where
  "refreshGauges B iter order b coord =
     (let topics = KnownTopics b in
      run_bind (refresh_topics B topics fmempty [TopicsTotal (int (length topics))] b) (\<lambda>(leo, out, b').
        ret (out @ [PartitionsTotal (\<Sum>t\<leftarrow>topics. ti_Partitions t)]
             @ List.map_filter (\<lambda>(gid, _, _). map_option (\<lambda>d. GroupMembers gid (int (length (gd_Members d)))) (DescribeGroup iter coord gid))
                 (ListGroups coord)
             @ List.map_filter (group_lag leo) (ListCommitted order (co_store coord)), b')))"

section \<open>Background loops\<close>

text \<open>A tick of a loop: what other requests have done since the last one, and the order in which the logs
  are visited. The loop runs until the process shuts down.\<close>

type_synonym 's tick = "('s BrokerState \<Rightarrow> 's BrokerState) \<times> (tpKey fset \<Rightarrow> tpKey list)"

definition flush_interval :: "int \<Rightarrow> int" where
  "flush_interval ms = (let interval = i64 (i64 ms * 10 ^ 6) in if interval \<le> 0 then 10 ^ 9 else interval)"

fun flushLoop :: "'s Backend_ops \<Rightarrow> 's tick list \<Rightarrow> 's BrokerState \<Rightarrow> 's BrokerState" where
  "flushLoop B [] b = b"
| "flushLoop B ((g, order) # ticks) b = flushLoop B ticks (snd (FlushAll B order (g b)))"

fun retentionLoop :: "'s Backend_ops \<Rightarrow> 's tick list \<Rightarrow> 's BrokerState \<Rightarrow> 's BrokerState" where
  "retentionLoop B [] b = b"
| "retentionLoop B ((g, order) # ticks) b = retentionLoop B ticks (Broker_EnforceRetention B order (g b))"

section \<open>Starting the controller and the object storage\<close>

text \<open>\<open>net.SplitHostPort\<close>.\<close>

definition split_host_port :: "string \<Rightarrow> (string \<times> string) option" where
  "split_host_port s =
     (case last_index_char (CHR '':'') s of
        None \<Rightarrow> None
      | Some i \<Rightarrow>
          if s ! 0 = CHR ''['' then
            (case index_char (CHR '']'') s of
               None \<Rightarrow> None
             | Some e \<Rightarrow>
                 if Suc e \<noteq> i then None
                 else if CHR ''['' \<in> set (drop 1 s) \<or> CHR '']'' \<in> set (drop (Suc e) s) then None
                 else Some (take (e - 1) (drop 1 s), drop (Suc i) s))
          else if CHR '':'' \<in> set (take i s) \<or> CHR ''['' \<in> set s \<or> CHR '']'' \<in> set s then None
          else Some (take i s, drop (Suc i) s))"

definition host_port :: "string \<Rightarrow> int \<Rightarrow> string" where
  "host_port host port = host @ '':'' @ itoa port"

text \<open>\<open>root\<close> is the path of the data directory.\<close>

definition controller_config :: "string list \<Rightarrow> BrokerConfig \<Rightarrow> Cluster \<Rightarrow> goerror + CtlConfig" where
  "controller_config root conf cl =
     (case split_host_port (cf_Listen conf) of
        None \<Rightarrow> Inl (ErrBadConfig (cf_Listen conf))
      | Some (listenHost, _) \<Rightarrow>
          let raftPort = i32 (cf_AdvertisedPort conf + 1); rpcPort = i32 (cf_AdvertisedPort conf + 2) in
          Inr \<lparr>cc_NodeID = cf_NodeID conf, cc_RaftBind = host_port listenHost raftPort,
               cc_Advertise = host_port (cf_AdvertisedHost conf) raftPort, cc_RPCBind = host_port listenHost rpcPort,
               cc_RaftDir = path_join root ''raft'', cc_Bootstrap = (cf_RaftBootstrap conf \<or> Cluster_Size cl = 1),
               cc_Peers = map (\<lambda>bi. \<lparr>pe_NodeID = bi_NodeID bi, pe_RaftAddr = host_port (bi_Host bi) (i32 (bi_Port bi + 1)),
                   pe_RPCAddr = host_port (bi_Host bi) (i32 (bi_Port bi + 2))\<rparr>) (Brokers cl)\<rparr>)"

definition startController :: "raft_lib \<Rightarrow> string list \<Rightarrow> BrokerConfig \<Rightarrow> Cluster \<Rightarrow> (goerror + CtlState) \<times> life_event list" where
  "startController lib root conf cl =
     (case controller_config root conf cl of Inl e \<Rightarrow> (Inl e, []) | Inr cc \<Rightarrow> Ctl_New lib cc)"

text \<open>\<open>new\<close> is \<open>minio.New\<close>, \<open>objects\<close> the state of the store, \<open>idx\<close> the index the controller keeps, \<open>walDir\<close> the
  directory of the write-ahead log.\<close>

definition buildObjectStorage :: "(string \<Rightarrow> string \<Rightarrow> string \<Rightarrow> bool \<Rightarrow> string \<Rightarrow> goerror + ('c, 'r) minio_client) \<Rightarrow> 'c \<Rightarrow> 'i \<Rightarrow> dir
    \<Rightarrow> BrokerConfig \<Rightarrow> goerror + 'c ObjectStore \<times> ('c, 'i) Storage" where
  "buildObjectStorage new objects idx walDir conf =
     (case NewMinIO new \<lparr>oc_Endpoint = cf_ObjectEndpoint conf, oc_Bucket = cf_ObjectBucket conf, oc_AccessKey = cf_ObjectAccessKey conf,
         oc_SecretKey = cf_ObjectSecretKey conf, oc_Region = cf_ObjectRegion conf\<rparr> of
        Inl e \<Rightarrow> Inl e
      | Inr ops \<Rightarrow>
          (case NewStorage objects idx \<lparr>sc_NodeID = itoa (cf_NodeID conf), sc_UploadBytes = cf_ObjectUploadBytes conf,
               sc_UploadMS = cf_ObjectUploadMs conf\<rparr> walDir of
             Inl e \<Rightarrow> Inl e
           | Inr st \<Rightarrow> Inr (ops, st)))"

section \<open>The process\<close>

text \<open>What the process meets when it starts: the storage and the directories it finds, the results of the calls
  to the system and to the libraries, and the metadata the controller has when it is attached.\<close>

record ('s, 't) boot_env =
  bo_store :: 's
  bo_order :: "string set \<Rightarrow> string list"
  bo_mkdir :: "goerror option"
  bo_entries :: "goerror + (string \<times> bool) list"
  bo_root :: "string list"
  bo_fs :: tree
  bo_listen :: "string \<Rightarrow> goerror option"
  bo_raft :: raft_lib
  bo_control :: control
  bo_objects :: "goerror + 't"
  bo_now :: int

definition start_node :: "Coordinator \<Rightarrow> tree \<Rightarrow> 's BrokerState \<Rightarrow> 's node" where
  "start_node coord fs b = \<lparr>nd_broker = b, nd_coord = coord, nd_fs = fs, nd_reqCount = replicate 32 0\<rparr>"

text \<open>From the controller on; the wait for a leader has no effect on what follows. The object backend needs a controller even on a single node.\<close>

definition boot_controller :: "'s Backend_ops \<Rightarrow> 't Backend_ops \<Rightarrow> ('s, 't) boot_env \<Rightarrow> BrokerConfig \<Rightarrow> Cluster \<Rightarrow> Coordinator
    \<Rightarrow> 's BrokerState \<Rightarrow> (string + ('s node + 't node) \<times> CtlState option) run" where
  "boot_controller B BO env conf cl coord b =
     (let objectBackend = (cf_StorageBackend conf = ''object'') in
      if Cluster_Size cl > 1 \<or> objectBackend then
        (case fst (startController (bo_raft env) (bo_root env) conf cl) of
           Inl _ \<Rightarrow> ret (Inl ''failed to start controller'')
         | Inr ctrl \<Rightarrow>
             if objectBackend then
               (case bo_objects env of
                  Inl _ \<Rightarrow> ret (Inl ''failed to init object storage'')
                | Inr st \<Rightarrow>
                    run_bind (SetController BO (bo_now env) (bo_control env) (SetObjectStorage st b)) (\<lambda>b'.
                      ret (Inr (Inr (start_node coord (bo_fs env) b'), Some ctrl))))
             else run_bind (SetController B (bo_now env) (bo_control env) b) (\<lambda>b'.
               ret (Inr (Inl (start_node coord (bo_fs env) b'), Some ctrl))))
      else ret (Inr (Inl (start_node coord (bo_fs env) b), None)))"

definition boot :: "'s Backend_ops \<Rightarrow> 't Backend_ops \<Rightarrow> ('s, 't) boot_env \<Rightarrow> BrokerConfig
    \<Rightarrow> (string + ('s node + 't node) \<times> CtlState option) run" where
  "boot B BO env conf =
     (case Parse (cf_NodeID conf) (cf_Brokers conf) (cf_AdvertisedHost conf) (cf_AdvertisedPort conf) of
        Inl _ \<Rightarrow> ret (Inl ''failed to parse cluster membership'')
      | Inr cl \<Rightarrow>
          run_bind (Broker_New B (bo_order env) conf cl (bo_mkdir env) (bo_entries env) (bo_store env)) (\<lambda>r.
            case r of
              Inl _ \<Rightarrow> ret (Inl ''failed to init broker'')
            | Inr b \<Rightarrow>
                (case NewOffsetStore (bo_root env) (bo_fs env) of
                   Inl _ \<Rightarrow> ret (Inl ''failed to init offset store'')
                 | Inr store \<Rightarrow>
                     (case bo_listen env (cf_Listen conf) of
                        Some _ \<Rightarrow> ret (Inl ''failed to listen'')
                      | None \<Rightarrow> boot_controller B BO env conf cl (NewCoordinator store) b))))"

text \<open>The shutdown on a signal: the connections are gone, the logs are flushed, the broker is closed.\<close>

definition shutdown :: "'s Backend_ops \<Rightarrow> (tpKey fset \<Rightarrow> tpKey list) \<Rightarrow> 's node \<Rightarrow> 's node" where
  "shutdown B order nd = nd\<lparr>nd_broker := Broker_Close (snd (FlushAll B order (nd_broker nd)))\<rparr>"

section \<open>The connection table of the server\<close>

record Server_state =
  sv_conns :: "nat fset"
  sv_closed :: bool
  sv_active :: int

definition NewFromListener :: Server_state where
  "NewFromListener = \<lparr>sv_conns = {||}, sv_closed = False, sv_active = 0\<rparr>"

definition track :: "nat \<Rightarrow> bool \<Rightarrow> Server_state \<Rightarrow> Server_state" where
  "track c add s =
     (if add then s\<lparr>sv_conns := finsert c (sv_conns s), sv_active := sv_active s + 1\<rparr>
      else s\<lparr>sv_conns := sv_conns s |-| {|c|}, sv_active := sv_active s - 1\<rparr>)"

text \<open>\<open>Close\<close> marks the server closed; the result is the set of connections it closes.\<close>

definition Server_Close :: "Server_state \<Rightarrow> Server_state \<times> nat fset" where
  "Server_Close s = (s\<lparr>sv_closed := True\<rparr>, sv_conns s)"

text \<open>What the accept loop and the connections meet: a new connection, the end of one, the call of \<open>Close\<close>, a
  failing accept. \<open>Serve\<close> returns at the first failing accept; \<open>None\<close> while it goes on.\<close>

datatype server_event = Accepted nat | Ended nat | Closing | AcceptFails goerror

fun Serve :: "server_event list \<Rightarrow> Server_state \<Rightarrow> goerror option option \<times> Server_state" where
  "Serve [] s = (None, s)"
| "Serve (Accepted c # evs) s = Serve evs (track c True s)"
| "Serve (Ended c # evs) s = Serve evs (track c False s)"
| "Serve (Closing # evs) s = Serve evs (fst (Server_Close s))"
| "Serve (AcceptFails e # evs) s = (Some (if sv_closed s then None else Some e), s)"

section \<open>The health check\<close>

definition apiVersionsRequest :: "bytes go" where
  "apiVersionsRequest =
     (let w = NewWriter;
          w = Int32_w 0 w;
          w = Int16_w APIApiVersions w;
          w = Int16_w 0 w;
          w = Int32_w 1 w;
          w = NullableString_w (Some ''healthcheck'') w
      in PatchInt32 0 (i32 (int (length w) - 4)) w)"

definition health_frame :: "bytes \<Rightarrow> goerror + bytes" where
  "health_frame conn =
     (case read_full 4 conn of
        (Inl e, _) \<Rightarrow> Inl e
      | (Inr sizeBuf, rest) \<Rightarrow> fst (read_full (nat (be_uint sizeBuf)) rest))"

text \<open>\<open>dial\<close> is the error of the dial or what can be read after the request was written, \<open>Inl\<close> when writing it fails.\<close>

definition probeApiVersions :: "(bytes \<Rightarrow> goerror + bytes) \<Rightarrow> goerror option go" where
  "probeApiVersions dial =
     go_bind apiVersionsRequest (\<lambda>req.
       case dial req of
         Inl e \<Rightarrow> Ret (Some e)
       | Inr conn \<Rightarrow>
           (case health_frame conn of
              Inl e \<Rightarrow> Ret (Some e)
            | Inr resp \<Rightarrow>
                (case run_state (Int32_r \<bind> (\<lambda>_. Int16_r)) (NewReader resp) of
                   (errorCode, r) \<Rightarrow>
                     Ret (case err r of
                            Some e \<Rightarrow> Some e
                          | None \<Rightarrow> if errorCode \<noteq> 0 then Some (ErrFetchCode errorCode) else None))))"

definition healthcheck_addr :: "string list \<Rightarrow> string" where
  "healthcheck_addr args = (if length args > 0 \<and> args ! 0 \<noteq> [] then args ! 0 else ''127.0.0.1:9092'')"

definition runHealthcheck :: "(string \<Rightarrow> bytes \<Rightarrow> goerror + bytes) \<Rightarrow> string list \<Rightarrow> int go" where
  "runHealthcheck dial args =
     go_bind (probeApiVersions (dial (healthcheck_addr args))) (\<lambda>e. Ret (if e \<noteq> None then 1 else 0))"

end
