(* ===== verification/Process_Props.thy ===== *)
theory Process_Props
  imports Process
begin

text \<open>
  What the process guarantees: after a restart the broker has every partition it finds on disk open with
  the content recovery gives it; the health check succeeds against any running node; the active connections
  are the ones in the table; the lag of a group is the distance to the log end.
\<close>

section \<open>The connection table\<close>

fun events_ok :: "server_event list \<Rightarrow> nat fset \<Rightarrow> bool" where
  "events_ok [] cs \<longleftrightarrow> True"
| "events_ok (Accepted c # evs) cs \<longleftrightarrow> c |\<notin>| cs \<and> events_ok evs (finsert c cs)"
| "events_ok (Ended c # evs) cs \<longleftrightarrow> c |\<in>| cs \<and> events_ok evs (cs |-| {|c|})"
| "events_ok (Closing # evs) cs \<longleftrightarrow> events_ok evs cs"
| "events_ok (AcceptFails e # evs) cs \<longleftrightarrow> True"

lemma Serve_active:
  assumes "events_ok evs (sv_conns s)" and "sv_active s = int (fcard (sv_conns s))"
  shows "sv_active (snd (Serve evs s)) = int (fcard (sv_conns (snd (Serve evs s))))"
  using assms
proof (induction evs s rule: Serve.induct)
  case (2 c evs s)
  then show ?case by (simp add: track_def fcard_finsert_disjoint add.commute)
next
  case (3 c evs s)
  then have "finsert c (sv_conns s |-| {|c|}) = sv_conns s" by auto
  with fcard_finsert_disjoint [of c "sv_conns s |-| {|c|}"]
  have "fcard (sv_conns s) = Suc (fcard (sv_conns s |-| {|c|}))" by auto
  with 3(3) have act: "sv_active (track c False s) = int (fcard (sv_conns (track c False s)))" by (simp add: track_def)
  have "events_ok evs (sv_conns (track c False s))" using 3(2) by (simp add: track_def)
  from 3(1) [OF this act] show ?case by (simp only: Serve.simps)
qed (simp_all add: Server_Close_def)

text \<open>\<open>Close\<close> closes the connections in the table and then waits for all handlers. A connection that the accept
  loop takes after \<open>Close\<close> has walked the table, but before the listener is closed, enters the table of the
  closed server and nobody closes it, so the wait lasts as long as its client stays.\<close>

lemma late_connection_not_closed:
  "let (s', closing) = Server_Close s in
     sv_conns (snd (Serve [Accepted c, AcceptFails e] s')) = finsert c (sv_conns s) \<and> (c |\<notin>| sv_conns s \<longrightarrow> c |\<notin>| closing)"
  by (simp add: Server_Close_def track_def)

section \<open>The lag gauge\<close>

lemma leo_key_inj:
  assumes "leo_key t (PartitionLabel p) = leo_key t' (PartitionLabel p')" and "0 \<le> p" and "0 \<le> p'" and "in_i64 p" and "in_i64 p'"
  shows "t = t' \<and> p = p'"
proof -
  have "last_index_char (CHR ''/'') (leo_key t (PartitionLabel p)) = Some (length t)"
    "last_index_char (CHR ''/'') (leo_key t' (PartitionLabel p')) = Some (length t')"
    using itoa_digits(1) [OF assms(2)] itoa_digits(1) [OF assms(3)]
    by (simp_all add: leo_key_def PartitionLabel_def last_index_char_split)
  with assms(1) have "length t = length t'" by simp
  with assms(1) have "t = t' \<and> itoa p = itoa p'" by (simp add: leo_key_def PartitionLabel_def)
  with itoa_inj [OF assms(4,5)] show ?thesis by simp
qed

section \<open>Restart\<close>

text \<open>Every open log is what opening its directory gives.\<close>

definition opened_from :: "file_node \<Rightarrow> file_node \<Rightarrow> bool" where
  "opened_from s0 s \<longleftrightarrow> fn_root s = fn_root s0 \<and> fn_cfg s = fn_cfg s0 \<and> fn_dirs s = fn_dirs s0
     \<and> (\<forall>k l. fmlookup (fn_logs s) k = Some l \<longrightarrow> Open (found_dir s0 k) (fn_cfg s0) = Some (Inr l))"

lemma openLocked_from:
  assumes "openLocked (file_backend now mtime) b k = ret (e, b')" and "opened_from s0 (br_store b)"
  shows "opened_from s0 (br_store b')"
proof -
  have dir: "found_dir (br_store b) k = found_dir s0 k" "fn_cfg (br_store b) = fn_cfg s0"
    using assms(2) by (simp_all add: opened_from_def found_dir_def)
  show ?thesis
  proof (cases "k |\<in>| br_logs b")
    case False
    then obtain r where r: "Open (found_dir s0 k) (fn_cfg s0) = Some r"
      using assms(1) by (auto simp: openLocked_def file_backend_def dir split: option.splits)
    with False assms show ?thesis
      by (cases r) (auto simp: openLocked_def file_backend_def dir opened_from_def set_log_def split: if_splits)
  qed (use assms in \<open>simp add: openLocked_def\<close>)
qed

lemma open_all_from:
  "open_all (file_backend now mtime) t pids b = ret (e, b') \<Longrightarrow> opened_from s0 (br_store b) \<Longrightarrow> opened_from s0 (br_store b')"
proof (induction pids arbitrary: b)
  case (Cons p pids)
  from Cons.prems(1) obtain e1 b1 where b1: "openLocked (file_backend now mtime) b (t, p) = ret (e1, b1)"
    "(if e1 \<noteq> None then ret (e1, b1) else open_all (file_backend now mtime) t pids b1) = ret (e, b')"
    by (auto simp: run_bind_ret_iff)
  with Cons.IH openLocked_from [OF b1(1) Cons.prems(2)] show ?case by (auto split: if_splits)
qed simp

lemma load_topics_from:
  "load_topics (file_backend now mtime) found ts b = ret (e, b') \<Longrightarrow> opened_from s0 (br_store b) \<Longrightarrow> opened_from s0 (br_store b')"
proof (induction ts arbitrary: b)
  case (Cons t ts)
  let ?pids = "map snd (filter (\<lambda>(t', _). t' = t) found)"
  let ?b = "b\<lparr>br_catalog := fmupd t (i32 (fold (\<lambda>pid m. if pid > m then pid else m) ?pids 0 + 1)) (br_catalog b)\<rparr>"
  from Cons.prems(1) obtain e1 b1 where b1: "open_all (file_backend now mtime) t ?pids ?b = ret (e1, b1)"
    "(if e1 \<noteq> None then ret (e1, b1) else load_topics (file_backend now mtime) found ts b1) = ret (e, b')"
    by (auto simp: run_bind_ret_iff Let_def)
  have "opened_from s0 (br_store ?b)" using Cons.prems(2) by simp
  from Cons.IH open_all_from [OF b1(1) this] b1(2) show ?case by (auto split: if_splits)
qed simp

lemma openLocked_logs:
  "openLocked B b k = ret (None, b') \<Longrightarrow> br_logs b' = finsert k (br_logs b)"
  by (auto simp: openLocked_def split: if_splits option.splits)

context node_logs
begin

lemma open_all_ok:
  assumes "broker_ok ok view b"
  shows "\<exists>b'. open_all B t pids b = ret (None, b') \<and> broker_ok ok view b' \<and> keeps view b b' \<and> br_ctrl b' = br_ctrl b
    \<and> br_catalog b' = br_catalog b \<and> br_logs b' = br_logs b |\<union>| fset_of_list (map (Pair t) pids)"
  using assms
proof (induction pids arbitrary: b)
  case (Cons p pids)
  from openLocked_ok [OF Cons.prems, of "(t, p)"] obtain b1 where
    b1: "openLocked B b (t, p) = ret (None, b1)" "broker_ok ok view b1" "keeps view b b1" "br_ctrl b1 = br_ctrl b"
    "br_catalog b1 = br_catalog b" by blast
  from Cons.IH [OF b1(2)] obtain b2 where
    b2: "open_all B t pids b1 = ret (None, b2)" "broker_ok ok view b2" "keeps view b1 b2" "br_ctrl b2 = br_ctrl b1"
    "br_catalog b2 = br_catalog b1" "br_logs b2 = br_logs b1 |\<union>| fset_of_list (map (Pair t) pids)" by blast
  with b1 openLocked_logs [OF b1(1)] keeps_trans [OF b1(3) b2(3)] show ?case by simp
qed simp

end

definition pids_of :: "(string \<times> int) list \<Rightarrow> string \<Rightarrow> int list" where
  "pids_of found t = map snd (filter (\<lambda>(t', _). t' = t) found)"

lemma pids_of_mem: "p \<in> set (pids_of found t) \<longleftrightarrow> (t, p) \<in> set found"
  by (force simp: pids_of_def)

lemma fold_max_pids: "fold (\<lambda>pid m. if pid > m then pid else m) ps m = Max (set (m # ps))" for m :: int
proof -
  have "(\<lambda>pid m. if pid > m then pid else m) = (max :: int \<Rightarrow> int \<Rightarrow> int)" by (intro ext) (simp add: max_def)
  then show ?thesis by (simp add: Max.set_eq_fold del: list.set)
qed

context node_logs
begin

lemma load_topics_ok:
  assumes "broker_ok ok view b"
  shows "\<exists>b'. load_topics B found ts b = ret (None, b') \<and> broker_ok ok view b' \<and> keeps view b b' \<and> br_ctrl b' = br_ctrl b
    \<and> (\<forall>t. fmlookup (br_catalog b') t =
        (if t \<in> set ts then Some (i32 (Max (set (0 # pids_of found t)) + 1)) else fmlookup (br_catalog b) t))
    \<and> (\<forall>t p. (t, p) |\<in>| br_logs b' \<longleftrightarrow> (t, p) |\<in>| br_logs b \<or> t \<in> set ts \<and> (t, p) \<in> set found)"
  using assms
proof (induction ts arbitrary: b)
  case (Cons t ts)
  let ?n = "i32 (Max (set (0 # pids_of found t)) + 1)"
  let ?b = "b\<lparr>br_catalog := fmupd t ?n (br_catalog b)\<rparr>"
  have "broker_ok ok view ?b" using Cons.prems broker_ok_cong [of ?b b] by simp
  from open_all_ok [OF this, of t "pids_of found t"] obtain b1 where
    b1: "open_all B t (pids_of found t) ?b = ret (None, b1)" "broker_ok ok view b1" "keeps view ?b b1" "br_ctrl b1 = br_ctrl b"
    "br_catalog b1 = fmupd t ?n (br_catalog b)" "br_logs b1 = br_logs b |\<union>| fset_of_list (map (Pair t) (pids_of found t))" by auto
  from Cons.IH [OF b1(2)] obtain b2 where
    b2: "load_topics B found ts b1 = ret (None, b2)" "broker_ok ok view b2" "keeps view b1 b2" "br_ctrl b2 = br_ctrl b1"
    "\<forall>t. fmlookup (br_catalog b2) t =
        (if t \<in> set ts then Some (i32 (Max (set (0 # pids_of found t)) + 1)) else fmlookup (br_catalog b1) t)"
    "\<forall>t p. (t, p) |\<in>| br_logs b2 \<longleftrightarrow> (t, p) |\<in>| br_logs b1 \<or> t \<in> set ts \<and> (t, p) \<in> set found" by blast
  have "load_topics B found (t # ts) b = ret (None, b2)"
    using b1(1) b2(1) by (simp add: pids_of_def [symmetric] fold_max_pids)
  moreover have "keeps view b b2" using keeps_trans [OF b1(3) b2(3)] by (simp add: keeps_def)
  moreover have "(t', p) |\<in>| br_logs b2 \<longleftrightarrow> (t', p) |\<in>| br_logs b \<or> t' \<in> set (t # ts) \<and> (t', p) \<in> set found" for t' p
    unfolding b2(6) [rule_format] b1(6) by (auto simp: fset_of_list_elem pids_of_mem)
  moreover have "fmlookup (br_catalog b2) t' =
      (if t' \<in> set (t # ts) then Some (i32 (Max (set (0 # pids_of found t')) + 1)) else fmlookup (br_catalog b) t')" for t'
    unfolding b2(5) [rule_format] b1(5) by simp
  ultimately show ?case using b2(2,4) b1(4) by metis
qed simp

end

lemma single_leads:
  assumes "Parse nid spec host port = Inr c" and "Cluster_Size c = 1"
  shows "IsLeader c t p = Ret True"
proof -
  obtain x where x: "brokers c = [x]" using assms(2) by (auto simp: Cluster_Size_def length_Suc_conv)
  then have "self c = bi_NodeID x" using Parse_wellformed [OF assms(1)] by (simp add: cluster_ok_def)
  with x show ?thesis by (simp add: IsLeader_def LeaderFor_def u32_def)
qed

text \<open>A directory that the broker creates for a partition is found again at the next start, unless the name of
  the topic marks it as internal.\<close>

lemma dir_partition_listed:
  assumes "\<not> has_prefix t ''__''" and "0 \<le> p" and "in_i32 p"
  shows "dir_partition (t @ ''-'' @ itoa p, True) = Some (t, p)"
proof -
  have "\<not> has_prefix (t @ CHR ''-'' # itoa p) ''__''"
    using assms(1) by (cases t rule: remdups_adj.cases) (auto simp: has_prefix_def)
  moreover have "in_i64 p" using assms(3) by (simp add: in_i32_def in_i64_def)
  ultimately show ?thesis
    using assms(2,3) by (simp add: dir_partition_def last_index_char_split itoa_no_minus parse_int_itoa i32_id)
qed

definition crashed :: "file_node \<Rightarrow> (tpKey \<Rightarrow> nat) \<Rightarrow> (tpKey \<Rightarrow> bytes) \<Rightarrow> file_node \<Rightarrow> bool" where
  "crashed s cutoff junk s0 \<longleftrightarrow> file_ok s0 \<and> fn_logs s0 = fmempty
     \<and> (\<forall>k l. fmlookup (fn_logs s) k = Some l \<longrightarrow> found_dir s0 k = crash_disk l (cutoff k) (junk k))"

definition listing :: "file_node \<Rightarrow> (string \<times> bool) list \<Rightarrow> bool" where
  "listing s es \<longleftrightarrow> (\<forall>t p. (t, p) |\<in>| fmdom (fn_logs s) \<longrightarrow> \<not> has_prefix t ''__'' \<and> 0 \<le> p \<and> in_i32 p \<and> (t @ ''-'' @ itoa p, True) \<in> set es)
     \<and> (\<forall>e \<in> set es. \<forall>t p. dir_partition e = Some (t, p) \<longrightarrow> p < 2 ^ 31 - 1)"

lemma loadExisting_recovers:
  assumes s: "file_ok s" "crashed s cutoff junk (br_store b)" "listing s es"
    and b: "broker_ok file_ok file_view b" "\<forall>S. finite S \<longrightarrow> set (order S) = S"
  shows "\<exists>b'. loadExisting (file_backend now mtime) order (Inr es) b = ret (None, b') \<and> broker_ok file_ok file_view b'
    \<and> br_ctrl b' = br_ctrl b \<and> br_cluster b' = br_cluster b
    \<and> (\<forall>t p l. fmlookup (fn_logs s) (t, p) = Some l \<longrightarrow> (t, p) |\<in>| br_logs b' \<and> 0 \<le> p
         \<and> (\<exists>n. fmlookup (br_catalog b') t = Some n \<and> p < n)
         \<and> fmlookup (fn_logs (br_store b')) (t, p) =
             Some (projr (the (Open (crash_disk l (cutoff (t, p)) (junk (t, p))) (fn_cfg (br_store b))))))"
proof -
  let ?B = "file_backend now mtime"
  let ?found = "List.map_filter dir_partition es"
  let ?ts = "order (fst ` set ?found)"
  have ts: "set ?ts = fst ` set ?found" using b(2) by simp
  from file_node.load_topics_ok [OF b(1), of now mtime ?found ?ts] obtain b' where
    b': "load_topics ?B ?found ?ts b = ret (None, b')" "broker_ok file_ok file_view b'" "keeps file_view b b'" "br_ctrl b' = br_ctrl b"
    "\<forall>t. fmlookup (br_catalog b') t =
        (if t \<in> set ?ts then Some (i32 (Max (set (0 # pids_of ?found t)) + 1)) else fmlookup (br_catalog b) t)"
    "\<forall>t p. (t, p) |\<in>| br_logs b' \<longleftrightarrow> (t, p) |\<in>| br_logs b \<or> t \<in> set ?ts \<and> (t, p) \<in> set ?found" by blast
  have "opened_from (br_store b) (br_store b)" using s(2) by (simp add: opened_from_def crashed_def)
  from load_topics_from [OF b'(1) this] have from0: "opened_from (br_store b) (br_store b')" .
  have "(t, p) |\<in>| br_logs b' \<and> 0 \<le> p \<and> (\<exists>n. fmlookup (br_catalog b') t = Some n \<and> p < n)
         \<and> fmlookup (fn_logs (br_store b')) (t, p) =
             Some (projr (the (Open (crash_disk l (cutoff (t, p)) (junk (t, p))) (fn_cfg (br_store b)))))"
    if l: "fmlookup (fn_logs s) (t, p) = Some l" for t p l
  proof -
    from l s(3) have p: "0 \<le> p" "in_i32 p" "\<not> has_prefix t ''__''" "(t @ ''-'' @ itoa p, True) \<in> set es"
      by (auto simp: listing_def fmlookup_dom_iff)
    with dir_partition_listed [OF p(3,1,2)] have found: "(t, p) \<in> set ?found" by (force simp: List.map_filter_def)
    then have "t \<in> set ?ts" unfolding ts by force
    moreover have "Max (set (0 # pids_of ?found t)) < 2 ^ 31 - 1"
      using s(3) by (auto simp: listing_def pids_of_mem List.map_filter_def)
    moreover have "p \<le> Max (set (0 # pids_of ?found t))" "0 \<le> Max (set (0 # pids_of ?found t))" using found by (simp_all add: pids_of_mem)
    ultimately have "\<exists>n. fmlookup (br_catalog b') t = Some n \<and> p < n" using b'(5) by (simp add: i32_id in_i32_def del: list.set)
    moreover have logs: "(t, p) |\<in>| br_logs b'" using b'(6) found \<open>t \<in> set ?ts\<close> by blast
    moreover obtain l' where l': "fmlookup (fn_logs (br_store b')) (t, p) = Some l'"
      using broker_okD(2) [OF b'(2), of "(t, p)"] logs by (auto simp: file_view_def)
    moreover have "Open (crash_disk l (cutoff (t, p)) (junk (t, p))) (fn_cfg (br_store b)) = Some (Inr l')"
      using from0 l' s(2) l unfolding opened_from_def crashed_def by metis
    ultimately show ?thesis using p(1) by simp
  qed
  moreover have "br_cluster b' = br_cluster b" using b'(3) by (simp add: keeps_def)
  ultimately show ?thesis using b'(1,2,4) by (simp add: loadExisting_def)
qed

text \<open>C4: a single broker that crashed, every active segment cut at any byte and any contents left in its
  index file, starts again on its data directory: the process comes up without a controller, the committed
  group offsets are those of the offset files, and every partition that was open is open again and led by the
  node, with the sealed batches and the whole batches of the active segment, all committed.\<close>

theorem boot_recovers:
  assumes s: "file_ok s" "crashed s cutoff junk (bo_store env)" "bo_entries env = Inr es" "listing s es"
    and conf: "Parse (cf_NodeID conf) (cf_Brokers conf) (cf_AdvertisedHost conf) (cf_AdvertisedPort conf) = Inr cl"
      "Cluster_Size cl = 1" "cf_StorageBackend conf \<noteq> ''object''"
    and calls: "bo_mkdir env = None" "bo_listen env (cf_Listen conf) = None" "NewOffsetStore (bo_root env) (bo_fs env) = Inr offs"
      "\<forall>S. finite S \<longrightarrow> set (bo_order env S) = S"
  shows "\<exists>nd. boot (file_backend now mtime) BO env conf = ret (Inr (Inl nd, None))
    \<and> broker_ok file_ok file_view (nd_broker nd) \<and> co_store (nd_coord nd) = offs
    \<and> (\<forall>k l. fmlookup (fn_logs s) k = Some l \<longrightarrow>
         LocalLog (file_backend now mtime) (nd_broker nd) k = ret (None, nd_broker nd)
         \<and> (\<exists>l'. fmlookup (fn_logs (br_store (nd_broker nd))) k = Some l' \<and> log_inv l' \<and> highWatermark l' = nextOffset l'
              \<and> log_batches l' = concat (map (seg_batches (disk l)) (butlast (segments l)))
                  @ whole_batches (cutoff k) (seg_batches (disk l) (active l))))"
proof -
  let ?B = "file_backend now mtime"
  let ?b = "\<lparr>br_cfg = conf, br_cluster = cl, br_ctrl = None, br_repl = None, br_store = bo_store env, br_catalog = fmempty,
    br_logs = {||}, br_followers = fmempty, br_leadSince = fmempty, br_maint = False\<rparr>"
  have b: "broker_ok file_ok file_view ?b"
    using s(2) conf(2) by (intro broker_okI) (simp_all add: crashed_def file_view_def Cluster_Size_def)
  have s0: "crashed s cutoff junk (br_store ?b)" using s(2) by simp
  from loadExisting_recovers [OF s(1) s0 s(4) b calls(4), of now mtime] obtain b' where
    b': "loadExisting ?B (bo_order env) (Inr es) ?b = ret (None, b')" "broker_ok file_ok file_view b'"
    "br_ctrl b' = None" "br_cluster b' = cl"
    "\<forall>t p l. fmlookup (fn_logs s) (t, p) = Some l \<longrightarrow> (t, p) |\<in>| br_logs b' \<and> 0 \<le> p
         \<and> (\<exists>n. fmlookup (br_catalog b') t = Some n \<and> p < n)
         \<and> fmlookup (fn_logs (br_store b')) (t, p) =
             Some (projr (the (Open (crash_disk l (cutoff (t, p)) (junk (t, p))) (fn_cfg (bo_store env)))))" by auto
  let ?nd = "start_node (NewCoordinator offs) (bo_fs env) b'"
  have "boot ?B BO env conf = ret (Inr (Inl ?nd, None))"
    using conf calls b'(1) by (simp add: boot_def Broker_New_def s(3) boot_controller_def)
  moreover have "LocalLog ?B b' k = ret (None, b')" if "fmlookup (fn_logs s) k = Some l" for k l
  proof (cases k)
    case (Pair t p)
    with that b'(5) have "(t, p) |\<in>| br_logs b'" "0 \<le> p" "\<exists>n. fmlookup (br_catalog b') t = Some n \<and> p < n" by blast+
    with Pair b'(3,4) single_leads [OF conf(1,2)] show ?thesis by (auto simp: LocalLog_def NumPartitions_def leads_def)
  qed
  moreover have "\<exists>l'. fmlookup (fn_logs (br_store b')) k = Some l' \<and> log_inv l' \<and> highWatermark l' = nextOffset l'
      \<and> log_batches l' = concat (map (seg_batches (disk l)) (butlast (segments l)))
          @ whole_batches (cutoff k) (seg_batches (disk l) (active l))" if "fmlookup (fn_logs s) k = Some l" for k l
  proof -
    have "log_inv l" using that s(1) unfolding file_ok_def by blast
    from Open_crash [OF this, of "cutoff k" "junk k" "fn_cfg (bo_store env)"] obtain l' where
      "Open (crash_disk l (cutoff k) (junk k)) (fn_cfg (bo_store env)) = Some (Inr l')" "log_inv l'" "highWatermark l' = nextOffset l'"
      "log_batches l' = concat (map (seg_batches (disk l)) (butlast (segments l))) @ whole_batches (cutoff k) (seg_batches (disk l) (active l))"
      by blast
    with that b'(5) [rule_format, of "fst k" "snd k" l] show ?thesis by simp
  qed
  ultimately show ?thesis
    using b'(2) by (intro exI [of _ ?nd]) (simp add: start_node_def NewCoordinator_def)
qed

definition sample_raft :: raft_lib where
  "sample_raft = \<lparr>rl_mkdir = (\<lambda>_. None), rl_boltStore = (\<lambda>_. None), rl_snapshots = (\<lambda>_. None), rl_resolve = (\<lambda>_. None),
     rl_transport = (\<lambda>_ _. None), rl_existing = Inr False, rl_newRaft = (\<lambda>_. None), rl_bootstrap = (\<lambda>_. None), rl_listen = (\<lambda>_. None)\<rparr>"

definition sample_boot :: "(file_node, file_node) boot_env" where
  "sample_boot = \<lparr>bo_store = sample_files\<lparr>fn_dirs := fmupd (partitionDir [] sample_key) (crash_disk sample_full 70 [1, 2]) fmempty\<rparr>,
     bo_order = sorted_list_of_set, bo_mkdir = None, bo_entries = Inr [(''__offsets'', True), (''t-0'', True)], bo_root = [], bo_fs = [],
     bo_listen = (\<lambda>_. None), bo_raft = sample_raft, bo_control = \<lparr>ct_quorum = NewFSM, ct_fsm = NewFSM\<rparr>,
     bo_objects = Inl ErrStore, bo_now = 0\<rparr>"

lemma sample_crashed: "crashed (set_log sample_files sample_key sample_full) (\<lambda>_. 70) (\<lambda>_. [1, 2]) (bo_store sample_boot)"
proof -
  have "dir_ok (crash_disk sample_full 70 [1, 2])" using sample_full_ok(1) unfolding dir_ok_def by blast
  then have "dir_ok (found_dir (bo_store sample_boot) k)" for k
    by (simp add: found_dir_def sample_boot_def sample_files_def dir_ok_def)
  moreover have "fn_logs (bo_store sample_boot) = fmempty" by (simp add: sample_boot_def sample_files_def)
  ultimately have "file_ok (bo_store sample_boot)" by (simp add: file_ok_def)
  then show ?thesis
    by (auto simp: crashed_def sample_boot_def sample_files_def found_dir_def set_log_def split: if_splits)
qed

theorem boot_recovers_witness:
  "\<exists>nd. boot (file_backend 0 (\<lambda>_ _. None)) (file_backend 0 (\<lambda>_ _. None)) sample_boot Default = ret (Inr (Inl nd, None))
     \<and> LocalLog (file_backend 0 (\<lambda>_ _. None)) (nd_broker nd) sample_key = ret (None, nd_broker nd)"
proof -
  let ?s = "set_log sample_files sample_key sample_full"
  have "file_ok ?s" using sample_full_ok(1) by (intro set_log_ok) (simp_all add: sample_files_def file_ok_def found_dir_def dir_ok_def)
  moreover have es: "bo_entries sample_boot = Inr [(''__offsets'', True), (''t-0'', True)]" by (simp add: sample_boot_def)
  moreover have "listing ?s [(''__offsets'', True), (''t-0'', True)]"
  proof -
    have "dir_partition (''__offsets'', True) = None" "dir_partition (''t-0'', True) = Some (''t'', 0)" by code_simp+
    moreover have "itoa 0 = ''0''" by code_simp
    ultimately show ?thesis by (simp add: listing_def set_log_def sample_files_def has_prefix_def in_i32_def)
  qed
  moreover have "Parse (cf_NodeID Default) (cf_Brokers Default) (cf_AdvertisedHost Default) (cf_AdvertisedPort Default)
      = Inr (Single 0 ''localhost'' 9092)" by code_simp
  moreover have "Cluster_Size (Single 0 ''localhost'' 9092) = 1" by (simp add: Cluster_Size_def Single_def)
  moreover have "NewOffsetStore (bo_root sample_boot) (bo_fs sample_boot) =
      Inr \<lparr>os_root = path_join [] ''__offsets'', os_cache = load (path_join [] ''__offsets'') []\<rparr>"
    by (simp add: NewOffsetStore_def sample_boot_def mkdir_ok_def is_file_def Let_def list_all_iff)
  ultimately have "\<exists>nd. boot (file_backend 0 (\<lambda>_ _. None)) (file_backend 0 (\<lambda>_ _. None)) sample_boot Default = ret (Inr (Inl nd, None))
      \<and> (\<forall>k l. fmlookup (fn_logs ?s) k = Some l \<longrightarrow>
           LocalLog (file_backend 0 (\<lambda>_ _. None)) (nd_broker nd) k = ret (None, nd_broker nd))"
    using boot_recovers [OF _ sample_crashed es, of Default "Single 0 ''localhost'' 9092" _ 0 "\<lambda>_ _. None" "file_backend 0 (\<lambda>_ _. None)"]
    by (fastforce simp: sample_boot_def Default_def)
  moreover have "fmlookup (fn_logs ?s) sample_key = Some sample_full" by (simp add: set_log_def)
  ultimately show ?thesis by blast
qed

section \<open>The health check\<close>

text \<open>The connection of the health check to a running node: what the server writes for the bytes sent.\<close>

definition node_dial :: "'s Backend_ops \<Rightarrow> (nat \<Rightarrow> 's dispatch_env) \<Rightarrow> 's node \<Rightarrow> bytes \<Rightarrow> goerror + bytes" where
  "node_dial B envs nd sent = (case handleConn B envs 0 sent [] nd of Some (Ret (out, _)) \<Rightarrow> Inr out | _ \<Rightarrow> Inl ErrStore)"

definition probe_frame :: bytes where
  "probe_frame = [0, 18, 0, 0, 0, 0, 0, 1, 0, 11, 104, 101, 97, 108, 116, 104, 99, 104, 101, 99, 107]"

lemma apiVersionsRequest_bytes: "apiVersionsRequest = Ret ([0, 0, 0, 21] @ probe_frame)"
  by code_simp

lemma probe_frame_next: "next_frame ([0, 0, 0, 21] @ probe_frame) = Some (probe_frame, [])" "next_frame [] = None"
  by code_simp+

lemma probe_frame_header:
  "\<exists>hdr r. run_state DecodeRequestHeader (NewReader probe_frame) = (hdr, r) \<and> rh_APIKey hdr = APIApiVersions \<and> rh_APIVersion hdr = 0
     \<and> rh_CorrelationID hdr = 1"
proof -
  have "(case run_state DecodeRequestHeader (NewReader probe_frame) of (hdr, r) \<Rightarrow>
    rh_APIKey hdr = APIApiVersions \<and> rh_APIVersion hdr = 0 \<and> rh_CorrelationID hdr = 1)" by code_simp
  then show ?thesis by (simp split: prod.splits)
qed

lemma probe_reply: "probeApiVersions (\<lambda>_. Inr (writeResponse 1 (apiVersions 0))) = Ret None"
  by code_simp

lemma node_answers_probe:
  "\<exists>nd'. handleConn B envs 0 ([0, 0, 0, 21] @ probe_frame) [] nd = ret (writeResponse 1 (apiVersions 0), nd')"
proof -
  obtain hdr r where h: "run_state DecodeRequestHeader (NewReader probe_frame) = (hdr, r)" "rh_APIKey hdr = APIApiVersions"
    "rh_APIVersion hdr = 0" "rh_CorrelationID hdr = 1" using probe_frame_header by blast
  have "Dispatch B (envs 0) hdr r nd = ret ((apiVersions 0, True), count_request (rh_APIKey hdr) nd)"
    using h by (simp add: Dispatch_def Let_def)
  then show ?thesis using h by (simp add: handleConn.simps [of B envs] probe_frame_next [simplified])
qed

text \<open>C40: the health check and the server agree on the protocol: against a running node in any state, whatever
  its storage, the request of the check is framed, dispatched and answered, and the answer is read back as
  success, so the exit code is 0. A container is never reported unhealthy while its broker answers.\<close>

theorem probe_healthy: "runHealthcheck (\<lambda>_. node_dial B envs nd) args = Ret 0"
proof -
  obtain nd' where "handleConn B envs 0 ([0, 0, 0, 21] @ probe_frame) [] nd = ret (writeResponse 1 (apiVersions 0), nd')"
    using node_answers_probe by blast
  then have "node_dial B envs nd ([0, 0, 0, 21] @ probe_frame) = Inr (writeResponse 1 (apiVersions 0))" by (simp add: node_dial_def)
  then have "probeApiVersions (node_dial B envs nd) = probeApiVersions (\<lambda>_. Inr (writeResponse 1 (apiVersions 0)))"
    by (simp add: probeApiVersions_def apiVersionsRequest_bytes)
  then show ?thesis by (simp add: runHealthcheck_def probe_reply)
qed

end
