(* ===== verification/Spec2Isabelle.thy ===== *)
theory Spec2Isabelle
  imports Backend Protocol_Roundtrip Process_Props
begin

text \<open>
  Verification of mq, a message broker in Go that speaks the Kafka wire protocol. The development is a
  shallow embedding: every struct is a record, every enumeration a datatype or its integer constants,
  every function or method a HOL function with the name it has in the source (with a prefix or a
  suffix where the name is taken). This block says which theory models which part of the program, what
  is proved about it, which bounds and parameters appear, and what is left out.

  \<^bold>\<open>How the parts fit together.\<close> A client connection delivers frames to the connection loop
  (\<open>internal/server/server.go\<close>), which decodes a request header (\<open>internal/protocol\<close> over
  \<open>internal/kbytes\<close>) and dispatches on the API key (\<open>handlers.go\<close>). Produce, Fetch and ListOffsets act on
  partition logs through the broker (\<open>internal/broker\<close>), which knows the topics, the leaders, the in-sync
  replicas and the open logs. A log is a segmented file log (\<open>internal/storage\<close>) or a handle on the object
  storage of the node (\<open>internal/storage/object\<close>: write-ahead log, pending buffer, uploader, index).
  Group requests go to the coordinator (\<open>internal/group\<close>), whose offsets are files. In a cluster the
  metadata is a state machine replicated by raft (\<open>internal/controller\<close>), whose leader detects dead
  brokers and moves partition leaders; followers copy the logs of their leaders with fetch requests
  (\<open>internal/replication\<close>). The process (\<open>cmd/mqbroker\<close>) reads the configuration and starts and stops all this.

  \<^bold>\<open>Conventions.\<close> Go integers are \<open>int\<close> with explicit wrap functions where overflow matters, a byte is an
  \<open>8 word\<close>, a slice or a string a list, \<open>nil\<close> is \<open>None\<close> where the code tells it apart, a map is a finite map
  whose iteration order is an argument. A panic is the value \<open>Panic\<close> of the type \<open>go\<close>, an error a value of
  \<open>goerror\<close>, and a loop that does not end is \<open>None\<close>. Methods that hold one lock throughout are one function
  on the state; a method that sleeps or releases its lock takes what others do meanwhile as an argument:
  functions on the state, quantified over in the theorems. Clocks, random ids and results of the
  system are arguments too. Named constants (API keys, error codes, field offsets, command types) keep their
  source names.

  \<^bold>\<open>Foundations.\<close>
  \<^item> \<open>Prelude\<close>: wrap functions, bytes, the panic monad, and the collections of facts. \<open>Gostd\<close>: \<open>strconv\<close>, \<open>strings\<close>,
    \<open>sort.Search\<close>, CRC32-C, FNV-1a, with their laws. \<open>Files\<close>: directories of files.
  \<^item> \<open>Kbytes\<close>: \<open>Reader\<close> and \<open>Writer\<close>, with the locale \<open>codec\<close> (a decoder that undoes an encoder), interpreted on every
    primitive and used for arrays and messages. Shown: any sequence of fields is read back, an array length never
    exceeds the unread bytes.
  \<^item> \<open>Protocol_Core\<close>, \<open>Protocol_Group\<close>, \<open>Protocol_Roundtrip\<close>: all messages of \<open>internal/protocol\<close>. Shown: every request
    decoder stays inside its buffer on every input and version, and Produce and Fetch requests in the
    documented layout of each version are decoded to their fields.

  \<^bold>\<open>The file log.\<close>
  \<^item> \<open>Record_Batch\<close> (\<open>record/batch.go\<close>): the header, its patches, the walk \<open>Iterate\<close>, which is a fold over whole
    batches and ends whenever its callback refuses slices shorter than a header.
  \<^item> \<open>Sparse_Index\<close>, \<open>Segment\<close>, \<open>Partition_Log\<close> (\<open>index.go\<close>, \<open>segment.go\<close>, \<open>log.go\<close>): the log implements a list of batches.
    Append, replica append, read, timestamp search, retention and crash recovery are specified on that
    list; \<open>log_inv\<close> is the invariant and the step relation \<open>log_step\<close> collects the operations and crashes.
    The contract of \<open>storage.Backend\<close> is the locale \<open>partition_backend\<close> in \<open>Backend\<close>.

  \<^bold>\<open>The object backend.\<close>
  \<^item> \<open>Object_Wal\<close>, \<open>Object_Store\<close>, \<open>Object_Index\<close>, \<open>Object_Storage\<close>: \<open>wal.go\<close>, \<open>store.go\<close>, \<open>index.go\<close>, and \<open>storage.go\<close> with
    \<open>read.go\<close> and \<open>retention.go\<close>. The write-ahead log is a list of segments of records and survives a cut
    anywhere. Index stores share the locale \<open>index_store\<close>; the in-memory one and the one of the
    controller are instances.
  \<^item> \<open>Object_Upload\<close>, \<open>Object_Log\<close>, \<open>Object_Recovery\<close>, \<open>Object_Retention\<close>: an upload keeps the contents of every partition,
    the partition handle meets the contract of the file log, a restart recovers uploaded and logged
    batches, retention deletes no object that is needed. The upload is also split at the points where
    its locks are free, which exhibits the losses recorded at the end of \<open>Object_Recovery\<close>.

  \<^bold>\<open>Metadata and groups.\<close>
  \<^item> \<open>Cluster\<close> (\<open>cluster.go\<close>): membership and hash placement.
  \<^item> \<open>Fsm\<close> (\<open>fsm.go\<close>, \<open>command.go\<close>): the metadata state machine. Shown: when a command is accepted, that a refused one
    changes nothing, and that no leader epoch of a partition has two leaders.
  \<^item> \<open>Controller\<close>, \<open>Failover\<close>, \<open>Lifecycle\<close> (\<open>controller.go\<close>, \<open>rpc.go\<close>, \<open>liveness.go\<close>, \<open>indexstore.go\<close>): proposing and forwarding
    commands (exactly once when no reply is lost), the failure detector, the failover scan (only dead leaders are
    replaced, only by live in-sync replicas, and all that can be are), start and close with the resources
    they acquire and release.
  \<^item> \<open>Offset_Store\<close>, \<open>Group\<close> (\<open>offsets.go\<close>, \<open>coordinator.go\<close>): commits survive a restart; generations fix their members
    and leader; the assignments of the leader are what the members get.

  \<^bold>\<open>The node.\<close>
  \<^item> \<open>Broker_Config\<close> (\<open>config.go\<close>): defaults, environment and flags.
  \<^item> \<open>Node_Logs\<close>: all logs of a node behind the record \<open>Backend_ops\<close>, with the contract \<open>node_logs\<close>, which relates the
    storage to abstract logs (batches, earliest and latest offset, high watermark). The file logs are an
    instance; the broker, the handlers and replication are verified inside the locale.
  \<^item> \<open>Broker_Core\<close>, \<open>Broker_Inv\<close> (\<open>broker.go\<close>): every operation, the invariant \<open>broker_ok\<close>, and that no operation loses or
    changes a record; the high watermark is the minimum over the in-sync replicas.
  \<^item> \<open>Data_Handlers\<close>, \<open>Server\<close>, \<open>Data_Props\<close> (\<open>handlers.go\<close>, \<open>server.go\<close>): all sixteen handlers, the dispatcher and the connection
    loop. Shown: consumers see committed batches only, an acknowledged produce with \<open>acks = -1\<close> is committed.
  \<^item> \<open>Replication\<close>, \<open>Replicate\<close> (\<open>replication.go\<close>): the follower, and follower and leader together through both
    codecs, the frames, the dispatcher and the logs: replication converges in as many turns as
    batches are missing (locale \<open>replication_pair\<close>).
  \<^item> \<open>Process\<close>, \<open>Process_Props\<close> (\<open>main.go\<close>, \<open>healthcheck.go\<close>, \<open>metrics.go\<close>): start-up, background loops, gauges, shutdown, health
    check. Shown: a broker that crashed comes up again with every partition and its whole batches, and the health
    check succeeds against every running node.

  \<^bold>\<open>Bounds.\<close> No fuel is used: loops are structural, have a termination proof, or are partial functions whose
  termination is proved where a theorem needs it. Theorems about logs assume that positions and offsets stay
  below the width of their Go type (\<open>log_fits\<close>, \<open>olog_fits\<close>, \<open>seq_ok\<close>), the conditions under which the code itself
  does not wrap; generations are assumed not to pass \<open>2 ^ 31\<close> within a history. \<open>wf_records\<close> and \<open>wf_batch\<close> say that a batch has the
  length its header gives and a record count that agrees with its last offset delta.

  \<^bold>\<open>Parameters.\<close> Code outside the repository is an argument with named hypotheses: the raft library (\<open>attempt\<close>,
  \<open>ctl_env\<close>, \<open>raft_lib\<close>), the client of the object store (\<open>minio_client\<close>, \<open>client_ok\<close>), the network (the function from the bytes
  sent to the bytes read), the clock.

  \<^bold>\<open>Not modelled.\<close>
  \<^item> The JSON encoding of commands, of the result of a forwarded command and of snapshots (\<open>Command.encode\<close>, \<open>FSM.Snapshot\<close>,
    \<open>FSM.Restore\<close>): commands are applied and forwarded as the values they encode, and a frame that does not decode is the
    branch for such a frame.
  \<^item> Counters, histograms and their registration in \<open>metrics.go\<close>, the HTTP endpoint and all log messages: calls
    into libraries whose results the program never reads.
  \<^item> Errors of the operating system on open files (a full disk, a failing device), except where a theory takes the
    error of a call as an argument.
  \<^item> Data races: methods are atomic under their locks, and interleavings happen at the points where the code
    releases a lock or sleeps.
  \<^item> The test harness under \<open>test\<close>.
\<close>

end
